(* ===== verification/MJ_Prelude.thy ===== *)
theory MJ_Prelude
  imports Main "HOL-Library.Word" "HOL-Library.Multiset" "HOL-Library.List_Lexorder"
    "HOL-Library.Product_Lexorder" "HOL-Library.AList"
begin

text \<open>
  What the components share: the machine types of the Rust sources, the outcome of a fallible
  call (an error value, or a panic that stops the block), checked and saturating arithmetic,
  the vector and map operations the pallets use (bounded push, \<open>swap_remove\<close>, the
  \<open>swap_remove\<close> loop, adjacent windows), the byte layout helpers, and the generic lemmas about
  them.  Proofs of the components use the collections \<open>res_simps\<close> (outcomes) and
  \<open>store_simps\<close> (storage maps kept as association lists).
\<close>

named_theorems res_simps "rewriting of outcomes and their composition"
named_theorems store_simps "lookup after an update of a storage map"

section \<open>Types\<close>

type_synonym u8 = "8 word"
type_synonym u16 = "16 word"
type_synonym u32 = "32 word"
type_synonym u64 = "64 word"
type_synonym u128 = "128 word"

type_synonym bytes = "u8 list"
type_synonym hash = bytes
type_synonym account = bytes
type_synonym state_key = bytes
type_synonym balance = u128
type_synonym block_number = u32
type_synonym epoch_index = u32
type_synonym work_id = u64
type_synonym worker_id = u64

text \<open>Rust byte-string literals.\<close>

definition ascii :: "string \<Rightarrow> bytes" where
  "ascii s = map of_char s"

section \<open>Outcomes\<close>

text \<open>A \<open>Result\<close>, with a third case for a panic (\<open>expect\<close>, \<open>panic!\<close>).\<close>

datatype ('e, 'a) outcome = Ok 'a | Err 'e | Panic

primrec bind_res :: "('e, 'a) outcome \<Rightarrow> ('a \<Rightarrow> ('e, 'b) outcome) \<Rightarrow> ('e, 'b) outcome" where
  "bind_res (Ok x) f = f x"
| "bind_res (Err e) f = Err e"
| "bind_res Panic f = Panic"

text \<open>\<open>ensure!(b, e)\<close> followed by the rest of the function.\<close>

definition ensure :: "bool \<Rightarrow> 'e \<Rightarrow> ('e, 'a) outcome \<Rightarrow> ('e, 'a) outcome" where
  "ensure b e r = (if b then r else Err e)"

text \<open>\<open>option.ok_or(e)?\<close> followed by the rest of the function.\<close>

definition ok_or :: "'a option \<Rightarrow> 'e \<Rightarrow> ('a \<Rightarrow> ('e, 'b) outcome) \<Rightarrow> ('e, 'b) outcome" where
  "ok_or x e f = (case x of None \<Rightarrow> Err e | Some a \<Rightarrow> f a)"

text \<open>\<open>map_err\<close>.\<close>

primrec map_err :: "('e \<Rightarrow> 'f) \<Rightarrow> ('e, 'a) outcome \<Rightarrow> ('f, 'a) outcome" where
  "map_err g (Ok x) = Ok x"
| "map_err g (Err e) = Err (g e)"
| "map_err g Panic = Panic"

lemma bind_res_eq_Ok [res_simps]:
  "bind_res r f = Ok y \<longleftrightarrow> (\<exists>x. r = Ok x \<and> f x = Ok y)"
  by (cases r) auto

lemma bind_res_eq_Err [res_simps]:
  "bind_res r f = Err e \<longleftrightarrow> r = Err e \<or> (\<exists>x. r = Ok x \<and> f x = Err e)"
  by (cases r) auto

lemma bind_res_eq_Panic [res_simps]:
  "bind_res r f = Panic \<longleftrightarrow> r = Panic \<or> (\<exists>x. r = Ok x \<and> f x = Panic)"
  by (cases r) auto

lemma ensure_eq_Ok [res_simps]: "ensure b e r = Ok y \<longleftrightarrow> b \<and> r = Ok y"
  by (simp add: ensure_def)

lemma ensure_eq_Err [res_simps]: "ensure b e r = Err e' \<longleftrightarrow> (\<not> b \<and> e = e') \<or> (b \<and> r = Err e')"
  by (simp add: ensure_def)

lemma ensure_eq_Panic [res_simps]: "ensure b e r = Panic \<longleftrightarrow> b \<and> r = Panic"
  by (simp add: ensure_def)

lemma ensure_simps [simp]: "ensure True e r = r" "ensure False e r = Err e"
  by (simp_all add: ensure_def)

lemma ok_or_simps [simp]: "ok_or (Some a) e f = f a" "ok_or None e f = Err e"
  by (simp_all add: ok_or_def)

lemma ok_or_eq_Ok [res_simps]: "ok_or x e f = Ok y \<longleftrightarrow> (\<exists>a. x = Some a \<and> f a = Ok y)"
  by (cases x) auto

lemma ok_or_eq_Err [res_simps]:
  "ok_or x e f = Err e' \<longleftrightarrow> (x = None \<and> e = e') \<or> (\<exists>a. x = Some a \<and> f a = Err e')"
  by (cases x) auto

lemma ok_or_eq_Panic [res_simps]: "ok_or x e f = Panic \<longleftrightarrow> (\<exists>a. x = Some a \<and> f a = Panic)"
  by (cases x) auto

lemma map_err_eq_Ok [res_simps]: "map_err g r = Ok y \<longleftrightarrow> r = Ok y"
  by (cases r) auto

lemma map_err_eq_Panic [res_simps]: "map_err g r = Panic \<longleftrightarrow> r = Panic"
  by (cases r) auto

text \<open>The value of a successful outcome, for concrete runs.\<close>

primrec the_ok :: "('e, 'a) outcome \<Rightarrow> 'a" where
  "the_ok (Ok x) = x"

definition is_ok :: "('e, 'a) outcome \<Rightarrow> bool" where
  "is_ok r = (case r of Ok _ \<Rightarrow> True | Err _ \<Rightarrow> False | Panic \<Rightarrow> False)"

lemma is_ok_eq: "is_ok r \<Longrightarrow> r = Ok (the_ok r)"
  by (cases r) (simp_all add: is_ok_def)

section \<open>Arithmetic\<close>

definition checked_add :: "'a::len word \<Rightarrow> 'a word \<Rightarrow> 'a word option" where
  "checked_add a b = (if unat a + unat b < 2 ^ LENGTH('a) then Some (a + b) else None)"

definition saturating_add :: "'a::len word \<Rightarrow> 'a word \<Rightarrow> 'a word" where
  "saturating_add a b = (if unat a + unat b < 2 ^ LENGTH('a) then a + b else - 1)"

definition saturating_sub :: "'a::len word \<Rightarrow> 'a word \<Rightarrow> 'a word" where
  "saturating_sub a b = (if b \<le> a then a - b else 0)"

definition saturating_mul :: "'a::len word \<Rightarrow> 'a word \<Rightarrow> 'a word" where
  "saturating_mul a b = (if unat a * unat b < 2 ^ LENGTH('a) then a * b else - 1)"

text \<open>Code equations over the integers, so that 64 and 128-bit values evaluate.\<close>

lemma unat_less_exp_iff: "unat a + unat b < 2 ^ n \<longleftrightarrow> uint a + uint (b :: 'a::len word) < 2 ^ n"
  "unat a * unat b < 2 ^ n \<longleftrightarrow> uint a * uint (b :: 'a::len word) < 2 ^ n"
  unfolding uint_nat by (metis of_nat_add of_nat_less_numeral_power_cancel_iff, metis of_nat_mult of_nat_less_numeral_power_cancel_iff)

lemma checked_add_code [code]:
  "checked_add a b = (if uint a + uint b < 2 ^ LENGTH('a) then Some (a + b) else None)"
  for a b :: "'a::len word"
  by (simp only: checked_add_def unat_less_exp_iff)

lemma saturating_add_code [code]:
  "saturating_add a b = (if uint a + uint b < 2 ^ LENGTH('a) then a + b else - 1)"
  for a b :: "'a::len word"
  by (simp only: saturating_add_def unat_less_exp_iff)

lemma saturating_mul_code [code]:
  "saturating_mul a b = (if uint a * uint b < 2 ^ LENGTH('a) then a * b else - 1)"
  for a b :: "'a::len word"
  by (simp only: saturating_mul_def unat_less_exp_iff)

lemma unat_max_word: "unat (- 1 :: 'a::len word) = 2 ^ LENGTH('a) - 1"
  by (simp add: unsigned_minus_1_eq_mask mask_eq_exp_minus_1)

lemma unat_add_no_overflow:
  "unat a + unat b < 2 ^ LENGTH('a) \<Longrightarrow> unat (a + b) = unat a + unat (b :: 'a::len word)"
  by (simp add: unat_word_ariths)

lemma checked_add_Some:
  "checked_add a b = Some c \<longleftrightarrow> c = a + b \<and> unat a + unat b < 2 ^ LENGTH('a)"
  for a b c :: "'a::len word"
  by (auto simp: checked_add_def)

lemma unat_saturating_add:
  "unat (saturating_add a b) = min (unat a + unat b) (2 ^ LENGTH('a) - 1)"
  for a b :: "'a::len word"
  by (auto simp: saturating_add_def unat_add_no_overflow unat_max_word)

lemma unat_saturating_sub: "unat (saturating_sub a b) = unat a - unat b"
  for a b :: "'a::len word"
  by (auto simp: saturating_sub_def unat_sub word_le_nat_alt)

lemma unat_saturating_mul:
  "unat (saturating_mul a b) = min (unat a * unat b) (2 ^ LENGTH('a) - 1)"
  for a b :: "'a::len word"
  by (auto simp: saturating_mul_def unat_word_ariths unat_max_word)

lemma unat_Suc_less:
  assumes "a < (b :: 'a::len word)"
  shows "unat (a + 1) = unat a + 1" "a + 1 \<le> b"
proof -
  have "unat a + 1 \<le> unat b" using assms by (simp add: word_less_nat_alt)
  moreover have "unat b < 2 ^ LENGTH('a)" by (rule unsigned_less)
  ultimately have "Suc (unat a) < 2 ^ LENGTH('a)" by linarith
  then show *: "unat (a + 1) = unat a + 1"
    by (simp add: unat_word_ariths)
  with \<open>unat a + 1 \<le> unat b\<close> show "a + 1 \<le> b"
    by (simp add: word_le_nat_alt)
qed

lemma saturating_Suc:
  assumes "a < (b :: 'a::len word)"
  shows "saturating_add a 1 = a + 1" "unat (saturating_add a 1) = Suc (unat a)" "saturating_add a 1 \<le> b"
proof -
  have "unat b < 2 ^ LENGTH('a)" by (rule unsigned_less)
  moreover have "unat a + 1 \<le> unat b"
    using assms by (simp add: word_less_nat_alt)
  ultimately have "unat a + unat (1 :: 'a word) < 2 ^ LENGTH('a)"
    unfolding unat_1 by linarith
  then show "saturating_add a 1 = a + 1" by (simp add: saturating_add_def)
  with unat_Suc_less [OF assms] show "unat (saturating_add a 1) = Suc (unat a)" "saturating_add a 1 \<le> b"
    by simp_all
qed

section \<open>Vectors\<close>

text \<open>\<open>BoundedVec::try_push\<close>: \<open>None\<close> when the vector is at its bound.\<close>

definition try_push :: "nat \<Rightarrow> 'a \<Rightarrow> 'a list \<Rightarrow> 'a list option" where
  "try_push bound x xs = (if length xs < bound then Some (xs @ [x]) else None)"

text \<open>\<open>BoundedVec::try_from\<close>.\<close>

definition try_bounded :: "nat \<Rightarrow> 'a list \<Rightarrow> 'a list option" where
  "try_bounded bound xs = (if length xs \<le> bound then Some xs else None)"

text \<open>\<open>iter().position(p)\<close>.\<close>

primrec position :: "('a \<Rightarrow> bool) \<Rightarrow> 'a list \<Rightarrow> nat option" where
  "position P [] = None"
| "position P (x # xs) = (if P x then Some 0 else map_option Suc (position P xs))"

text \<open>\<open>Vec::swap_remove(i)\<close> for an index in range: the last element takes the place.\<close>

definition swap_remove :: "nat \<Rightarrow> 'a list \<Rightarrow> 'a list" where
  "swap_remove i xs = (butlast xs)[i := last xs]"

text \<open>\<open>if let Some(index) = v.iter().position(p) { v.swap_remove(index); }\<close>\<close>

definition remove_first :: "('a \<Rightarrow> bool) \<Rightarrow> 'a list \<Rightarrow> 'a list" where
  "remove_first P xs = (case position P xs of None \<Rightarrow> xs | Some i \<Rightarrow> swap_remove i xs)"

text \<open>\<open>iter().copied().min()\<close>.\<close>

definition min_opt :: "'a::linorder list \<Rightarrow> 'a option" where
  "min_opt xs = (if xs = [] then None else Some (Min (set xs)))"

text \<open>\<open>windows(2).any(p)\<close>.\<close>

fun windows_any :: "('a \<Rightarrow> 'a \<Rightarrow> bool) \<Rightarrow> 'a list \<Rightarrow> bool" where
  "windows_any P (x # y # ys) = (P x y \<or> windows_any P (y # ys))"
| "windows_any P xs = False"

text \<open>
  The removal loop of the pallets: \<open>while index < v.len()\<close>, remove the element at \<open>index\<close> with
  \<open>swap_remove\<close> when it matches (and run the loop's effect on it), else advance.
\<close>

function swap_retain ::
    "('a \<Rightarrow> bool) \<Rightarrow> ('a \<Rightarrow> 's \<Rightarrow> 's) \<Rightarrow> nat \<Rightarrow> 'a list \<Rightarrow> 's \<Rightarrow> 'a list \<times> 's" where
  "swap_retain P eff i xs s =
     (if i < length xs
      then if P (xs ! i) then swap_retain P eff i (swap_remove i xs) (eff (xs ! i) s)
           else swap_retain P eff (Suc i) xs s
      else (xs, s))"
  by pat_completeness auto
termination
  by (relation "measure (\<lambda>(P, eff, i, xs, s). length xs - i)") (auto simp: swap_remove_def)

declare swap_retain.simps [simp del]

lemma length_swap_remove [simp]: "length (swap_remove i xs) = length xs - 1"
  by (simp add: swap_remove_def)

lemma try_push_Some: "try_push n x xs = Some ys \<longleftrightarrow> length xs < n \<and> ys = xs @ [x]"
  by (auto simp: try_push_def)

lemma try_bounded_Some: "try_bounded n xs = Some ys \<longleftrightarrow> length xs \<le> n \<and> ys = xs"
  by (auto simp: try_bounded_def)

lemma position_Some:
  "position P xs = Some i \<Longrightarrow> i < length xs \<and> P (xs ! i)"
  by (induction xs arbitrary: i) (auto split: if_splits)

lemma position_None: "position P xs = None \<longleftrightarrow> (\<forall>x\<in>set xs. \<not> P x)"
  by (induction xs) auto

lemma mset_swap_remove_drop:
  assumes "i < length xs"
  shows "mset (drop i (swap_remove i xs)) = mset (drop (Suc i) xs)"
    and "take i (swap_remove i xs) = take i xs"
proof -
  obtain ys z where xs: "xs = ys @ [z]"
    using assms by (cases xs rule: rev_cases) auto
  show "take i (swap_remove i xs) = take i xs"
    using assms by (simp add: swap_remove_def xs)
  show "mset (drop i (swap_remove i xs)) = mset (drop (Suc i) xs)"
  proof (cases "i < length ys")
    case True
    have "drop i (ys[i := z]) = z # drop (Suc i) ys"
      using True by (simp add: drop_update_swap Cons_nth_drop_Suc [symmetric, of i ys])
    with True show ?thesis
      by (simp add: swap_remove_def xs)
  next
    case False
    with assms xs show ?thesis
      by (simp add: swap_remove_def)
  qed
qed

lemma mset_swap_remove:
  assumes "i < length xs"
  shows "mset (swap_remove i xs) = mset xs - {#xs ! i#}"
proof -
  have "mset (swap_remove i xs) = mset (take i (swap_remove i xs)) + mset (drop i (swap_remove i xs))"
    by (metis append_take_drop_id mset_append)
  also have "\<dots> = mset (take i xs) + mset (drop (Suc i) xs)"
    using mset_swap_remove_drop [OF assms] by simp
  also have "\<dots> = mset xs - {#xs ! i#}"
    by (metis add_mset_add_single add_mset_remove_trivial assms id_take_nth_drop mset.simps(2)
        mset_append union_mset_add_mset_right)
  finally show ?thesis .
qed

lemma set_swap_remove_subset: "i < length xs \<Longrightarrow> set (swap_remove i xs) \<subseteq> set xs"
  by (metis diff_subset_eq_self mset_swap_remove set_mset_mono set_mset_mset)

lemma distinct_iff_count: "distinct xs \<longleftrightarrow> (\<forall>x. count (mset xs) x \<le> 1)"
proof
  assume "distinct xs"
  then show "\<forall>x. count (mset xs) x \<le> 1"
    by (simp add: distinct_count_atmost_1)
next
  assume "\<forall>x. count (mset xs) x \<le> 1"
  then have "count (mset xs) x = (if x \<in> set xs then 1 else 0)" for x
    by (metis One_nat_def Suc_leI count_greater_zero_iff count_mset_0_iff dual_order.antisym set_mset_mset)
  then show "distinct xs"
    by (simp add: distinct_count_atmost_1)
qed

lemma distinct_mset_subset:
  assumes "distinct xs" "mset ys \<subseteq># mset xs"
  shows "distinct ys"
  using assms by (meson distinct_iff_count mset_subset_eq_count order_trans)

lemma distinct_swap_remove:
  assumes "distinct xs" "i < length xs"
  shows "distinct (swap_remove i xs)" "set (swap_remove i xs) = set xs - {xs ! i}"
proof -
  have m: "mset (swap_remove i xs) = mset xs - {#xs ! i#}"
    using assms(2) by (rule mset_swap_remove)
  then show "distinct (swap_remove i xs)"
    using assms(1) by (metis diff_subset_eq_self distinct_mset_subset)
  have one: "\<not> 1 < count (mset xs) (xs ! i)"
    using assms(1) by (simp add: distinct_iff_count not_less)
  have "x \<in># mset xs - {#xs ! i#} \<longleftrightarrow> x \<in> set xs \<and> x \<noteq> xs ! i" for x
    using one by (auto simp: in_diff_count)
  then have "set_mset (mset xs - {#xs ! i#}) = set xs - {xs ! i}"
    by auto
  with m show "set (swap_remove i xs) = set xs - {xs ! i}"
    by (metis set_mset_mset)
qed

lemma swap_retain_spec:
  "\<exists>removed. mset (fst (swap_retain P eff i xs s)) + mset removed = mset xs
     \<and> filter P removed = removed
     \<and> mset (fst (swap_retain P eff i xs s)) =
         mset (take i xs) + mset (filter (\<lambda>x. \<not> P x) (drop i xs))
     \<and> snd (swap_retain P eff i xs s) = fold eff removed s"
proof (induction P eff i xs s rule: swap_retain.induct)
  case (1 P eff i xs s)
  show ?case
  proof (cases "i < length xs")
    case False
    then show ?thesis
      by (intro exI [of _ "[]"]) (simp add: swap_retain.simps)
  next
    case in_range: True
    note split = id_take_nth_drop [OF in_range]
    show ?thesis
    proof (cases "P (xs ! i)")
      case True
      let ?ys = "swap_remove i xs"
      have eq: "swap_retain P eff i xs s = swap_retain P eff i ?ys (eff (xs ! i) s)"
        using in_range True by (subst swap_retain.simps) simp
      obtain removed where r:
        "mset (fst (swap_retain P eff i ?ys (eff (xs ! i) s))) + mset removed = mset ?ys"
        "filter P removed = removed"
        "mset (fst (swap_retain P eff i ?ys (eff (xs ! i) s))) =
           mset (take i ?ys) + mset (filter (\<lambda>x. \<not> P x) (drop i ?ys))"
        "snd (swap_retain P eff i ?ys (eff (xs ! i) s)) = fold eff removed (eff (xs ! i) s)"
        using "1.IH"(1) [OF in_range True] by blast
      have "mset (filter (\<lambda>x. \<not> P x) (drop i ?ys)) = mset (filter (\<lambda>x. \<not> P x) (drop i xs))"
        using mset_swap_remove_drop(1) [OF in_range] True
        by (simp add: Cons_nth_drop_Suc [OF in_range, symmetric])
      moreover have "mset ?ys + {#xs ! i#} = mset xs"
        using in_range by (simp add: mset_swap_remove)
      ultimately show ?thesis
        using r True mset_swap_remove_drop(2) [OF in_range] eq
        by (intro exI [of _ "xs ! i # removed"]) (simp add: union_assoc [symmetric])
    next
      case False
      have eq: "swap_retain P eff i xs s = swap_retain P eff (Suc i) xs s"
        using in_range False by (subst swap_retain.simps) simp
      have "mset (take (Suc i) xs) + mset (filter (\<lambda>x. \<not> P x) (drop (Suc i) xs)) =
          mset (take i xs) + mset (filter (\<lambda>x. \<not> P x) (drop i xs))"
        using False in_range
        by (simp add: take_Suc_conv_app_nth Cons_nth_drop_Suc [OF in_range, symmetric])
      with "1.IH"(2) [OF in_range False] show ?thesis
        unfolding eq by metis
    qed
  qed
qed

corollary mset_swap_retain:
  "mset (fst (swap_retain P eff 0 xs s)) = mset (filter (\<lambda>x. \<not> P x) xs)"
  using swap_retain_spec [of P eff 0 xs s] by auto

corollary set_swap_retain:
  "set (fst (swap_retain P eff 0 xs s)) = {x \<in> set xs. \<not> P x}"
  using mset_swap_retain [of P eff xs s] by (metis set_filter set_mset_mset)

corollary length_swap_retain: "length (fst (swap_retain P eff 0 xs s)) \<le> length xs"
  using mset_swap_retain [of P eff xs s] by (metis length_filter_le size_mset)

corollary snd_swap_retain:
  "\<exists>removed. mset removed = mset (filter P xs) \<and> snd (swap_retain P eff 0 xs s) = fold eff removed s"
proof -
  obtain removed where r: "mset (fst (swap_retain P eff 0 xs s)) + mset removed = mset xs"
      "snd (swap_retain P eff 0 xs s) = fold eff removed s"
    using swap_retain_spec [of P eff 0 xs s] by blast
  have "mset (filter (\<lambda>x. \<not> P x) xs) + mset (filter P xs) = mset xs"
    by (simp add: union_commute flip: multiset_partition)
  then have "mset removed = mset (filter P xs)"
    using r(1) mset_swap_retain [of P eff xs s] by (metis add_left_cancel)
  with r(2) show ?thesis by blast
qed

lemma distinct_swap_retain:
  "distinct xs \<Longrightarrow> distinct (fst (swap_retain P eff 0 xs s))"
  by (metis distinct_filter distinct_mset_subset mset_swap_retain subset_mset.order_refl)

lemma distinct_map_swap_retain:
  "distinct (map f xs) \<Longrightarrow> distinct (map f (fst (swap_retain P eff 0 xs s)))"
proof -
  assume d: "distinct (map f xs)"
  have "mset (map f (fst (swap_retain P eff 0 xs s))) = mset (map f (filter (\<lambda>x. \<not> P x) xs))"
    by (simp add: mset_swap_retain)
  moreover have "distinct (map f (filter (\<lambda>x. \<not> P x) xs))"
    using d by (simp add: distinct_map_filter)
  ultimately show ?thesis
    by (metis distinct_mset_subset subset_mset.order_refl)
qed

lemma remove_first_none: "\<forall>x\<in>set xs. \<not> P x \<Longrightarrow> remove_first P xs = xs"
  by (simp add: remove_first_def position_None [symmetric])

lemma length_remove_first: "length (remove_first P xs) \<le> length xs"
  by (simp add: remove_first_def split: option.split)

lemma remove_first_distinct:
  assumes "distinct xs"
  shows "distinct (remove_first (\<lambda>y. y = x) xs)"
    and "set (remove_first (\<lambda>y. y = x) xs) = set xs - {x}"
proof -
  show "distinct (remove_first (\<lambda>y. y = x) xs)"
    using assms by (auto simp: remove_first_def split: option.split dest: position_Some distinct_swap_remove)
  show "set (remove_first (\<lambda>y. y = x) xs) = set xs - {x}"
    using assms distinct_swap_remove [OF assms]
    by (auto simp: remove_first_def position_None split: option.split dest!: position_Some)
qed

lemma min_opt_Some:
  "min_opt xs = Some m \<longleftrightarrow> m \<in> set xs \<and> (\<forall>x\<in>set xs. m \<le> x)"
  by (auto simp: min_opt_def intro!: Min_eqI)

lemma min_opt_None [simp]: "min_opt xs = None \<longleftrightarrow> xs = []"
  by (simp add: min_opt_def)

lemma not_windows_any_iff:
  assumes "transp R"
  shows "\<not> windows_any (\<lambda>a b. \<not> R a b) xs \<longleftrightarrow> sorted_wrt R xs"
proof (induction xs rule: induct_list012)
  case (3 x y zs)
  have "R x y \<Longrightarrow> sorted_wrt R (y # zs) \<Longrightarrow> \<forall>z\<in>set zs. R x z"
    using assms by (auto dest: transpD)
  with "3.IH"(2) show ?case by auto
qed simp_all

lemma windows_any_mono:
  "windows_any P xs \<Longrightarrow> (\<And>a b. P a b \<Longrightarrow> Q a b) \<Longrightarrow> windows_any Q xs"
  by (induction xs rule: induct_list012) auto

section \<open>Storage maps as association lists\<close>

definition alist_get :: "('k \<times> 'v) list \<Rightarrow> 'k \<Rightarrow> 'v option" where
  "alist_get m k = map_of m k"

lemma alist_get_Nil [simp]: "alist_get [] k = None"
  by (simp add: alist_get_def)

lemma alist_get_Cons [simp]: "alist_get (e # m) k = (if k = fst e then Some (snd e) else alist_get m k)"
  by (simp add: alist_get_def)

lemma alist_get_update [store_simps, simp]:
  "alist_get (AList.update k v m) k' = (if k' = k then Some v else alist_get m k')"
  by (simp add: alist_get_def update_conv')

lemma alist_get_delete [store_simps, simp]:
  "alist_get (AList.delete k m) k' = (if k' = k then None else alist_get m k')"
  by (simp add: alist_get_def delete_conv')

lemma alist_get_None: "alist_get m k = None \<longleftrightarrow> k \<notin> fst ` set m"
  by (simp add: alist_get_def map_of_eq_None_iff)

lemma alist_get_in: "distinct (map fst m) \<Longrightarrow> (k, v) \<in> set m \<longleftrightarrow> alist_get m k = Some v"
  by (simp add: alist_get_def)

lemma length_alist_update:
  "length (AList.update k v m) = (if alist_get m k = None then Suc (length m) else length m)"
  by (induction m) auto

lemma length_alist_delete:
  "distinct (map fst m) \<Longrightarrow> alist_get m k \<noteq> None \<Longrightarrow> Suc (length (AList.delete k m)) = length m"
proof (induction m)
  case (Cons p m)
  then show ?case
    by (cases "fst p = k") (auto simp: alist_get_None)
qed simp

lemma distinct_alist_delete: "distinct (map fst m) \<Longrightarrow> distinct (map fst (AList.delete k m))"
  by (simp add: distinct_delete)

section \<open>Byte layouts\<close>

text \<open>\<open>to_le_bytes\<close>: the \<open>n\<close> bytes of a word, least significant first.\<close>

definition to_le_bytes :: "nat \<Rightarrow> 'a::len word \<Rightarrow> bytes" where
  "to_le_bytes n w = map (\<lambda>i. ucast (drop_bit (8 * i) w)) [0..<n]"

text \<open>\<open>(xs.len() as u32).to_le_bytes()\<close>: the cast truncates.\<close>

definition len_u32 :: "'a list \<Rightarrow> bytes" where
  "len_u32 xs = to_le_bytes 4 (of_nat (length xs) :: u32)"

lemma length_to_le_bytes [simp]: "length (to_le_bytes n w) = n"
  by (simp add: to_le_bytes_def)

lemma length_len_u32 [simp]: "length (len_u32 xs) = 4"
  by (simp add: len_u32_def)

lemma to_le_bytes_inj:
  fixes v w :: "'a::len word"
  assumes "to_le_bytes n v = to_le_bytes n w" "LENGTH('a) \<le> 8 * n"
  shows "v = w"
proof (rule bit_word_eqI)
  fix j assume j: "j < LENGTH('a)"
  have "to_le_bytes n v ! (j div 8) = to_le_bytes n w ! (j div 8)"
    by (simp add: assms(1))
  moreover have "j div 8 < n"
    using j assms(2) by auto
  ultimately have "(ucast (drop_bit (8 * (j div 8)) v) :: u8) = ucast (drop_bit (8 * (j div 8)) w)"
    by (simp add: to_le_bytes_def)
  then have "bit (ucast (drop_bit (8 * (j div 8)) v) :: u8) (j mod 8) =
      bit (ucast (drop_bit (8 * (j div 8)) w) :: u8) (j mod 8)"
    by simp
  then show "bit v j = bit w j"
    by (simp add: bit_simps)
qed

lemma len_u32_inj:
  assumes "len_u32 xs = len_u32 ys" "length xs < 2 ^ 32" "length ys < 2 ^ 32"
  shows "length xs = length ys"
proof -
  have "(of_nat (length xs) :: u32) = of_nat (length ys)"
    using assms(1) by (auto simp: len_u32_def dest: to_le_bytes_inj)
  then have "unat (of_nat (length xs) :: u32) = unat (of_nat (length ys) :: u32)"
    by simp
  with assms(2,3) show ?thesis
    by (simp add: unat_of_nat)
qed

end
