(* ===== verification/Protocol.thy ===== *)
theory Protocol
  imports MJ_Prelude
begin

text \<open>
  The data of \<open>crates/minijam-protocol\<close>: protocol constants, content references, report
  envelopes, worker votes and tasks, state changes, system operations, and the fixed Stage 0
  refine context.  Hashing (\<open>blake2_256\<close>, from the crate \<open>blake2b_simd\<close>) and the SCALE
  encodings (derived by \<open>parity_scale_codec\<close>) are arguments of the definitions that use them.
\<close>

section \<open>Stage 0 refine context\<close>

definition CORE_INDEX :: u16 where "CORE_INDEX = 0"
definition AUTH_CODE_HOST :: u32 where "AUTH_CODE_HOST = 0"
definition AUTH_CODE_HASH :: hash where "AUTH_CODE_HASH = replicate 32 0"

record finalized_context =
  fc_block_hash :: hash
  fc_block_number :: u32
  fc_state_root :: hash
  fc_slot :: u32

record refine_context_v1 =
  rc_anchor :: hash
  rc_state_root :: hash
  rc_lookup_anchor :: hash
  rc_lookup_anchor_slot :: u32

datatype context_error = AnchorMismatch | LookupAnchorMismatch | StateRootMismatch | SlotMismatch

definition validate_refine_context ::
    "refine_context_v1 \<Rightarrow> finalized_context \<Rightarrow> (context_error, unit) outcome" where
  "validate_refine_context context finalized =
     (if rc_anchor context \<noteq> rc_lookup_anchor context then Err AnchorMismatch
      else if rc_lookup_anchor context \<noteq> fc_block_hash finalized then Err LookupAnchorMismatch
      else if rc_state_root context \<noteq> fc_state_root finalized then Err StateRootMismatch
      else if rc_lookup_anchor_slot context \<noteq> fc_slot finalized
           \<or> fc_slot finalized \<noteq> fc_block_number finalized then Err SlotMismatch
      else Ok ())"

section \<open>Constants\<close>

definition PROTOCOL_VERSION_V1 :: u16 where "PROTOCOL_VERSION_V1 = 1"
definition UNIT :: u128 where "UNIT = 1000000000000"
definition WORKERS_PER_WORK :: u32 where "WORKERS_PER_WORK = 3"
definition SUPPORT_THRESHOLD :: u32 where "SUPPORT_THRESHOLD = 2"
definition OPPOSE_THRESHOLD :: u32 where "OPPOSE_THRESHOLD = 2"
definition MINIMUM_WORKER_STAKE :: u128 where "MINIMUM_WORKER_STAKE = 1000 * UNIT"
definition TIMELY_VOTE_REWARD :: u128 where "TIMELY_VOTE_REWARD = 0"
definition MINIMUM_ABSENCE_SLASH :: u128 where "MINIMUM_ABSENCE_SLASH = UNIT"
definition MAX_DELTA_BYTES :: nat where "MAX_DELTA_BYTES = 4 * 1048576"

definition SYSTEM_OP_REQUEST_DOMAIN_V2 :: bytes where
  "SYSTEM_OP_REQUEST_DOMAIN_V2 = ascii ''minijam/system-op/v2''"
definition SYSTEM_OP_REQUEST_DOMAIN_V1 :: bytes where
  "SYSTEM_OP_REQUEST_DOMAIN_V1 = ascii ''minijam/system-op/v1''"

text \<open>Bounds of the \<open>BoundedVec\<close> batches (\<open>ReportBatch\<close>, \<open>PreimageBatch\<close>, \<open>SystemOpBatch\<close>,
  \<open>StateChanges\<close>, and the byte strings inside them).\<close>

definition REPORT_BATCH_BOUND :: nat where "REPORT_BATCH_BOUND = 4"
definition PREIMAGE_BATCH_BOUND :: nat where "PREIMAGE_BATCH_BOUND = 64"
definition SYSTEM_OP_BATCH_BOUND :: nat where "SYSTEM_OP_BATCH_BOUND = 64"
definition STATE_CHANGES_BOUND :: nat where "STATE_CHANGES_BOUND = 4096"
definition BLOB_BOUND :: nat where "BLOB_BOUND = 1048576"
definition VOTE_ASSIGNMENTS_BOUND :: nat where "VOTE_ASSIGNMENTS_BOUND = 8"

section \<open>System operations\<close>

datatype system_command_v1 =
    CreateServiceV1 (c1_controller: account) (c1_code_hash: hash) (c1_code_len: u32)
      (c1_min_item_gas: u64) (c1_min_memo_gas: u64)
  | UpgradeServiceV1 (c1_controller: account) (c1_service_id: u32) (c1_code_hash: hash)
      (c1_code_len: u32) (c1_min_item_gas: u64) (c1_min_memo_gas: u64)

record system_op_v1 =
  op1_request_id :: hash
  op1_sender :: account
  op1_nonce :: u64
  op1_command :: system_command_v1

definition request_payload_v1 ::
    "(system_command_v1 \<Rightarrow> bytes) \<Rightarrow> account \<Rightarrow> u64 \<Rightarrow> system_command_v1 \<Rightarrow> bytes" where
  "request_payload_v1 encode sender nonce command =
     SYSTEM_OP_REQUEST_DOMAIN_V1 @ sender @ to_le_bytes 8 nonce @ encode command"

definition compute_request_id_v1 ::
    "(bytes \<Rightarrow> hash) \<Rightarrow> (system_command_v1 \<Rightarrow> bytes) \<Rightarrow> account \<Rightarrow> u64 \<Rightarrow> system_command_v1 \<Rightarrow> hash" where
  "compute_request_id_v1 blake2_256 encode sender nonce command =
     blake2_256 (request_payload_v1 encode sender nonce command)"

definition new_op_v1 ::
    "(bytes \<Rightarrow> hash) \<Rightarrow> (system_command_v1 \<Rightarrow> bytes) \<Rightarrow> account \<Rightarrow> u64 \<Rightarrow> system_command_v1 \<Rightarrow> system_op_v1" where
  "new_op_v1 blake2_256 encode sender nonce command =
     \<lparr>op1_request_id = compute_request_id_v1 blake2_256 encode sender nonce command,
      op1_sender = sender, op1_nonce = nonce, op1_command = command\<rparr>"

definition request_id_matches_v1 ::
    "(bytes \<Rightarrow> hash) \<Rightarrow> (system_command_v1 \<Rightarrow> bytes) \<Rightarrow> system_op_v1 \<Rightarrow> bool" where
  "request_id_matches_v1 blake2_256 encode op \<longleftrightarrow>
     op1_request_id op =
       compute_request_id_v1 blake2_256 encode (op1_sender op) (op1_nonce op) (op1_command op)"

datatype system_receipt_v1 =
    ServiceCreatedV1 u32 account
  | ServiceUpgradedV1 u32 account hash
  | RejectedV1 u32

datatype system_command =
    CreateService (code_hash: hash) (code_len: u32) (min_item_gas: u64) (min_memo_gas: u64)
  | ApplyAllocation (cmd_allocation_id: u64) (cmd_target_service: u32) (cmd_amount: u64)

record system_op =
  op_request_id :: hash
  op_submitter :: account
  op_nonce :: u64
  op_command :: system_command

definition request_payload ::
    "(system_command \<Rightarrow> bytes) \<Rightarrow> account \<Rightarrow> u64 \<Rightarrow> system_command \<Rightarrow> bytes" where
  "request_payload encode submitter nonce command =
     SYSTEM_OP_REQUEST_DOMAIN_V2 @ submitter @ to_le_bytes 8 nonce @ encode command"

definition compute_request_id ::
    "(bytes \<Rightarrow> hash) \<Rightarrow> (system_command \<Rightarrow> bytes) \<Rightarrow> account \<Rightarrow> u64 \<Rightarrow> system_command \<Rightarrow> hash" where
  "compute_request_id blake2_256 encode submitter nonce command =
     blake2_256 (request_payload encode submitter nonce command)"

definition new_op ::
    "(bytes \<Rightarrow> hash) \<Rightarrow> (system_command \<Rightarrow> bytes) \<Rightarrow> account \<Rightarrow> u64 \<Rightarrow> system_command \<Rightarrow> system_op" where
  "new_op blake2_256 encode submitter nonce command =
     \<lparr>op_request_id = compute_request_id blake2_256 encode submitter nonce command,
      op_submitter = submitter, op_nonce = nonce, op_command = command\<rparr>"

definition request_id_matches ::
    "(bytes \<Rightarrow> hash) \<Rightarrow> (system_command \<Rightarrow> bytes) \<Rightarrow> system_op \<Rightarrow> bool" where
  "request_id_matches blake2_256 encode op \<longleftrightarrow>
     op_request_id op =
       compute_request_id blake2_256 encode (op_submitter op) (op_nonce op) (op_command op)"

datatype system_receipt = ServiceCreated u32 | Rejected u32

section \<open>Content and storage references\<close>

datatype hashing_algorithm = Blake2b256 | Sha2_256 | Keccak256

record cid_config =
  cid_codec :: u64
  cid_hashing :: hashing_algorithm

definition default_cid_config :: cid_config where
  "default_cid_config = \<lparr>cid_codec = 0x55, cid_hashing = Blake2b256\<rparr>"

record content_ref =
  cr_cid_v1 :: bytes
  cr_content_hash :: hash
  cr_size :: u64

record storage_location =
  sl_block_number :: block_number
  sl_transaction_index :: u32

record storage_receipt =
  sr_content :: content_ref
  sr_location :: storage_location
  sr_retention_until :: block_number

datatype bulletin_evidence =
    NoExternalProofV1 "storage_receipt option"
  | ProofV1 hash hash storage_location hash bytes

section \<open>Reports, votes and tasks\<close>

record report_metadata =
  rm_package_hash :: hash
  rm_context_hash :: hash
  rm_exports_root :: hash
  rm_accumulate_gas :: u64

record preimage_metadata =
  pm_requester :: u32
  pm_blob_hash :: hash
  pm_blob_len :: u32

record worker_signature =
  sig_worker_id :: worker_id
  sig_public_key :: bytes
  sig_signature :: bytes

record report_envelope =
  env_protocol_version :: u16
  env_chain_id :: hash
  env_work_id :: work_id
  env_assignment_round :: u8
  env_canonical_report :: bytes
  env_canonical_report_hash :: hash
  env_projected_metadata :: report_metadata
  env_bulletin_evidence :: bulletin_evidence
  env_signatures :: "worker_signature list"

definition computed_report_hash :: "(bytes \<Rightarrow> hash) \<Rightarrow> report_envelope \<Rightarrow> hash" where
  "computed_report_hash blake2_256 e = blake2_256 (env_canonical_report e)"

record worker_task =
  wt_work_id :: work_id
  wt_round :: u8
  wt_assignment_epoch :: epoch_index
  wt_assigned_workers :: "worker_id list"
  wt_candidate_producer :: worker_id
  wt_package_hash :: hash
  wt_canonical_work_package :: bytes
  wt_bundle_ref :: content_ref

record worker_vote_task =
  vt_work_id :: work_id
  vt_round :: u8
  vt_assignment_epoch :: epoch_index
  vt_candidate_report_hash :: hash
  vt_deadline :: block_number
  vt_assigned_workers :: "worker_id list"
  vt_submitted_votes :: "worker_id list"

record worker_verification_task =
  ft_work_id :: work_id
  ft_round :: u8
  ft_assignment_epoch :: epoch_index
  ft_candidate_report_hash :: hash
  ft_candidate_report :: bytes
  ft_deadline :: block_number
  ft_assigned_workers :: "worker_id list"
  ft_submitted_votes :: "worker_id list"
  ft_package_hash :: hash
  ft_canonical_work_package :: bytes
  ft_bundle_ref :: content_ref

datatype oppose_reason =
  InvalidRefine | MissingData | ContextMismatch | MalformedOutput | OtherReason hash

datatype verdict = Support | Oppose oppose_reason

record worker_vote =
  v_work_id :: work_id
  v_round :: u8
  v_assignment_epoch :: epoch_index
  v_candidate_report_hash :: hash
  v_verdict :: verdict
  v_deadline :: block_number
  v_chain_id :: hash
  v_protocol_version :: u16

definition vote_signing_payload :: "(worker_vote \<Rightarrow> bytes) \<Rightarrow> worker_vote \<Rightarrow> bytes" where
  "vote_signing_payload encode vote = ascii ''minijam/worker-vote-v1'' @ encode vote"

definition vote_signing_hash ::
    "(bytes \<Rightarrow> hash) \<Rightarrow> (worker_vote \<Rightarrow> bytes) \<Rightarrow> worker_vote \<Rightarrow> hash" where
  "vote_signing_hash blake2_256 encode vote = blake2_256 (vote_signing_payload encode vote)"

section \<open>State changes and bridge effects\<close>

datatype state_operation = Upsert | Update | Remove

record state_change =
  ch_key :: state_key
  ch_operation :: state_operation
  ch_value :: "bytes option"

datatype asset_id = Native

datatype bridge_effect =
    Inbound u64 u32 asset_id u128 account
  | Outbound u64 u32 asset_id u128 account

section \<open>Properties\<close>

lemma validate_refine_context_Ok:
  "validate_refine_context c f = Ok () \<longleftrightarrow>
     rc_anchor c = fc_block_hash f \<and> rc_lookup_anchor c = fc_block_hash f
     \<and> rc_state_root c = fc_state_root f \<and> rc_lookup_anchor_slot c = fc_block_number f
     \<and> fc_slot f = fc_block_number f"
  by (auto simp: validate_refine_context_def)

lemma new_op_matches [simp]: "request_id_matches b e (new_op b e s n c)"
  by (simp add: new_op_def request_id_matches_def)

lemma request_payload_inj:
  assumes "request_payload encode s n c = request_payload encode s' n' c'"
    and "length s = 32" "length s' = 32"
    and "\<And>c c'. encode c = encode c' \<Longrightarrow> c = c'"
  shows "s = s' \<and> n = n' \<and> c = c'"
proof -
  have "s @ to_le_bytes 8 n @ encode c = s' @ to_le_bytes 8 n' @ encode c'"
    using assms(1) by (simp add: request_payload_def)
  then have "s = s'" "to_le_bytes 8 n = to_le_bytes 8 n'" "encode c = encode c'"
    using assms(2,3) by (simp_all add: append_eq_append_conv)
  then show ?thesis
    using assms(4) to_le_bytes_inj [of 8 n n'] by simp
qed

end
