(* ===== verification/JamCore.thy ===== *)
theory JamCore
  imports Protocol
begin

text \<open>
  The versioned execution interface of \<open>crates/minijam-jamcore-api\<close>: the block input, the
  execution output, their commitments (input hash and receipt hash) and \<open>normalize_changes\<close>.
  The commitments are modelled down to the byte layout the code writes; the lemmas show that
  the layouts are self-delimiting, so an input hash and a receipt hash commit to every field.
\<close>

section \<open>Data\<close>

record service_result_projection =
  srp_service_id :: u32
  srp_code_hash :: hash
  srp_refine_gas_used :: u64
  srp_accumulate_gas :: u64

record report_projection =
  rp_package_hash :: hash
  rp_context_hash :: hash
  rp_exports_root :: hash
  rp_result_count :: u32
  rp_services :: "service_result_projection list"
  rp_total_refine_gas :: u64
  rp_total_accumulate_gas :: u64

record execution_input =
  in_protocol_version :: u16
  in_slot :: u32
  in_parent_hash :: hash
  in_parent_state_root :: hash
  in_entropy :: hash
  in_reports :: "bytes list"
  in_preimages :: "bytes list"
  in_system_ops :: "system_op list"
  in_max_gas :: u64

record execution_output =
  out_ordered_changes :: "state_change list"
  out_consumed_reports :: "hash list"
  out_consumed_preimages :: "hash list"
  out_consumed_system_ops :: "hash list"
  out_input_hash :: hash
  out_header_hash :: hash
  out_accumulate_root :: hash
  out_gas_used :: u64
  out_receipt_hash :: hash

datatype input_error =
    UnsupportedVersion | InvalidReportEncoding | InvalidPreimageEncoding | ReportHashMismatch
  | PreimageHashMismatch | MetadataMismatch | LimitExceeded

datatype execution_outcome = OutOfGas | Trap | ServiceFailure

datatype state_error = MissingState | DecodeError | InvalidKey | InvalidOperation

datatype invariant_error = DuplicateKey | UnsortedChanges | ReceiptMismatch

datatype minijam_error =
    InputErr input_error
  | ExecutionErr execution_outcome
  | StateErr state_error
  | InvariantErr invariant_error

text \<open>The trait \<open>ProtocolStateReader\<close>: a lookup that may fail.\<close>

type_synonym state_reader = "state_key \<Rightarrow> (state_error, bytes option) outcome"

section \<open>Commitments\<close>

definition EXECUTION_RECEIPT_DOMAIN :: bytes where
  "EXECUTION_RECEIPT_DOMAIN = ascii ''minijam/execution-receipt/v1''"

definition BLOCK_INPUT_DOMAIN :: bytes where
  "BLOCK_INPUT_DOMAIN = ascii ''minijam/block-input/v1''"

definition len_prefixed_bytes :: "bytes \<Rightarrow> bytes" where
  "len_prefixed_bytes bs = len_u32 bs @ bs"

definition hashes_bytes :: "hash list \<Rightarrow> bytes" where
  "hashes_bytes hs = len_u32 hs @ concat hs"

definition operation_byte :: "state_operation \<Rightarrow> u8" where
  "operation_byte op = (case op of Upsert \<Rightarrow> 0 | Update \<Rightarrow> 1 | Remove \<Rightarrow> 2)"

definition state_change_bytes :: "state_change \<Rightarrow> bytes" where
  "state_change_bytes c =
     ch_key c @ [operation_byte (ch_operation c)] @
     (case ch_value c of Some v \<Rightarrow> 1 # len_prefixed_bytes v | None \<Rightarrow> [0])"

definition state_changes_bytes :: "state_change list \<Rightarrow> bytes" where
  "state_changes_bytes cs = len_u32 cs @ concat (map state_change_bytes cs)"

definition input_payload :: "(system_op \<Rightarrow> bytes) \<Rightarrow> execution_input \<Rightarrow> bytes" where
  "input_payload encode i =
     BLOCK_INPUT_DOMAIN @ to_le_bytes 2 (in_protocol_version i) @ to_le_bytes 4 (in_slot i)
     @ in_parent_hash i @ in_parent_state_root i @ in_entropy i
     @ len_u32 (in_reports i) @ concat (map len_prefixed_bytes (in_reports i))
     @ len_u32 (in_preimages i) @ concat (map len_prefixed_bytes (in_preimages i))
     @ len_u32 (in_system_ops i)
     @ concat (map (\<lambda>op. len_prefixed_bytes (encode op)) (in_system_ops i))
     @ to_le_bytes 8 (in_max_gas i)"

definition compute_input_hash ::
    "(bytes \<Rightarrow> hash) \<Rightarrow> (system_op \<Rightarrow> bytes) \<Rightarrow> execution_input \<Rightarrow> hash" where
  "compute_input_hash blake2_256 encode i = blake2_256 (input_payload encode i)"

definition receipt_payload :: "execution_output \<Rightarrow> bytes" where
  "receipt_payload out =
     EXECUTION_RECEIPT_DOMAIN @ out_input_hash out
     @ state_changes_bytes (out_ordered_changes out)
     @ hashes_bytes (out_consumed_reports out)
     @ hashes_bytes (out_consumed_preimages out)
     @ hashes_bytes (out_consumed_system_ops out)
     @ out_header_hash out @ out_accumulate_root out @ to_le_bytes 8 (out_gas_used out)"

definition compute_receipt_hash :: "(bytes \<Rightarrow> hash) \<Rightarrow> execution_output \<Rightarrow> hash" where
  "compute_receipt_hash blake2_256 out = blake2_256 (receipt_payload out)"

definition empty_output :: "(bytes \<Rightarrow> hash) \<Rightarrow> execution_output" where
  "empty_output blake2_256 =
     (let out = \<lparr>out_ordered_changes = [], out_consumed_reports = [], out_consumed_preimages = [],
        out_consumed_system_ops = [], out_input_hash = replicate 32 0,
        out_header_hash = replicate 32 0, out_accumulate_root = replicate 32 0,
        out_gas_used = 0, out_receipt_hash = replicate 32 0\<rparr>
      in out\<lparr>out_receipt_hash := compute_receipt_hash blake2_256 out\<rparr>)"

text \<open>The executor that does nothing, \<open>NoopMiniJamExecutor\<close>.\<close>

definition noop_execute ::
    "(bytes \<Rightarrow> hash) \<Rightarrow> execution_input \<Rightarrow> state_reader \<Rightarrow> (minijam_error, execution_output) outcome" where
  "noop_execute blake2_256 i rd = Ok (empty_output blake2_256)"

definition interface_hash :: "(bytes \<Rightarrow> hash) \<Rightarrow> hash" where
  "interface_hash blake2_256 = blake2_256 (ascii ''minijam-jamcore-api/v1'')"

section \<open>Normalisation of changes\<close>

text \<open>
  \<open>normalize_changes\<close> sorts its slice in place (a stable sort on the key) and then looks for
  adjacent equal keys; the sorted slice is returned beside the verdict.
\<close>

definition normalize_changes ::
    "state_change list \<Rightarrow> (invariant_error, unit) outcome \<times> state_change list" where
  "normalize_changes changes =
     (let sorted = sort_key ch_key changes
      in (if windows_any (\<lambda>a b. ch_key a = ch_key b) sorted then Err DuplicateKey else Ok (), sorted))"

section \<open>Self-delimiting layouts\<close>

text \<open>
  A layout is self-delimiting on the well-formed values when a value can be read off the front
  of any byte string that starts with it.  A sequence behind a 32-bit count inherits this.
\<close>

locale self_delimiting =
  fixes layout :: "'a \<Rightarrow> bytes"
    and wf :: "'a \<Rightarrow> bool"
  assumes front: "\<lbrakk>wf a; wf b; layout a @ x = layout b @ y\<rbrakk> \<Longrightarrow> a = b \<and> x = y"
begin

lemma concat_front:
  assumes "length as = length bs" "\<forall>a\<in>set as. wf a" "\<forall>b\<in>set bs. wf b"
    and "concat (map layout as) @ x = concat (map layout bs) @ y"
  shows "as = bs \<and> x = y"
  using assms
proof (induction as bs rule: list_induct2)
  case (Cons a as b bs)
  have "a = b \<and> concat (map layout as) @ x = concat (map layout bs) @ y"
    using Cons.prems front [of a b] by simp
  then show ?case
    using Cons.IH Cons.prems by simp
qed simp

lemma counted_front:
  assumes "len_u32 as @ concat (map layout as) @ x = len_u32 bs @ concat (map layout bs) @ y"
    and "length as < 2 ^ 32" "length bs < 2 ^ 32" "\<forall>a\<in>set as. wf a" "\<forall>b\<in>set bs. wf b"
  shows "as = bs \<and> x = y"
proof -
  have "len_u32 as = len_u32 bs"
    and rest: "concat (map layout as) @ x = concat (map layout bs) @ y"
    using assms(1) by (simp_all add: append_eq_append_conv)
  then have "length as = length bs"
    using assms(2,3) by (blast intro: len_u32_inj)
  then show ?thesis
    using assms(4,5) rest by (rule concat_front)
qed

end

interpretation blob: self_delimiting len_prefixed_bytes "\<lambda>bs. length bs < 2 ^ 32"
proof
  fix a b x y :: bytes
  assume "length a < 2 ^ 32" "length b < 2 ^ 32"
    and eq: "len_prefixed_bytes a @ x = len_prefixed_bytes b @ y"
  moreover have "len_u32 a = len_u32 b" "a @ x = b @ y"
    using eq by (simp_all add: len_prefixed_bytes_def append_eq_append_conv)
  ultimately have "length a = length b"
    by (blast intro: len_u32_inj)
  with \<open>a @ x = b @ y\<close> show "a = b \<and> x = y"
    by (simp add: append_eq_append_conv)
qed

interpretation hash32: self_delimiting "\<lambda>h. h" "\<lambda>h. length h = 32"
  by unfold_locales (simp add: append_eq_append_conv)

definition change_wf :: "state_change \<Rightarrow> bool" where
  "change_wf c \<longleftrightarrow> length (ch_key c) = 31
     \<and> (case ch_value c of None \<Rightarrow> True | Some v \<Rightarrow> length v \<le> BLOB_BOUND)"

interpretation change: self_delimiting state_change_bytes change_wf
proof
  fix a b :: state_change and x y
  assume wf: "change_wf a" "change_wf b"
    and eq: "state_change_bytes a @ x = state_change_bytes b @ y"
  have key: "ch_key a = ch_key b"
    and op: "operation_byte (ch_operation a) = operation_byte (ch_operation b)"
    and val: "(case ch_value a of Some v \<Rightarrow> 1 # len_prefixed_bytes v | None \<Rightarrow> [0]) @ x =
      (case ch_value b of Some v \<Rightarrow> 1 # len_prefixed_bytes v | None \<Rightarrow> [0]) @ y"
    using eq wf by (simp_all add: state_change_bytes_def change_wf_def append_eq_append_conv)
  have "ch_operation a = ch_operation b"
    using op by (simp add: operation_byte_def split: state_operation.splits)
  moreover have "ch_value a = ch_value b \<and> x = y"
    using val wf
    by (auto simp: change_wf_def BLOB_BOUND_def split: option.splits dest: blob.front [rotated 2])
  ultimately show "a = b \<and> x = y"
    using key by simp
qed

lemma hashes_front:
  assumes "hashes_bytes as @ x = hashes_bytes bs @ y"
    and "length as < 2 ^ 32" "length bs < 2 ^ 32"
    and "\<forall>h\<in>set as. length h = 32" "\<forall>h\<in>set bs. length h = 32"
  shows "as = bs \<and> x = y"
  using hash32.counted_front [of as x bs y] assms by (simp add: hashes_bytes_def)

lemma changes_front:
  assumes "state_changes_bytes as @ x = state_changes_bytes bs @ y"
    and "length as < 2 ^ 32" "length bs < 2 ^ 32"
    and "\<forall>c\<in>set as. change_wf c" "\<forall>c\<in>set bs. change_wf c"
  shows "as = bs \<and> x = y"
  using change.counted_front [of as x bs y] assms by (simp add: state_changes_bytes_def)

section \<open>What the commitments commit to\<close>

text \<open>The bounds the Rust types give: 32-byte hashes, bounded batches, bounded byte strings.\<close>

definition hashes_wf :: "nat \<Rightarrow> hash list \<Rightarrow> bool" where
  "hashes_wf n hs \<longleftrightarrow> length hs \<le> n \<and> (\<forall>h\<in>set hs. length h = 32)"

definition output_wf :: "execution_output \<Rightarrow> bool" where
  "output_wf out \<longleftrightarrow>
     length (out_ordered_changes out) \<le> STATE_CHANGES_BOUND
     \<and> (\<forall>c\<in>set (out_ordered_changes out). change_wf c)
     \<and> hashes_wf REPORT_BATCH_BOUND (out_consumed_reports out)
     \<and> hashes_wf PREIMAGE_BATCH_BOUND (out_consumed_preimages out)
     \<and> hashes_wf SYSTEM_OP_BATCH_BOUND (out_consumed_system_ops out)
     \<and> length (out_input_hash out) = 32 \<and> length (out_header_hash out) = 32
     \<and> length (out_accumulate_root out) = 32"

definition blobs_wf :: "nat \<Rightarrow> bytes list \<Rightarrow> bool" where
  "blobs_wf n bs \<longleftrightarrow> length bs \<le> n \<and> (\<forall>b\<in>set bs. length b \<le> BLOB_BOUND)"

definition input_wf :: "(system_op \<Rightarrow> bytes) \<Rightarrow> execution_input \<Rightarrow> bool" where
  "input_wf encode i \<longleftrightarrow>
     length (in_parent_hash i) = 32 \<and> length (in_parent_state_root i) = 32
     \<and> length (in_entropy i) = 32
     \<and> blobs_wf REPORT_BATCH_BOUND (in_reports i)
     \<and> blobs_wf PREIMAGE_BATCH_BOUND (in_preimages i)
     \<and> length (in_system_ops i) \<le> SYSTEM_OP_BATCH_BOUND
     \<and> (\<forall>op\<in>set (in_system_ops i). length (encode op) < 2 ^ 32)"

lemmas layout_bounds =
  STATE_CHANGES_BOUND_def REPORT_BATCH_BOUND_def PREIMAGE_BATCH_BOUND_def
  SYSTEM_OP_BATCH_BOUND_def BLOB_BOUND_def

lemma receipt_payload_inj:
  assumes wf: "output_wf a" "output_wf b" and eq: "receipt_payload a = receipt_payload b"
  shows "a\<lparr>out_receipt_hash := r\<rparr> = b\<lparr>out_receipt_hash := r\<rparr>"
proof -
  let ?tail = "\<lambda>out. out_header_hash out @ out_accumulate_root out @ to_le_bytes 8 (out_gas_used out)"
  have ih: "out_input_hash a = out_input_hash b"
    and r1: "state_changes_bytes (out_ordered_changes a) @ hashes_bytes (out_consumed_reports a)
      @ hashes_bytes (out_consumed_preimages a) @ hashes_bytes (out_consumed_system_ops a) @ ?tail a =
      state_changes_bytes (out_ordered_changes b) @ hashes_bytes (out_consumed_reports b)
      @ hashes_bytes (out_consumed_preimages b) @ hashes_bytes (out_consumed_system_ops b) @ ?tail b"
    using eq wf by (simp_all add: receipt_payload_def output_wf_def append_eq_append_conv)
  have ch: "out_ordered_changes a = out_ordered_changes b"
    and r2: "hashes_bytes (out_consumed_reports a)
      @ hashes_bytes (out_consumed_preimages a) @ hashes_bytes (out_consumed_system_ops a) @ ?tail a =
      hashes_bytes (out_consumed_reports b)
      @ hashes_bytes (out_consumed_preimages b) @ hashes_bytes (out_consumed_system_ops b) @ ?tail b"
    using changes_front [OF r1] wf by (simp_all add: output_wf_def layout_bounds)
  have cr: "out_consumed_reports a = out_consumed_reports b"
    and r3: "hashes_bytes (out_consumed_preimages a) @ hashes_bytes (out_consumed_system_ops a) @ ?tail a =
      hashes_bytes (out_consumed_preimages b) @ hashes_bytes (out_consumed_system_ops b) @ ?tail b"
    using hashes_front [OF r2] wf by (simp_all add: output_wf_def hashes_wf_def layout_bounds)
  have cp: "out_consumed_preimages a = out_consumed_preimages b"
    and r4: "hashes_bytes (out_consumed_system_ops a) @ ?tail a =
      hashes_bytes (out_consumed_system_ops b) @ ?tail b"
    using hashes_front [OF r3] wf by (simp_all add: output_wf_def hashes_wf_def layout_bounds)
  have cs: "out_consumed_system_ops a = out_consumed_system_ops b" and r5: "?tail a = ?tail b"
    using hashes_front [OF r4] wf by (simp_all add: output_wf_def hashes_wf_def layout_bounds)
  have "out_header_hash a = out_header_hash b" "out_accumulate_root a = out_accumulate_root b"
      "to_le_bytes 8 (out_gas_used a) = to_le_bytes 8 (out_gas_used b)"
    using r5 wf by (simp_all add: output_wf_def append_eq_append_conv)
  with ih ch cr cp cs show ?thesis
    using to_le_bytes_inj [of 8 "out_gas_used a" "out_gas_used b"] by simp
qed

lemma blobs_wf_counted:
  assumes "blobs_wf n as" "n \<le> 64"
  shows "length as < 2 ^ 32" "\<forall>b\<in>set as. length b < 2 ^ 32"
  using assms by (auto simp: blobs_wf_def BLOB_BOUND_def)

lemma ops_counted:
  assumes "input_wf encode i"
  shows "length (map encode (in_system_ops i)) < 2 ^ 32"
    "\<forall>b\<in>set (map encode (in_system_ops i)). length b < 2 ^ 32"
  using assms by (auto simp: input_wf_def SYSTEM_OP_BATCH_BOUND_def)

lemma input_payload_inj:
  assumes wf: "input_wf encode a" "input_wf encode b" and inj: "inj_on encode (set (in_system_ops a) \<union> set (in_system_ops b))"
    and eq: "input_payload encode a = input_payload encode b"
  shows "a = b"
proof -
  let ?ops = "\<lambda>i. len_u32 (map encode (in_system_ops i))
      @ concat (map len_prefixed_bytes (map encode (in_system_ops i)))"
  let ?blobs = "\<lambda>bs. len_u32 bs @ concat (map len_prefixed_bytes bs)"
  have heads: "to_le_bytes 2 (in_protocol_version a) = to_le_bytes 2 (in_protocol_version b)"
      "to_le_bytes 4 (in_slot a) = to_le_bytes 4 (in_slot b)"
      "in_parent_hash a = in_parent_hash b" "in_parent_state_root a = in_parent_state_root b"
      "in_entropy a = in_entropy b"
    and r1: "?blobs (in_reports a) @ ?blobs (in_preimages a) @ ?ops a @ to_le_bytes 8 (in_max_gas a) =
      ?blobs (in_reports b) @ ?blobs (in_preimages b) @ ?ops b @ to_le_bytes 8 (in_max_gas b)"
    using eq wf
    by (simp_all add: input_payload_def input_wf_def append_eq_append_conv len_u32_def comp_def)
  have rep: "blobs_wf 4 (in_reports a)" "blobs_wf 4 (in_reports b)"
    and pre: "blobs_wf 64 (in_preimages a)" "blobs_wf 64 (in_preimages b)"
    using wf by (simp_all add: input_wf_def REPORT_BATCH_BOUND_def PREIMAGE_BATCH_BOUND_def)
  have reports: "in_reports a = in_reports b"
    and r2: "?blobs (in_preimages a) @ ?ops a @ to_le_bytes 8 (in_max_gas a) =
      ?blobs (in_preimages b) @ ?ops b @ to_le_bytes 8 (in_max_gas b)"
    using blob.counted_front [OF r1 [unfolded append_assoc]]
      blobs_wf_counted [OF rep(1)] blobs_wf_counted [OF rep(2)] by auto
  have preimages: "in_preimages a = in_preimages b"
    and r3: "?ops a @ to_le_bytes 8 (in_max_gas a) = ?ops b @ to_le_bytes 8 (in_max_gas b)"
    using blob.counted_front [OF r2 [unfolded append_assoc]]
      blobs_wf_counted [OF pre(1)] blobs_wf_counted [OF pre(2)] by auto
  have "map encode (in_system_ops a) = map encode (in_system_ops b)"
    and gas: "to_le_bytes 8 (in_max_gas a) = to_le_bytes 8 (in_max_gas b)"
    using blob.counted_front [OF r3 [unfolded append_assoc]]
      ops_counted [OF wf(1)] ops_counted [OF wf(2)] by blast+
  then have "in_system_ops a = in_system_ops b"
    using inj by (simp add: inj_on_map_eq_map)
  with heads reports preimages gas show ?thesis
    using to_le_bytes_inj [of 2 "in_protocol_version a" "in_protocol_version b"]
      to_le_bytes_inj [of 4 "in_slot a" "in_slot b"]
      to_le_bytes_inj [of 8 "in_max_gas a" "in_max_gas b"] by simp
qed

lemma windows_any_eq_sorted:
  "sorted xs \<Longrightarrow> windows_any (=) xs \<longleftrightarrow> \<not> distinct xs"
proof (induction xs rule: induct_list012)
  case (3 x y zs)
  then have "x \<le> y" "sorted (y # zs)" by auto
  moreover have "x \<notin> set zs" if "x < y"
    using that \<open>sorted (y # zs)\<close> by auto
  ultimately show ?case
    using "3.IH"(2) by auto
qed simp_all

lemma windows_any_map: "windows_any P (map f xs) = windows_any (\<lambda>a b. P (f a) (f b)) xs"
  by (induction xs rule: induct_list012) auto

lemma normalize_changes_spec:
  "fst (normalize_changes cs) = (if distinct (map ch_key cs) then Ok () else Err DuplicateKey)"
  "mset (snd (normalize_changes cs)) = mset cs"
  "sorted (map ch_key (snd (normalize_changes cs)))"
proof -
  have "windows_any (\<lambda>a b. ch_key a = ch_key b) (sort_key ch_key cs) \<longleftrightarrow>
      \<not> distinct (map ch_key (sort_key ch_key cs))"
    by (metis sorted_sort_key windows_any_eq_sorted windows_any_map)
  also have "distinct (map ch_key (sort_key ch_key cs)) \<longleftrightarrow> distinct (map ch_key cs)"
    by (metis mset_map mset_sort mset_eq_imp_distinct_iff)
  finally show "fst (normalize_changes cs) = (if distinct (map ch_key cs) then Ok () else Err DuplicateKey)"
    by (simp add: normalize_changes_def Let_def)
qed (simp_all add: normalize_changes_def Let_def)

lemma normalize_changes_strict:
  assumes "normalize_changes cs = (Ok (), ds)"
  shows "sorted_wrt (<) (map ch_key ds)"
proof -
  have "distinct (map ch_key cs)" and ds: "mset ds = mset cs" "sorted (map ch_key ds)"
    using assms normalize_changes_spec [of cs] by (auto split: if_splits)
  then have "distinct (map ch_key ds)"
    by (metis mset_map mset_eq_imp_distinct_iff)
  with ds(2) show ?thesis
    by (simp add: strict_sorted_iff)
qed

section \<open>Properties\<close>

text \<open>
  C27. \<^bold>\<open>A receipt hash commits to the whole output.\<close>  For outputs within the bounds of their
  Rust types, and a hash that does not collide on the two receipt payloads, two outputs have the
  same receipt hash exactly when they agree on every field other than the stored receipt hash.
\<close>
theorem receipt_hash_commits:
  assumes "output_wf a" "output_wf b" and "inj_on blake2_256 {receipt_payload a, receipt_payload b}"
  shows "compute_receipt_hash blake2_256 a = compute_receipt_hash blake2_256 b \<longleftrightarrow>
           a\<lparr>out_receipt_hash := []\<rparr> = b\<lparr>out_receipt_hash := []\<rparr>"
proof
  assume "compute_receipt_hash blake2_256 a = compute_receipt_hash blake2_256 b"
  then have "receipt_payload a = receipt_payload b"
    using assms(3) by (simp add: compute_receipt_hash_def inj_on_eq_iff)
  then show "a\<lparr>out_receipt_hash := []\<rparr> = b\<lparr>out_receipt_hash := []\<rparr>"
    using assms(1,2) receipt_payload_inj by blast
next
  assume "a\<lparr>out_receipt_hash := []\<rparr> = b\<lparr>out_receipt_hash := []\<rparr>"
  then have "receipt_payload (a\<lparr>out_receipt_hash := []\<rparr>) = receipt_payload (b\<lparr>out_receipt_hash := []\<rparr>)"
    by simp
  then show "compute_receipt_hash blake2_256 a = compute_receipt_hash blake2_256 b"
    by (simp add: compute_receipt_hash_def receipt_payload_def)
qed

theorem receipt_hash_commits_witness:
  "compute_receipt_hash (\<lambda>bs. bs) (empty_output (\<lambda>_. replicate 32 0))
     \<noteq> compute_receipt_hash (\<lambda>bs. bs) ((empty_output (\<lambda>_. replicate 32 0))\<lparr>out_gas_used := 5\<rparr>)"
proof -
  let ?a = "empty_output (\<lambda>_. replicate 32 0)"
  have "output_wf ?a" "output_wf (?a\<lparr>out_gas_used := 5\<rparr>)"
    by (simp_all add: output_wf_def hashes_wf_def empty_output_def Let_def compute_receipt_hash_def)
  moreover have "inj_on (\<lambda>bs :: bytes. bs) X" for X
    by (simp add: inj_on_def)
  moreover have "?a\<lparr>out_receipt_hash := []\<rparr> \<noteq> ?a\<lparr>out_gas_used := 5, out_receipt_hash := []\<rparr>"
    by (simp add: empty_output_def Let_def compute_receipt_hash_def)
  ultimately show ?thesis
    using receipt_hash_commits [of ?a "?a\<lparr>out_gas_used := 5\<rparr>" "\<lambda>bs. bs"] by blast
qed

text \<open>
  C28. \<^bold>\<open>Normalisation of changes.\<close>  The slice is permuted into key order in every case; the
  result is an error exactly when two changes share a key, and otherwise the keys end up strictly
  increasing, which is the order the state adapter insists on.
\<close>
theorem normalize_changes_correct:
  "let (r, ds) = normalize_changes cs in
     mset ds = mset cs \<and> sorted (map ch_key ds)
     \<and> r = (if distinct (map ch_key cs) then Ok () else Err DuplicateKey)
     \<and> (r = Err DuplicateKey \<or> sorted_wrt (<) (map ch_key ds))"
proof (cases "normalize_changes cs")
  case (Pair r ds)
  then show ?thesis
    using normalize_changes_spec [of cs] normalize_changes_strict [of cs ds]
    by (cases "distinct (map ch_key cs)") auto
qed

end
