(* ===== verification/StateAdapter.thy ===== *)
theory StateAdapter
  imports JamCore
begin

text \<open>
  \<open>crates/minijam-state-adapter\<close>: validation of an execution output against the current
  protocol state, and the in-memory protocol state.  The locale \<open>protocol_store\<close> is the
  contract between the validator and a store that applies a validated delta; the in-memory
  state interprets it here and the pallet's storage interprets it in \<open>MiniJam_State\<close>.
  The SCALE size of a change list (\<open>encoded_size\<close>) is an argument.
\<close>

datatype validation_error =
    GasExceeded
  | DeltaTooLarge
  | StateVE state_error
  | InvariantVE invariant_error

section \<open>Validation\<close>

text \<open>The loop over the ordered changes: the operation must fit the key's presence.\<close>

fun check_changes :: "state_reader \<Rightarrow> state_change list \<Rightarrow> (validation_error, unit) outcome" where
  "check_changes state [] = Ok ()"
| "check_changes state (change # rest) =
     bind_res (map_err StateVE (state (ch_key change))) (\<lambda>found.
       case (ch_operation change, ch_value change \<noteq> None, found \<noteq> None) of
         (Upsert, True, False) \<Rightarrow> check_changes state rest
       | (Update, True, True) \<Rightarrow> check_changes state rest
       | (Remove, False, True) \<Rightarrow> check_changes state rest
       | _ \<Rightarrow> Err (StateVE InvalidOperation))"

definition validate_common ::
    "(state_change list \<Rightarrow> nat) \<Rightarrow> u64 \<Rightarrow> u64 \<Rightarrow> bool \<Rightarrow> bool \<Rightarrow> state_change list \<Rightarrow> state_reader
     \<Rightarrow> (validation_error, state_change list) outcome" where
  "validate_common encoded_size max_gas gas_used input_hash_matches receipt_matches ordered_changes state =
     (if gas_used > max_gas then Err GasExceeded
      else if \<not> receipt_matches then Err (InvariantVE ReceiptMismatch)
      else if \<not> input_hash_matches then Err (InvariantVE ReceiptMismatch)
      else if encoded_size ordered_changes > MAX_DELTA_BYTES then Err DeltaTooLarge
      else if windows_any (\<lambda>a b. ch_key a \<ge> ch_key b) ordered_changes
      then Err (InvariantVE
             (if windows_any (\<lambda>a b. ch_key a = ch_key b) ordered_changes
              then DuplicateKey else UnsortedChanges))
      else bind_res (check_changes state ordered_changes) (\<lambda>_. Ok ordered_changes))"

definition validate_execution_output ::
    "(bytes \<Rightarrow> hash) \<Rightarrow> (system_op \<Rightarrow> bytes) \<Rightarrow> (state_change list \<Rightarrow> nat)
     \<Rightarrow> execution_input \<Rightarrow> execution_output \<Rightarrow> state_reader
     \<Rightarrow> (validation_error, state_change list) outcome" where
  "validate_execution_output blake2_256 encode encoded_size i out state =
     validate_common encoded_size (in_max_gas i) (out_gas_used out)
       (out_input_hash out = compute_input_hash blake2_256 encode i)
       (compute_receipt_hash blake2_256 out = out_receipt_hash out)
       (out_ordered_changes out) state"

section \<open>The in-memory state\<close>

record memory_state =
  entries :: "state_key \<rightharpoonup> bytes"

definition memory_insert :: "state_key \<Rightarrow> bytes \<Rightarrow> memory_state \<Rightarrow> memory_state" where
  "memory_insert k v m = m\<lparr>entries := (entries m)(k \<mapsto> v)\<rparr>"

definition memory_value :: "memory_state \<Rightarrow> state_key \<Rightarrow> bytes option" where
  "memory_value m k = entries m k"

definition memory_get :: "memory_state \<Rightarrow> state_reader" where
  "memory_get m k = Ok (memory_value m k)"

text \<open>One staged write; the \<open>expect\<close> on a missing value is a panic.\<close>

definition stage_change ::
    "state_change \<Rightarrow> (state_key \<rightharpoonup> bytes) \<Rightarrow> (unit, state_key \<rightharpoonup> bytes) outcome" where
  "stage_change change staged =
     (case ch_operation change of
        Remove \<Rightarrow> Ok (staged(ch_key change := None))
      | _ \<Rightarrow> (case ch_value change of
                Some v \<Rightarrow> Ok (staged(ch_key change \<mapsto> v))
              | None \<Rightarrow> Panic))"

primrec stage_changes ::
    "state_change list \<Rightarrow> (state_key \<rightharpoonup> bytes) \<Rightarrow> (unit, state_key \<rightharpoonup> bytes) outcome" where
  "stage_changes [] staged = Ok staged"
| "stage_changes (c # cs) staged = bind_res (stage_change c staged) (stage_changes cs)"

definition apply_validated :: "state_change list \<Rightarrow> memory_state \<Rightarrow> (unit, memory_state) outcome" where
  "apply_validated delta m =
     bind_res (stage_changes delta (entries m)) (\<lambda>staged. Ok (m\<lparr>entries := staged\<rparr>))"

section \<open>What a validated delta means\<close>

text \<open>The operation of a change fits the presence of its key.\<close>

definition applicable :: "(state_key \<rightharpoonup> bytes) \<Rightarrow> state_change \<Rightarrow> bool" where
  "applicable m c \<longleftrightarrow>
     (case ch_operation c of
        Upsert \<Rightarrow> ch_value c \<noteq> None \<and> m (ch_key c) = None
      | Update \<Rightarrow> ch_value c \<noteq> None \<and> m (ch_key c) \<noteq> None
      | Remove \<Rightarrow> ch_value c = None \<and> m (ch_key c) \<noteq> None)"

definition delta_ok :: "(state_key \<rightharpoonup> bytes) \<Rightarrow> state_change list \<Rightarrow> bool" where
  "delta_ok m cs \<longleftrightarrow> sorted_wrt (<) (map ch_key cs) \<and> (\<forall>c\<in>set cs. applicable m c)"

text \<open>The abstract effect: every key named by a change takes the change's value (\<open>None\<close>
  removes it), every other key keeps its value.\<close>

definition overlay :: "state_change list \<Rightarrow> (state_key \<rightharpoonup> bytes) \<Rightarrow> (state_key \<rightharpoonup> bytes)" where
  "overlay cs m k = (case find (\<lambda>c. ch_key c = k) cs of None \<Rightarrow> m k | Some c \<Rightarrow> ch_value c)"

lemma check_changes_Ok:
  "check_changes (\<lambda>k. Ok (m k)) cs = Ok () \<longleftrightarrow> (\<forall>c\<in>set cs. applicable m c)"
proof (induction cs)
  case (Cons c cs)
  then show ?case
    by (cases "ch_operation c"; cases "ch_value c"; cases "m (ch_key c)") (simp_all add: applicable_def)
qed simp

lemma check_changes_no_panic: "check_changes (\<lambda>k. Ok (m k)) cs \<noteq> Panic"
proof (induction cs)
  case (Cons c cs)
  then show ?case
    by (cases "ch_operation c"; cases "ch_value c"; cases "m (ch_key c)") simp_all
qed simp

lemma not_windows_ge_iff:
  "\<not> windows_any (\<lambda>a b. ch_key a \<ge> ch_key b) cs \<longleftrightarrow> sorted_wrt (<) (map ch_key cs)"
proof -
  have "windows_any (\<lambda>a b. ch_key a \<ge> ch_key b) cs = windows_any (\<lambda>a b. \<not> a < b) (map ch_key cs)"
    by (simp add: windows_any_map not_less)
  then show ?thesis
    by (simp add: not_windows_any_iff transp_on_less)
qed

lemma validate_common_Ok:
  "validate_common esz mg gu ih rm cs (\<lambda>k. Ok (m k)) = Ok ds \<longleftrightarrow>
     ds = cs \<and> gu \<le> mg \<and> rm \<and> ih \<and> esz cs \<le> MAX_DELTA_BYTES \<and> delta_ok m cs"
  by (auto simp: validate_common_def delta_ok_def not_windows_ge_iff [symmetric] check_changes_Ok
      res_simps)

lemma overlay_Nil [simp]: "overlay [] m = m"
  by (simp add: overlay_def fun_eq_iff)

lemma find_SomeD: "find P xs = Some x \<Longrightarrow> x \<in> set xs \<and> P x"
  by (auto simp: find_Some_iff)

lemma overlay_notin: "k \<notin> ch_key ` set cs \<Longrightarrow> overlay cs m k = m k"
  by (auto simp: overlay_def find_None_iff split: option.split dest!: find_SomeD)

lemma overlay_step:
  "overlay (c # cs) m k = (if k = ch_key c then ch_value c else overlay cs m k)"
  by (simp add: overlay_def)

lemma overlay_base: "m k = m' k \<Longrightarrow> overlay cs m k = overlay cs m' k"
  by (simp add: overlay_def split: option.split)

lemma overlay_Cons:
  "ch_key c \<notin> ch_key ` set cs \<Longrightarrow> overlay (c # cs) m = overlay cs (m(ch_key c := ch_value c))"
  by (rule ext) (auto simp: overlay_step overlay_notin intro: overlay_base)

lemma applicable_upd:
  "ch_key d \<noteq> ch_key c \<Longrightarrow> applicable (m(ch_key d := v)) c = applicable m c"
  by (simp add: applicable_def split: state_operation.split)

lemma delta_ok_Cons:
  "delta_ok m (c # cs) \<longleftrightarrow>
     applicable m c \<and> ch_key c \<notin> ch_key ` set cs
     \<and> (\<forall>d\<in>set cs. ch_key c < ch_key d) \<and> delta_ok (m(ch_key c := ch_value c)) cs"
  by (auto simp: delta_ok_def applicable_upd) (metis applicable_upd order_less_irrefl)

lemma overlay_in:
  "delta_ok m cs \<Longrightarrow> c \<in> set cs \<Longrightarrow> overlay cs m (ch_key c) = ch_value c"
proof (induction cs arbitrary: m)
  case (Cons d ds)
  then show ?case
    by (auto simp: overlay_Cons overlay_notin delta_ok_Cons)
qed simp

text \<open>
  The contract of a store: it can be read as a map, a well-formed write or removal succeeds
  with the expected effect on the map, and a list of changes is applied one after the other.
\<close>

locale protocol_store =
  fixes lookup :: "'s \<Rightarrow> state_key \<rightharpoonup> bytes"
    and read :: "'s \<Rightarrow> state_reader"
    and apply_one :: "state_change \<Rightarrow> 's \<Rightarrow> ('e, 's) outcome"
    and apply_all :: "state_change list \<Rightarrow> 's \<Rightarrow> ('e, 's) outcome"
  assumes read_lookup: "read s k = Ok (lookup s k)"
    and write_law: "\<lbrakk>ch_operation c \<noteq> Remove; ch_value c = Some v\<rbrakk> \<Longrightarrow>
      \<exists>s'. apply_one c s = Ok s' \<and> lookup s' = (lookup s)(ch_key c \<mapsto> v)"
    and remove_law: "ch_operation c = Remove \<Longrightarrow>
      \<exists>s'. apply_one c s = Ok s' \<and> lookup s' = (lookup s)(ch_key c := None)"
    and all_Nil: "apply_all [] s = Ok s"
    and all_Cons: "apply_all (c # cs) s = bind_res (apply_one c s) (apply_all cs)"
begin

lemma apply_one_applicable:
  assumes "applicable m c"
  shows "\<exists>s'. apply_one c s = Ok s' \<and> lookup s' = (lookup s)(ch_key c := ch_value c)"
proof (cases "ch_operation c")
  case Remove
  then show ?thesis
    using assms remove_law [of c s] by (simp add: applicable_def)
qed (use assms write_law [of c _ s] in \<open>auto simp: applicable_def\<close>)

lemma apply_all_overlay:
  "delta_ok (lookup s) cs \<Longrightarrow> \<exists>s'. apply_all cs s = Ok s' \<and> lookup s' = overlay cs (lookup s)"
proof (induction cs arbitrary: s)
  case Nil
  then show ?case by (simp add: all_Nil)
next
  case (Cons c cs)
  then obtain s1 where s1: "apply_one c s = Ok s1" "lookup s1 = (lookup s)(ch_key c := ch_value c)"
    using apply_one_applicable by (meson delta_ok_Cons)
  then obtain s2 where "apply_all cs s1 = Ok s2" "lookup s2 = overlay cs (lookup s1)"
    using Cons.IH [of s1] Cons.prems by (metis delta_ok_Cons)
  with s1 Cons.prems show ?case
    by (auto simp: all_Cons overlay_Cons delta_ok_Cons)
qed

text \<open>An output the validator accepts is applied in full, whatever the store.\<close>

lemma validated_delta_ok:
  assumes "validate_execution_output b e esz i out (read s) = Ok cs"
  shows "cs = out_ordered_changes out \<and> delta_ok (lookup s) (out_ordered_changes out)"
proof -
  have "validate_execution_output b e esz i out (\<lambda>k. Ok (lookup s k)) = Ok cs"
    using assms read_lookup [of s] by (metis ext)
  then show ?thesis
    by (simp add: validate_execution_output_def validate_common_Ok)
qed

lemma validated_input_hash:
  assumes "validate_execution_output b e esz i out (read s) = Ok cs"
  shows "out_input_hash out = compute_input_hash b e i"
  using assms
  by (auto simp: validate_execution_output_def validate_common_def split: if_splits)

lemma validated_applies:
  assumes "validate_execution_output b e esz i out (read s) = Ok cs"
  shows "\<exists>s'. apply_all cs s = Ok s' \<and> lookup s' = overlay (out_ordered_changes out) (lookup s)"
  using validated_delta_ok [OF assms] apply_all_overlay by auto

end

text \<open>The in-memory state as a store, one staged write at a time.\<close>

definition memory_apply_one :: "state_change \<Rightarrow> memory_state \<Rightarrow> (unit, memory_state) outcome" where
  "memory_apply_one c m = bind_res (stage_change c (entries m)) (\<lambda>staged. Ok (m\<lparr>entries := staged\<rparr>))"

interpretation mem: protocol_store entries memory_get memory_apply_one apply_validated
proof unfold_locales
  fix c :: state_change and cs s
  show "apply_validated (c # cs) s = bind_res (memory_apply_one c s) (apply_validated cs)"
    by (cases "stage_change c (entries s)") (simp_all add: apply_validated_def memory_apply_one_def)
qed (auto simp: memory_get_def memory_value_def memory_apply_one_def stage_change_def
    apply_validated_def split: state_operation.splits)

section \<open>A concrete block\<close>

text \<open>A state with one entry, and an output that updates it and inserts a second one; the hash
  is a constant function.\<close>

definition ex_hash :: "bytes \<Rightarrow> hash" where
  "ex_hash _ = replicate 32 7"

definition ex_input :: execution_input where
  "ex_input = \<lparr>in_protocol_version = 1, in_slot = 1, in_parent_hash = replicate 32 1,
     in_parent_state_root = replicate 32 2, in_entropy = replicate 32 3, in_reports = [],
     in_preimages = [], in_system_ops = [], in_max_gas = 100\<rparr>"

definition ex_update :: state_change where
  "ex_update = \<lparr>ch_key = 4 # replicate 30 1, ch_operation = Update, ch_value = Some [2]\<rparr>"

definition ex_insert :: state_change where
  "ex_insert = \<lparr>ch_key = 5 # replicate 30 2, ch_operation = Upsert, ch_value = Some [3]\<rparr>"

definition ex_output :: execution_output where
  "ex_output = (empty_output ex_hash)\<lparr>out_ordered_changes := [ex_update, ex_insert],
     out_input_hash := replicate 32 7, out_gas_used := 10\<rparr>"

definition ex_memory :: memory_state where
  "ex_memory = memory_insert (4 # replicate 30 1) [1] \<lparr>entries = Map.empty\<rparr>"

lemmas ex_defs = ex_hash_def ex_input_def ex_update_def ex_insert_def ex_output_def ex_memory_def
  empty_output_def Let_def compute_receipt_hash_def compute_input_hash_def memory_get_def
  memory_value_def memory_insert_def

lemma ex_validates:
  "validate_execution_output ex_hash (\<lambda>_. []) length ex_input ex_output (memory_get ex_memory)
     = Ok [ex_update, ex_insert]"
  by (simp add: validate_execution_output_def validate_common_def ex_defs MAX_DELTA_BYTES_def)

lemma ex_applies:
  "apply_validated [ex_update, ex_insert] ex_memory
     = Ok \<lparr>entries = [4 # replicate 30 1 \<mapsto> [2], 5 # replicate 30 2 \<mapsto> [3]]\<rparr>"
  by (simp add: apply_validated_def stage_change_def ex_defs)

section \<open>Properties\<close>

text \<open>
  C4. \<^bold>\<open>Exact acceptance condition of the validator.\<close>  Against a readable state \<open>m\<close> the
  validator accepts an output exactly when the gas is within the limit, the receipt hash and the
  input hash are the recomputed ones, the encoded delta is within the byte limit, the keys are
  strictly increasing, and every operation fits the presence of its key; it then returns the
  output's own changes, unmodified.
\<close>
theorem validate_execution_output_Ok_iff:
  "validate_execution_output blake2_256 encode encoded_size i out (\<lambda>k. Ok (m k)) = Ok ds \<longleftrightarrow>
     ds = out_ordered_changes out
     \<and> out_gas_used out \<le> in_max_gas i
     \<and> out_receipt_hash out = compute_receipt_hash blake2_256 out
     \<and> out_input_hash out = compute_input_hash blake2_256 encode i
     \<and> encoded_size ds \<le> MAX_DELTA_BYTES
     \<and> delta_ok m ds"
  by (auto simp: validate_execution_output_def validate_common_Ok)

text \<open>
  C11. \<^bold>\<open>Applying a validated delta refines the overlay.\<close>  When the validator accepts an output
  against the in-memory state, \<open>apply_validated\<close> does not hit its \<open>expect\<close> and the new entries
  are the old ones overlaid with the output's changes.
\<close>
theorem apply_validated_overlay:
  assumes "validate_execution_output blake2_256 encode encoded_size i out (memory_get m) = Ok delta"
  shows "\<exists>m'. apply_validated delta m = Ok m'
           \<and> entries m' = overlay (out_ordered_changes out) (entries m)"
  using mem.validated_applies [OF assms] .

theorem apply_validated_overlay_witness:
  "validate_execution_output ex_hash (\<lambda>_. []) length ex_input ex_output (memory_get ex_memory)
     = Ok [ex_update, ex_insert]
   \<and> (\<exists>m'. apply_validated [ex_update, ex_insert] ex_memory = Ok m'
        \<and> entries m' = overlay (out_ordered_changes ex_output) (entries ex_memory))"
  using apply_validated_overlay [OF ex_validates] ex_validates by simp

text \<open>
  C26. \<^bold>\<open>A creating or removing delta cannot be replayed.\<close>  After a validated delta with at least
  one insertion or removal has been applied, the validator rejects the same output against the
  new state, whatever input it is presented with.
\<close>
theorem validated_delta_no_replay:
  assumes "validate_execution_output blake2_256 encode encoded_size i out (memory_get m) = Ok delta"
    and "apply_validated delta m = Ok m'"
    and "c \<in> set (out_ordered_changes out)" "ch_operation c \<noteq> Update"
  shows "validate_execution_output blake2_256 encode encoded_size j out (memory_get m') \<noteq> Ok delta'"
proof
  assume "validate_execution_output blake2_256 encode encoded_size j out (memory_get m') = Ok delta'"
  then have new: "applicable (entries m') c"
    using assms(3) mem.validated_delta_ok by (metis delta_ok_def)
  have old: "delta_ok (entries m) (out_ordered_changes out)"
    using assms(1) mem.validated_delta_ok by metis
  have "entries m' (ch_key c) = ch_value c"
    using mem.validated_applies [OF assms(1)] assms(2) overlay_in [OF old assms(3)] by auto
  with new old assms(3,4) show False
    by (cases "ch_operation c") (auto simp: applicable_def)
qed

theorem validated_delta_no_replay_witness:
  "validate_execution_output ex_hash (\<lambda>_. []) length ex_input ex_output
     (memory_get \<lparr>entries = [4 # replicate 30 1 \<mapsto> [2], 5 # replicate 30 2 \<mapsto> [3]]\<rparr>)
     \<noteq> Ok [ex_update, ex_insert]"
  by (rule validated_delta_no_replay [OF ex_validates ex_applies, where c = ex_insert])
    (simp_all add: ex_defs)

text \<open>
  C25. \<^bold>\<open>An accepted output is bound to one block input.\<close>  With an operation encoding that separates
  the operations at hand and a hash that does not collide on the two input payloads, an output
  accepted for the input \<open>i\<close> is rejected for every other input \<open>j\<close>, against any state.
\<close>
theorem validated_output_binds_input:
  assumes "validate_execution_output blake2_256 encode encoded_size i out (memory_get m) = Ok d"
    and "i \<noteq> j" "input_wf encode i" "input_wf encode j"
    and "inj_on encode (set (in_system_ops i) \<union> set (in_system_ops j))"
    and "inj_on blake2_256 {input_payload encode i, input_payload encode j}"
  shows "validate_execution_output blake2_256 encode encoded_size j out (memory_get n) \<noteq> Ok d'"
proof
  assume "validate_execution_output blake2_256 encode encoded_size j out (memory_get n) = Ok d'"
  then have "compute_input_hash blake2_256 encode i = compute_input_hash blake2_256 encode j"
    using mem.validated_input_hash [OF assms(1)] mem.validated_input_hash by metis
  then have "input_payload encode i = input_payload encode j"
    using assms(6) by (simp add: compute_input_hash_def inj_on_eq_iff)
  then show False
    using input_payload_inj assms(2-5) by blast
qed

definition ex_committed_output :: execution_output where
  "ex_committed_output =
     (let out = (empty_output (\<lambda>bs. bs))\<lparr>out_input_hash := input_payload (\<lambda>_. []) ex_input\<rparr>
      in out\<lparr>out_receipt_hash := receipt_payload out\<rparr>)"

theorem validated_output_binds_input_witness:
  "validate_execution_output (\<lambda>bs. bs) (\<lambda>_. []) length (ex_input\<lparr>in_max_gas := 101\<rparr>)
     ex_committed_output (memory_get ex_memory) \<noteq> Ok []"
proof (rule validated_output_binds_input [where i = ex_input and m = ex_memory and d = "[]"])
  show "validate_execution_output (\<lambda>bs. bs) (\<lambda>_. []) length ex_input ex_committed_output
      (memory_get ex_memory) = Ok []"
    by (simp add: validate_execution_output_def validate_common_def ex_committed_output_def
        compute_input_hash_def compute_receipt_hash_def receipt_payload_def empty_output_def Let_def
        MAX_DELTA_BYTES_def ex_input_def)
qed (simp_all add: ex_input_def input_wf_def blobs_wf_def)

end
