(* ===== verification/Frame.thy ===== *)
theory Frame
  imports MJ_Prelude
begin

text \<open>
  What the pallets use of the Substrate framework: origins, dispatch errors and the fungible
  currency.  A call that returns an error is rolled back, so the model's calls return the new
  state only on success.  The currency is code outside the repository: it is a record of
  functions over an abstract balance state, and \<open>currency_laws\<close> states what its documentation
  promises.  \<open>ledger\<close> is a small reference currency used to show that the laws can hold.
\<close>

section \<open>Origins and dispatch errors\<close>

datatype origin = RootOrigin | SignedOrigin account | NoneOrigin

datatype 'e dispatch_error =
    BadOrigin
  | CurrencyError
  | OtherError string
  | ModuleError 'e

definition ensure_signed ::
    "origin \<Rightarrow> (account \<Rightarrow> ('e dispatch_error, 'a) outcome) \<Rightarrow> ('e dispatch_error, 'a) outcome" where
  "ensure_signed origin k = (case origin of SignedOrigin who \<Rightarrow> k who | _ \<Rightarrow> Err BadOrigin)"

definition ensure_root ::
    "origin \<Rightarrow> ('e dispatch_error, 'a) outcome \<Rightarrow> ('e dispatch_error, 'a) outcome" where
  "ensure_root origin k = (if origin = RootOrigin then k else Err BadOrigin)"

lemma ensure_signed_Ok [res_simps]:
  "ensure_signed origin k = Ok x \<longleftrightarrow> (\<exists>who. origin = SignedOrigin who \<and> k who = Ok x)"
  by (simp add: ensure_signed_def split: origin.split)

lemma ensure_root_Ok [res_simps]: "ensure_root origin k = Ok x \<longleftrightarrow> origin = RootOrigin \<and> k = Ok x"
  by (simp add: ensure_root_def)

section \<open>The currency\<close>

text \<open>The composite \<open>RuntimeHoldReason\<close> of the three pallets.\<close>

datatype hold_reason = WorkerStake | WorkDeposit | CandidateBond | BridgeEscrow

datatype preservation = Preserve | Expendable

text \<open>
  The operations of \<open>fungible\<close> the pallets call.  \<open>None\<close> is a dispatch error.  \<open>cur_slash\<close> returns
  the credit, the remainder that could not be slashed, and the new state; \<open>cur_release\<close> is called
  with exact precision only.  \<open>cur_on_hold\<close> observes a held balance.
\<close>

record 'c currency =
  cur_hold :: "hold_reason \<Rightarrow> account \<Rightarrow> balance \<Rightarrow> 'c \<Rightarrow> 'c option"
  cur_release :: "hold_reason \<Rightarrow> account \<Rightarrow> balance \<Rightarrow> 'c \<Rightarrow> 'c option"
  cur_slash :: "hold_reason \<Rightarrow> account \<Rightarrow> balance \<Rightarrow> 'c \<Rightarrow> balance \<times> balance \<times> 'c"
  cur_resolve :: "account \<Rightarrow> balance \<Rightarrow> 'c \<Rightarrow> 'c option"
  cur_transfer :: "preservation \<Rightarrow> account \<Rightarrow> account \<Rightarrow> balance \<Rightarrow> 'c \<Rightarrow> 'c option"
  cur_balance :: "account \<Rightarrow> 'c \<Rightarrow> balance"
  cur_on_hold :: "hold_reason \<Rightarrow> account \<Rightarrow> 'c \<Rightarrow> balance"

text \<open>
  The documented behaviour of holds: \<open>hold\<close> raises the held balance by the amount, an exact
  \<open>release\<close> lowers it by the amount, \<open>slash\<close> takes as much of the request as is held and
  reports the rest, and none of them, nor a transfer or a resolved credit, touches another held
  balance.
\<close>

definition currency_laws :: "'c currency \<Rightarrow> bool" where
  "currency_laws C \<longleftrightarrow>
     (\<forall>r a n c c'. cur_hold C r a n c = Some c' \<longrightarrow>
        unat (cur_on_hold C r a c') = unat (cur_on_hold C r a c) + unat n
        \<and> (\<forall>q b. (q, b) \<noteq> (r, a) \<longrightarrow> cur_on_hold C q b c' = cur_on_hold C q b c))
     \<and> (\<forall>r a n c c'. cur_release C r a n c = Some c' \<longrightarrow>
        unat (cur_on_hold C r a c) = unat (cur_on_hold C r a c') + unat n
        \<and> (\<forall>q b. (q, b) \<noteq> (r, a) \<longrightarrow> cur_on_hold C q b c' = cur_on_hold C q b c))
     \<and> (\<forall>r a n c credit remainder c'. cur_slash C r a n c = (credit, remainder, c') \<longrightarrow>
        credit = min n (cur_on_hold C r a c) \<and> remainder = n - credit
        \<and> cur_on_hold C r a c' = cur_on_hold C r a c - credit
        \<and> (\<forall>q b. (q, b) \<noteq> (r, a) \<longrightarrow> cur_on_hold C q b c' = cur_on_hold C q b c))
     \<and> (\<forall>a n c c'. cur_resolve C a n c = Some c' \<longrightarrow>
        (\<forall>q b. cur_on_hold C q b c' = cur_on_hold C q b c))
     \<and> (\<forall>p a b n c c'. cur_transfer C p a b n c = Some c' \<longrightarrow>
        (\<forall>q d. cur_on_hold C q d c' = cur_on_hold C q d c))"

lemma currency_lawsD:
  assumes "currency_laws C"
  shows "cur_hold C r a n c = Some c' \<Longrightarrow> unat (cur_on_hold C r a c') = unat (cur_on_hold C r a c) + unat n"
    and "cur_release C r a n c = Some c' \<Longrightarrow> unat (cur_on_hold C r a c) = unat (cur_on_hold C r a c') + unat n"
    and "cur_slash C r a n c = (credit, remainder, c') \<Longrightarrow>
        credit = min n (cur_on_hold C r a c) \<and> remainder = n - credit
        \<and> cur_on_hold C r a c' = cur_on_hold C r a c - credit"
    and "cur_resolve C a n c = Some c' \<Longrightarrow> cur_on_hold C q b c' = cur_on_hold C q b c"
    and "cur_transfer C p a b' n c = Some c' \<Longrightarrow> cur_on_hold C q b c' = cur_on_hold C q b c"
  using assms by (simp_all add: currency_laws_def)

text \<open>
  The documented behaviour of payments from and into a pool account that exists.  In a sound balance
  state, a transfer that keeps the pool alive succeeds for a payee whose account exists when the
  amount is within what the pool may spend, and lowers what it may spend by at most that amount; and
  the credit of a slash can be resolved into the pool, which does not lower what it may spend.
  Soundness stands for an issuance that fits the balance type and for the accounts involved being
  there; both kinds of payment keep it.
\<close>

definition pool_laws ::
    "'c currency \<Rightarrow> account \<Rightarrow> account set \<Rightarrow> ('c \<Rightarrow> bool) \<Rightarrow> ('c \<Rightarrow> nat) \<Rightarrow> bool" where
  "pool_laws C pool payees sound funds \<longleftrightarrow>
     (\<forall>a n c. a \<in> payees \<and> sound c \<and> unat n \<le> funds c \<longrightarrow>
        (\<exists>c'. cur_transfer C Preserve pool a n c = Some c' \<and> sound c' \<and> funds c \<le> funds c' + unat n))
     \<and> (\<forall>r a n c credit remainder c'. sound c \<and> cur_slash C r a n c = (credit, remainder, c') \<longrightarrow>
        (\<exists>c''. cur_resolve C pool credit c' = Some c'' \<and> sound c'' \<and> funds c \<le> funds c''))"

lemma pool_lawsD:
  assumes "pool_laws C pool payees sound funds" "sound c"
  shows "a \<in> payees \<Longrightarrow> unat n \<le> funds c \<Longrightarrow>
      \<exists>c'. cur_transfer C Preserve pool a n c = Some c' \<and> sound c' \<and> funds c \<le> funds c' + unat n"
    and "cur_slash C r a n c = (credit, remainder, c') \<Longrightarrow>
      \<exists>c''. cur_resolve C pool credit c' = Some c'' \<and> sound c'' \<and> funds c \<le> funds c''"
  using assms unfolding pool_laws_def by blast+

text \<open>A reference currency with a free and a held balance per account.\<close>

record ledger =
  free :: "account \<Rightarrow> balance"
  held :: "hold_reason \<times> account \<Rightarrow> balance"

definition ledger_hold :: "hold_reason \<Rightarrow> account \<Rightarrow> balance \<Rightarrow> ledger \<Rightarrow> ledger option" where
  "ledger_hold r a n l =
     (if n \<le> free l a \<and> uint (held l (r, a)) + uint n < 2 ^ 128
      then Some (l\<lparr>free := (free l)(a := free l a - n), held := (held l)((r, a) := held l (r, a) + n)\<rparr>)
      else None)"

definition ledger_release :: "hold_reason \<Rightarrow> account \<Rightarrow> balance \<Rightarrow> ledger \<Rightarrow> ledger option" where
  "ledger_release r a n l =
     (if n \<le> held l (r, a) \<and> uint (free l a) + uint n < 2 ^ 128
      then Some (l\<lparr>free := (free l)(a := free l a + n), held := (held l)((r, a) := held l (r, a) - n)\<rparr>)
      else None)"

definition ledger_slash ::
    "hold_reason \<Rightarrow> account \<Rightarrow> balance \<Rightarrow> ledger \<Rightarrow> balance \<times> balance \<times> ledger" where
  "ledger_slash r a n l =
     (let credit = min n (held l (r, a))
      in (credit, n - credit, l\<lparr>held := (held l)((r, a) := held l (r, a) - credit)\<rparr>))"

definition ledger_resolve :: "account \<Rightarrow> balance \<Rightarrow> ledger \<Rightarrow> ledger option" where
  "ledger_resolve a n l =
     (if uint (free l a) + uint n < 2 ^ 128 then Some (l\<lparr>free := (free l)(a := free l a + n)\<rparr>) else None)"

definition ledger_transfer ::
    "preservation \<Rightarrow> account \<Rightarrow> account \<Rightarrow> balance \<Rightarrow> ledger \<Rightarrow> ledger option" where
  "ledger_transfer p a b n l =
     (if n \<le> free l a \<and> uint (free l b) + uint n < 2 ^ 128
      then let l' = l\<lparr>free := (free l)(a := free l a - n)\<rparr>
           in Some (l'\<lparr>free := (free l')(b := free l' b + n)\<rparr>)
      else None)"

definition ledger_currency :: "ledger currency" where
  "ledger_currency =
     \<lparr>cur_hold = ledger_hold, cur_release = ledger_release, cur_slash = ledger_slash,
      cur_resolve = ledger_resolve, cur_transfer = ledger_transfer,
      cur_balance = (\<lambda>a l. free l a), cur_on_hold = (\<lambda>r a l. held l (r, a))\<rparr>"

lemma ledger_laws: "currency_laws ledger_currency"
proof -
  have sub: "unat (a - b) + unat b = unat a" if "b \<le> a" for a b :: u128
    using that by (simp add: unat_sub word_le_nat_alt)
  have add: "unat (a + b) = unat a + unat b" if "uint a + uint b < 2 ^ LENGTH(128)" for a b :: u128
    using that by (intro unat_add_no_overflow) (simp only: unat_less_exp_iff)
  show ?thesis
    by (auto simp: currency_laws_def ledger_currency_def ledger_hold_def ledger_release_def
        ledger_slash_def ledger_resolve_def ledger_transfer_def Let_def sub add
        split: if_splits)
qed

text \<open>
  A ledger is sound when only the accounts of a finite set have balances and these add up to less
  than the balance type holds.
\<close>

definition issuance :: "account set \<Rightarrow> ledger \<Rightarrow> nat" where
  "issuance A l = (\<Sum>a\<in>A. unat (free l a)) + (\<Sum>k\<in>UNIV \<times> A. unat (held l k))"

definition ledger_sound :: "account set \<Rightarrow> ledger \<Rightarrow> bool" where
  "ledger_sound A l \<longleftrightarrow> (\<forall>r a. a \<notin> A \<longrightarrow> held l (r, a) = 0) \<and> issuance A l < 2 ^ 128"

lemma UNIV_hold_reason: "UNIV = {WorkerStake, WorkDeposit, CandidateBond, BridgeEscrow}"
proof (rule set_eqI)
  show "r \<in> UNIV \<longleftrightarrow> r \<in> {WorkerStake, WorkDeposit, CandidateBond, BridgeEscrow}" for r :: hold_reason
    by (cases r) simp_all
qed

lemma sum_fun_upd:
  fixes g :: "'b \<Rightarrow> nat"
  assumes "finite A" "a \<in> A"
  shows "(\<Sum>x\<in>A. g ((f(a := v)) x)) + g (f a) = (\<Sum>x\<in>A. g (f x)) + g v"
proof -
  have "(\<Sum>x\<in>A - {a}. g ((f(a := v)) x)) = (\<Sum>x\<in>A - {a}. g (f x))"
    by (rule sum.cong) simp_all
  then show ?thesis
    using sum.remove [OF assms, of "\<lambda>x. g (f x)"] sum.remove [OF assms, of "\<lambda>x. g ((f(a := v)) x)"] by simp
qed

lemma balance_add:
  fixes a b :: balance
  assumes "unat a + unat b < 2 ^ 128"
  shows "unat (a + b) = unat a + unat b" "uint a + uint b < 2 ^ 128"
proof -
  have "int (unat a + unat b) < int (2 ^ 128)" using assms by (simp only: of_nat_less_iff)
  then show "uint a + uint b < 2 ^ 128" by simp
  show "unat (a + b) = unat a + unat b"
    using assms by (subst unat_add_lem [symmetric]) simp
qed

lemma free_two:
  assumes "finite A" "a \<in> A" "b \<in> A" "a \<noteq> b"
  shows "unat (free l a) + unat (free l b) \<le> (\<Sum>x\<in>A. unat (free l x))"
proof -
  have "(\<Sum>x\<in>{a, b}. unat (free l x)) \<le> (\<Sum>x\<in>A. unat (free l x))"
    using assms by (intro sum_mono2) auto
  then show ?thesis using assms(4) by simp
qed

lemma ledger_pays:
  assumes "finite A" "pool \<in> A" "a \<in> A - {pool}" "ledger_sound A l" "unat n \<le> unat (free l pool)"
  shows "\<exists>l'. ledger_transfer p pool a n l = Some l' \<and> ledger_sound A l'
    \<and> unat (free l pool) \<le> unat (free l' pool) + unat n"
proof -
  define f where "f = (free l)(pool := free l pool - n)"
  define l' where "l' = l\<lparr>free := f(a := f a + n)\<rparr>"
  have a: "a \<in> A" "a \<noteq> pool" "f a = free l a" using assms(3) by (auto simp: f_def)
  have fits: "unat (free l a) + unat n < 2 ^ 128"
    using free_two [OF assms(1,2) a(1) a(2) [symmetric], of l] assms(4,5) unfolding ledger_sound_def issuance_def by linarith
  have n: "n \<le> free l pool" using assms(5) by (simp add: word_le_nat_alt)
  have "(\<Sum>x\<in>A. unat (f x)) + unat (free l pool) = (\<Sum>x\<in>A. unat (free l x)) + unat (free l pool - n)"
    unfolding f_def by (rule sum_fun_upd [OF assms(1,2)])
  moreover have "(\<Sum>x\<in>A. unat ((f(a := f a + n)) x)) + unat (f a) = (\<Sum>x\<in>A. unat (f x)) + unat (f a + n)"
    by (rule sum_fun_upd [OF assms(1) a(1)])
  moreover have "unat (f a + n) = unat (f a) + unat n" "unat (free l pool - n) = unat (free l pool) - unat n"
    using balance_add(1) [OF fits] unat_sub [OF n] by (simp_all add: a(3))
  ultimately have "(\<Sum>x\<in>A. unat ((f(a := f a + n)) x)) = (\<Sum>x\<in>A. unat (free l x))"
    using assms(5) by linarith
  then have "ledger_sound A l'"
    using assms(4) by (simp add: ledger_sound_def issuance_def l'_def)
  moreover have "ledger_transfer p pool a n l = Some l'"
    using n balance_add(2) [OF fits] a(2) by (simp add: ledger_transfer_def l'_def f_def)
  moreover have "unat (free l pool) \<le> unat (free l' pool) + unat n"
    using a(2) unat_sub [OF n] by (simp add: l'_def f_def)
  ultimately show ?thesis by blast
qed

lemma ledger_takes:
  assumes "finite A" "pool \<in> A" "ledger_sound A l" "ledger_slash r a n l = (credit, remainder, l')"
  shows "\<exists>l''. ledger_resolve pool credit l' = Some l'' \<and> ledger_sound A l''
    \<and> unat (free l pool) \<le> unat (free l'' pool)"
proof (cases "a \<in> A")
  case True
  have fin: "finite (UNIV \<times> A :: (hold_reason \<times> account) set)" using assms(1) by (simp add: UNIV_hold_reason)
  have k: "(r, a) \<in> UNIV \<times> A" using True by simp
  have credit: "credit \<le> held l (r, a)" and l': "l' = l\<lparr>held := (held l)((r, a) := held l (r, a) - credit)\<rparr>"
    using assms(4) by (auto simp: ledger_slash_def Let_def)
  let ?l'' = "l'\<lparr>free := (free l)(pool := free l pool + credit)\<rparr>"
  have le: "unat (free l pool) \<le> (\<Sum>x\<in>A. unat (free l x))" "unat (held l (r, a)) \<le> (\<Sum>k\<in>UNIV \<times> A. unat (held l k))"
    using member_le_sum [OF assms(2), of "\<lambda>x. unat (free l x)"] member_le_sum [OF k, of "\<lambda>k. unat (held l k)"] assms(1) fin
    by simp_all
  have c: "unat credit \<le> unat (held l (r, a))" using credit by (simp add: word_le_nat_alt)
  then have fits: "unat (free l pool) + unat credit < 2 ^ 128"
    using le assms(3) unfolding ledger_sound_def issuance_def by linarith
  have "(\<Sum>x\<in>A. unat (((free l)(pool := free l pool + credit)) x)) + unat (free l pool)
      = (\<Sum>x\<in>A. unat (free l x)) + unat (free l pool + credit)"
    by (rule sum_fun_upd [OF assms(1,2)])
  moreover have "(\<Sum>k\<in>UNIV \<times> A. unat (((held l)((r, a) := held l (r, a) - credit)) k)) + unat (held l (r, a))
      = (\<Sum>k\<in>UNIV \<times> A. unat (held l k)) + unat (held l (r, a) - credit)"
    by (rule sum_fun_upd [OF fin k])
  moreover have "unat (held l (r, a) - credit) = unat (held l (r, a)) - unat credit"
    using unat_sub [OF credit] .
  ultimately have "issuance A ?l'' = issuance A l"
    using balance_add(1) [OF fits] c by (simp add: issuance_def l' del: fun_upd_apply)
  then have "ledger_sound A ?l''"
    using assms(3) True by (auto simp: ledger_sound_def l')
  moreover have "ledger_resolve pool credit l' = Some ?l''"
    using balance_add(2) [OF fits] by (simp add: ledger_resolve_def l')
  moreover have "unat (free l pool) \<le> unat (free ?l'' pool)"
    using balance_add(1) [OF fits] by simp
  ultimately show ?thesis by blast
next
  case False
  then have z: "held l (r, a) = 0" using assms(3) by (simp add: ledger_sound_def)
  then have "credit = 0" "l' = l"
    using assms(4) fun_upd_triv [of "held l" "(r, a)"] by (auto simp: ledger_slash_def Let_def)
  then show ?thesis
    using assms(3) uint_lt2p [of "free l pool"] by (simp add: ledger_resolve_def)
qed

lemma ledger_pool_laws:
  assumes "finite A" "pool \<in> A"
  shows "pool_laws ledger_currency pool (A - {pool}) (ledger_sound A) (\<lambda>l. unat (free l pool))"
  using ledger_pays [OF assms] ledger_takes [OF assms] unfolding pool_laws_def
  by (simp add: ledger_currency_def) blast

end
