(* ===== verification/Ranking.thy ===== *)
theory Ranking
  imports MJ_Prelude
begin

text \<open>
  Selection of the first entries of a ranked list, the pattern behind the worker ranking, the
  epoch snapshot and the assignment of workers to a work.  The locale states what the client code
  relies on: the rank determines the identity, so the selection does not depend on the order in
  which storage is iterated.
\<close>

definition select :: "('w \<Rightarrow> 'r::linorder) \<Rightarrow> nat \<Rightarrow> 'w list \<Rightarrow> 'w list" where
  "select rank n xs = take n (sort_key rank xs)"

lemma length_select [simp]: "length (select rank n xs) = min n (length xs)"
  by (simp add: select_def)

lemma sorted_select: "sorted (map rank (select rank n xs))"
  by (simp add: select_def take_map [symmetric] sorted_wrt_take)

lemma mset_select_drop:
  "mset xs = mset (select rank n xs) + mset (drop n (sort_key rank xs))"
  by (metis append_take_drop_id mset_append mset_sort select_def)

lemma set_select: "set (select rank n xs) \<subseteq> set xs"
  by (metis select_def set_sort set_take_subset)

lemma select_best:
  assumes "v \<in> set (select rank n xs)" "w \<in># mset xs - mset (select rank n xs)"
  shows "rank v \<le> rank w"
proof -
  have "w \<in> set (drop n (sort_key rank xs))"
    using assms(2) mset_select_drop [of xs rank n] by simp
  moreover have "sorted (map rank (select rank n xs) @ map rank (drop n (sort_key rank xs)))"
    by (simp add: select_def take_map [symmetric] drop_map [symmetric])
  ultimately show ?thesis
    using assms(1) by (auto simp: sorted_append)
qed

locale ranked =
  fixes rank :: "'w \<Rightarrow> 'r::linorder"
    and ident :: "'w \<Rightarrow> 'i"
  assumes rank_ident: "rank v = rank w \<Longrightarrow> ident v = ident w"
begin

lemma inj_on_rank: "distinct (map ident xs) \<Longrightarrow> inj_on rank (set xs)"
  by (rule inj_onI) (metis distinct_map inj_onD rank_ident)

text \<open>Any order of the same entries gives the same selection.\<close>

lemma select_perm:
  assumes "mset xs = mset ys" "distinct (map ident xs)"
  shows "select rank n xs = select rank n ys"
proof -
  have "sort_key rank xs = sort_key rank ys"
    using assms by (intro sort_key_inj_key_eq inj_on_rank) simp_all
  then show ?thesis by (simp add: select_def)
qed

lemma distinct_select:
  assumes "distinct (map ident xs)"
  shows "distinct (map ident (select rank n xs))"
proof -
  have "distinct (map ident (sort_key rank xs))"
    using assms by (metis mset_eq_imp_distinct_iff mset_map mset_sort)
  then show ?thesis
    by (simp add: select_def take_map [symmetric] distinct_take)
qed

end

end
