(* ===== verification/Workers_Pallet.thy ===== *)
theory Workers_Pallet
  imports Frame Ranking Protocol
begin

text \<open>
  The pallet \<open>pallets/minijam-workers\<close>: registration and scheduled updates of workers, the epoch
  snapshot, the assignment of workers to a work, voting and equivocation.  The state record has
  one field per storage item.  Maps the code iterates (\<open>Workers\<close>, \<open>PendingUpdates\<close>,
  \<open>Unbonding\<close>) are association lists, all others are maps; an item with a default value is a
  total function.  The order in which storage is iterated is the parameter \<open>iter_order\<close>.
  Hashing, signatures, encodings, \<open>Perbill::mul_floor\<close> and the currency are parameters too.
\<close>

section \<open>Data\<close>

record worker =
  w_owner :: account
  w_session_key :: bytes
  w_active_stake :: balance
  w_effective_epoch :: epoch_index
  w_suspended_until :: epoch_index

record pending_update =
  pu_session_key :: "bytes option"
  pu_stake :: "balance option"
  pu_effective_epoch :: epoch_index

record unbonding_chunk =
  ub_amount :: balance
  ub_unlock_epoch :: epoch_index

datatype round_decision = AcceptedRound | RejectedRound

record voting_round =
  vg_assignment_epoch :: epoch_index
  vg_candidate_hash :: hash
  vg_deadline :: block_number
  vg_support :: u32
  vg_oppose :: u32
  vg_responses :: u32
  vg_locked :: "round_decision option"

record round_result =
  rr_decision :: "round_decision option"
  rr_absentees :: "worker_id list"

record 'c workers_env =
  Currency :: "'c currency"
  MinimumStake :: balance
  EpochLength :: u32
  MaxCandidates :: u32
  TopWorkers :: u32
  AssignmentSeedDelay :: u32
  WorkersPerWork :: u32
  MaxWorksPerRound :: u32
  MaxDutiesPerWorkerPerRound :: u32
  SupportThreshold :: u32
  OpposeThreshold :: u32
  MaxOpenVotes :: u32
  ChainId :: hash
  ProtocolVersion :: u16
  RewardPool :: account
  TimelyVoteReward :: balance
  AbsenceSlash :: "balance \<Rightarrow> balance"
  MinimumAbsenceSlash :: balance
  EquivocationSlash :: "balance \<Rightarrow> balance"
  EquivocationSuspension :: u32
  blake2_256 :: "bytes \<Rightarrow> hash"
  sr25519_verify :: "bytes \<Rightarrow> hash \<Rightarrow> bytes \<Rightarrow> bool"
  encode_vote :: "worker_vote \<Rightarrow> bytes"
  encode_score :: "hash \<Rightarrow> epoch_index \<Rightarrow> u8 \<Rightarrow> work_id \<Rightarrow> worker_id \<Rightarrow> bytes"
  encode_vote_tag :: "work_id \<Rightarrow> u8 \<Rightarrow> worker_id \<Rightarrow> bytes"
  iter_order :: "worker_id list \<Rightarrow> worker_id list"

datatype workers_event =
    WorkerRegistered worker_id account epoch_index balance
  | EpochSnapshot epoch_index "worker_id list"
  | WorkerUpdateScheduled worker_id epoch_index
  | WorkerUpdateApplied worker_id epoch_index
  | StakeReleased worker_id balance
  | VoteSubmitted work_id u8 worker_id
  | VotingFinalized work_id u8 "round_decision option"
  | VoteRewardPaid worker_id balance
  | WorkerSlashed worker_id balance
  | EquivocationProven work_id u8 worker_id balance epoch_index

datatype workers_error =
    AlreadyRegistered | CandidatePoolFull | StakeBelowMinimum | WorkerIdOverflow
  | InvalidEpochLength | NotRegistered | EmptyUpdate | PendingUpdateExists | UnbondingInProgress
  | TooManyWorks | InsufficientWorkers | VotingAlreadyOpen | TooManyOpenVotes | VotingNotOpen
  | NotAssigned | VoteExpired | VoteMismatch | AlreadyVoted | InvalidSignature
  | InvalidEquivocationProof | EquivocationAlreadyReported

record 'c workers_state =
  block_no :: block_number
  block_hash :: "block_number \<Rightarrow> hash"
  balances :: 'c
  NextWorkerId :: worker_id
  WorkerCount :: u32
  WorkerByAccount :: "account \<rightharpoonup> worker_id"
  Workers :: "(worker_id \<times> worker) list"
  PendingUpdates :: "(worker_id \<times> pending_update) list"
  Unbonding :: "(worker_id \<times> unbonding_chunk) list"
  CurrentEpoch :: epoch_index
  ActiveWorkers :: "worker_id list"
  Assignments :: "work_id \<times> u8 \<rightharpoonup> worker_id list"
  AssignmentEpochs :: "work_id \<times> u8 \<rightharpoonup> epoch_index"
  AssignedWorkCount :: "epoch_index \<times> u8 \<Rightarrow> u32"
  DutyCounts :: "epoch_index \<times> u8 \<times> worker_id \<Rightarrow> u32"
  AssignmentKeys :: "work_id \<times> u8 \<times> worker_id \<rightharpoonup> bytes"
  VotingRounds :: "work_id \<times> u8 \<rightharpoonup> voting_round"
  OpenVoteRounds :: "(work_id \<times> u8) list"
  Votes :: "work_id \<times> u8 \<times> worker_id \<rightharpoonup> verdict"
  RoundResults :: "work_id \<times> u8 \<rightharpoonup> round_result"
  Equivocations :: "work_id \<times> u8 \<times> worker_id \<rightharpoonup> unit"
  w_events :: "workers_event list"

type_synonym ('c, 'a) workers_res = "(workers_error dispatch_error, 'a) outcome"

text \<open>The lookups of the three iterated maps.\<close>

abbreviation worker_of :: "'c workers_state \<Rightarrow> worker_id \<Rightarrow> worker option" where
  "worker_of s \<equiv> alist_get (Workers s)"

abbreviation pending_of :: "'c workers_state \<Rightarrow> worker_id \<Rightarrow> pending_update option" where
  "pending_of s \<equiv> alist_get (PendingUpdates s)"

abbreviation unbonding_of :: "'c workers_state \<Rightarrow> worker_id \<Rightarrow> unbonding_chunk option" where
  "unbonding_of s \<equiv> alist_get (Unbonding s)"

definition deposit_event :: "workers_event \<Rightarrow> 'c workers_state \<Rightarrow> 'c workers_state" where
  "deposit_event e s = s\<lparr>w_events := w_events s @ [e]\<rparr>"

definition insert_worker :: "worker_id \<Rightarrow> worker \<Rightarrow> 'c workers_state \<Rightarrow> 'c workers_state" where
  "insert_worker w r s = s\<lparr>Workers := AList.update w r (Workers s)\<rparr>"

text \<open>A currency call: the new balances replace the old ones, or the call fails.\<close>

definition with_currency ::
    "'c option \<Rightarrow> 'c workers_state \<Rightarrow> ('c workers_state \<Rightarrow> ('e dispatch_error, 'a) outcome)
     \<Rightarrow> ('e dispatch_error, 'a) outcome" where
  "with_currency c s k = ok_or c CurrencyError (\<lambda>c'. k (s\<lparr>balances := c'\<rparr>))"

definition hold_stake ::
    "'c workers_env \<Rightarrow> account \<Rightarrow> balance \<Rightarrow> 'c workers_state
     \<Rightarrow> ('c workers_state \<Rightarrow> ('e dispatch_error, 'a) outcome) \<Rightarrow> ('e dispatch_error, 'a) outcome" where
  "hold_stake E owner amount s k =
     with_currency (cur_hold (Currency E) WorkerStake owner amount (balances s)) s k"

section \<open>Genesis\<close>

fun genesis_workers ::
    "'c workers_env \<Rightarrow> (account \<times> bytes \<times> balance) list \<Rightarrow> worker_id \<Rightarrow> (worker_id \<times> balance) list
     \<Rightarrow> 'c workers_state \<Rightarrow> (unit, (worker_id \<times> balance) list \<times> 'c workers_state) outcome" where
  "genesis_workers E [] n active s = Ok (active, s)"
| "genesis_workers E ((owner, session_key, stake) # rest) n active s =
     (if stake < MinimumStake E then Panic
      else if WorkerByAccount s owner \<noteq> None then Panic
      else case cur_hold (Currency E) WorkerStake owner stake (balances s) of
        None \<Rightarrow> Panic
      | Some c \<Rightarrow>
          genesis_workers E rest (n + 1) (active @ [(n, stake)])
            ((insert_worker n \<lparr>w_owner = owner, w_session_key = session_key, w_active_stake = stake,
                 w_effective_epoch = 0, w_suspended_until = 0\<rparr> (s\<lparr>balances := c\<rparr>))
             \<lparr>WorkerByAccount := (WorkerByAccount s)(owner \<mapsto> n)\<rparr>))"

definition stake_order :: "worker_id \<times> balance \<Rightarrow> int \<times> worker_id" where
  "stake_order e = (- uint (snd e), fst e)"

definition genesis_build ::
    "'c workers_env \<Rightarrow> (account \<times> bytes \<times> balance) list \<Rightarrow> 'c workers_state
     \<Rightarrow> (unit, 'c workers_state) outcome" where
  "genesis_build E workers s =
     (if length workers > unat (MaxCandidates E) then Panic
      else bind_res (genesis_workers E workers 0 [] s) (\<lambda>(active, s).
        let top_workers = map fst (take (unat (TopWorkers E)) (sort_key stake_order active))
        in case try_bounded (unat (TopWorkers E)) top_workers of
             None \<Rightarrow> Panic
           | Some tw \<Rightarrow> Ok (s\<lparr>ActiveWorkers := tw, WorkerCount := of_nat (length workers),
                              NextWorkerId := of_nat (length workers)\<rparr>)))"

section \<open>Registration and updates\<close>

definition register ::
    "'c workers_env \<Rightarrow> origin \<Rightarrow> bytes \<Rightarrow> balance \<Rightarrow> 'c workers_state
     \<Rightarrow> ('c, 'c workers_state) workers_res" where
  "register E origin session_key stake s =
     ensure_signed origin (\<lambda>owner.
     ensure (WorkerByAccount s owner = None) (ModuleError AlreadyRegistered) (
     ensure (WorkerCount s < MaxCandidates E) (ModuleError CandidatePoolFull) (
     ensure (stake \<ge> MinimumStake E) (ModuleError StakeBelowMinimum) (
     ensure (EpochLength E > 0) (ModuleError InvalidEpochLength) (
     let worker_id = NextWorkerId s in
     ok_or (checked_add worker_id 1) (ModuleError WorkerIdOverflow) (\<lambda>next_worker_id.
     hold_stake E owner stake s (\<lambda>s.
     let effective_epoch = saturating_add (CurrentEpoch s) 1;
         s = insert_worker worker_id \<lparr>w_owner = owner, w_session_key = session_key,
               w_active_stake = stake, w_effective_epoch = effective_epoch, w_suspended_until = 0\<rparr> s;
         s = s\<lparr>WorkerByAccount := (WorkerByAccount s)(owner \<mapsto> worker_id),
               NextWorkerId := next_worker_id,
               WorkerCount := saturating_add (WorkerCount s) 1\<rparr>
     in Ok (deposit_event (WorkerRegistered worker_id owner effective_epoch stake) s))))))))"

definition schedule_update ::
    "'c workers_env \<Rightarrow> origin \<Rightarrow> bytes option \<Rightarrow> balance option \<Rightarrow> 'c workers_state
     \<Rightarrow> ('c, 'c workers_state) workers_res" where
  "schedule_update E origin session_key stake s =
     ensure_signed origin (\<lambda>owner.
     ensure (session_key \<noteq> None \<or> stake \<noteq> None) (ModuleError EmptyUpdate) (
     ok_or (WorkerByAccount s owner) (ModuleError NotRegistered) (\<lambda>worker_id.
     ensure (pending_of s worker_id = None) (ModuleError PendingUpdateExists) (
     ensure (unbonding_of s worker_id = None) (ModuleError UnbondingInProgress) (
     ok_or (worker_of s worker_id) (ModuleError NotRegistered) (\<lambda>worker.
     bind_res
       (case stake of
          None \<Rightarrow> Ok s
        | Some new_stake \<Rightarrow>
            ensure (new_stake \<ge> MinimumStake E) (ModuleError StakeBelowMinimum) (
            if new_stake > w_active_stake worker
            then hold_stake E owner (new_stake - w_active_stake worker) s Ok
            else Ok s)) (\<lambda>s.
     let effective_epoch = saturating_add (CurrentEpoch s) 1;
         s = s\<lparr>PendingUpdates := AList.update worker_id
               \<lparr>pu_session_key = session_key, pu_stake = stake, pu_effective_epoch = effective_epoch\<rparr>
               (PendingUpdates s)\<rparr>
     in Ok (deposit_event (WorkerUpdateScheduled worker_id effective_epoch) s))))))))"

text \<open>One entry of the loop in \<open>apply_pending_updates\<close>.\<close>

definition apply_update ::
    "epoch_index \<Rightarrow> worker_id \<times> pending_update \<Rightarrow> 'c workers_state \<Rightarrow> 'c workers_state" where
  "apply_update epoch = (\<lambda>(worker_id, update) s.
     if pu_effective_epoch update > epoch then s
     else
       let s = (case worker_of s worker_id of
                  None \<Rightarrow> s
                | Some worker \<Rightarrow>
                    let worker = (case pu_session_key update of
                          None \<Rightarrow> worker
                        | Some session_key \<Rightarrow> worker\<lparr>w_session_key := session_key\<rparr>);
                        s = (case pu_stake update of
                          None \<Rightarrow> s
                        | Some stake \<Rightarrow>
                            if stake < w_active_stake worker
                            then s\<lparr>Unbonding := AList.update worker_id
                                   \<lparr>ub_amount = w_active_stake worker - stake,
                                    ub_unlock_epoch = saturating_add epoch 2\<rparr> (Unbonding s)\<rparr>
                            else s);
                        worker = (case pu_stake update of
                          None \<Rightarrow> worker
                        | Some stake \<Rightarrow> worker\<lparr>w_active_stake := stake\<rparr>)
                    in insert_worker worker_id (worker\<lparr>w_effective_epoch := epoch\<rparr>) s)
       in deposit_event (WorkerUpdateApplied worker_id epoch)
            (s\<lparr>PendingUpdates := AList.delete worker_id (PendingUpdates s)\<rparr>))"

text \<open>The entries of an iterated map, in storage order.\<close>

definition iter_entries :: "'c workers_env \<Rightarrow> (worker_id \<times> 'v) list \<Rightarrow> (worker_id \<times> 'v) list" where
  "iter_entries E m = map (\<lambda>k. (k, the (alist_get m k))) (iter_order E (map fst m))"

definition apply_pending_updates ::
    "'c workers_env \<Rightarrow> epoch_index \<Rightarrow> 'c workers_state \<Rightarrow> 'c workers_state" where
  "apply_pending_updates E epoch s = fold (apply_update epoch) (iter_entries E (PendingUpdates s)) s"

definition release_chunk ::
    "'c workers_env \<Rightarrow> epoch_index \<Rightarrow> worker_id \<times> unbonding_chunk \<Rightarrow> 'c workers_state \<Rightarrow> 'c workers_state" where
  "release_chunk E epoch = (\<lambda>(worker_id, chunk) s.
     if ub_unlock_epoch chunk > epoch then s
     else case worker_of s worker_id of
        None \<Rightarrow> s
      | Some worker \<Rightarrow>
          (case cur_release (Currency E) WorkerStake (w_owner worker) (ub_amount chunk) (balances s) of
             None \<Rightarrow> s
           | Some c \<Rightarrow> deposit_event (StakeReleased worker_id (ub_amount chunk))
               (s\<lparr>balances := c, Unbonding := AList.delete worker_id (Unbonding s)\<rparr>)))"

definition release_mature_unbonding ::
    "'c workers_env \<Rightarrow> epoch_index \<Rightarrow> 'c workers_state \<Rightarrow> 'c workers_state" where
  "release_mature_unbonding E epoch s = fold (release_chunk E epoch) (iter_entries E (Unbonding s)) s"

section \<open>Assignment\<close>

definition saturated_u32 :: "u64 \<Rightarrow> u32" where
  "saturated_u32 n = (if n > ucast (- 1 :: u32) then - 1 else ucast n)"

definition assignment_seed :: "'c workers_env \<Rightarrow> 'c workers_state \<Rightarrow> hash" where
  "assignment_seed E s =
     (let epoch_start = saturating_mul (ucast (CurrentEpoch s)) (ucast (EpochLength E)) :: u64;
          seed_height = saturating_sub epoch_start (ucast (AssignmentSeedDelay E))
      in block_hash s (saturated_u32 seed_height))"

definition assignment_score ::
    "'c workers_env \<Rightarrow> hash \<Rightarrow> work_id \<Rightarrow> u8 \<Rightarrow> 'c workers_state \<Rightarrow> worker_id \<Rightarrow> u32 \<times> hash \<times> worker_id" where
  "assignment_score E seed work rnd s w =
     (DutyCounts s (CurrentEpoch s, rnd, w),
      blake2_256 E (encode_score E seed (CurrentEpoch s) rnd work w), w)"

text \<open>The loop over the assigned workers; an unregistered worker is the \<open>expect\<close>.\<close>

primrec record_duties ::
    "work_id \<Rightarrow> u8 \<Rightarrow> epoch_index \<Rightarrow> worker_id list \<Rightarrow> 'c workers_state \<Rightarrow> ('c, 'c workers_state) workers_res" where
  "record_duties work rnd epoch [] s = Ok s"
| "record_duties work rnd epoch (w # ws) s =
     (let s = s\<lparr>DutyCounts := (DutyCounts s)((epoch, rnd, w) :=
                saturating_add (DutyCounts s (epoch, rnd, w)) 1)\<rparr>
      in case worker_of s w of
           None \<Rightarrow> Panic
         | Some worker \<Rightarrow> record_duties work rnd epoch ws
             (s\<lparr>AssignmentKeys := (AssignmentKeys s)((work, rnd, w) \<mapsto> w_session_key worker)\<rparr>))"

definition assign_work ::
    "'c workers_env \<Rightarrow> work_id \<Rightarrow> u8 \<Rightarrow> 'c workers_state
     \<Rightarrow> ('c, worker_id list \<times> 'c workers_state) workers_res" where
  "assign_work E work rnd s =
     (case Assignments s (work, rnd) of
        Some existing \<Rightarrow> Ok (existing, s)
      | None \<Rightarrow>
          let epoch = CurrentEpoch s in
          ensure (AssignedWorkCount s (epoch, rnd) < MaxWorksPerRound E) (ModuleError TooManyWorks) (
          let seed = assignment_seed E s;
              candidates = filter (\<lambda>w. DutyCounts s (epoch, rnd, w) < MaxDutiesPerWorkerPerRound E)
                (ActiveWorkers s);
              candidates = sort_key (assignment_score E seed work rnd s) candidates
          in
          ensure (length candidates \<ge> unat (WorkersPerWork E)) (ModuleError InsufficientWorkers) (
          case try_bounded (unat (WorkersPerWork E)) (take (unat (WorkersPerWork E)) candidates) of
            None \<Rightarrow> Panic
          | Some assigned \<Rightarrow>
              bind_res (record_duties work rnd epoch assigned s) (\<lambda>s.
              Ok (assigned, s\<lparr>AssignedWorkCount := (AssignedWorkCount s)((epoch, rnd) :=
                      saturating_add (AssignedWorkCount s (epoch, rnd)) 1),
                    Assignments := (Assignments s)((work, rnd) \<mapsto> assigned),
                    AssignmentEpochs := (AssignmentEpochs s)((work, rnd) \<mapsto> epoch)\<rparr>)))))"

definition clear_assignment :: "work_id \<Rightarrow> u8 \<Rightarrow> 'c workers_state \<Rightarrow> 'c workers_state" where
  "clear_assignment work rnd s =
     (let s = (case Assignments s (work, rnd) of
                 None \<Rightarrow> s
               | Some assignment \<Rightarrow>
                   fold (\<lambda>w s. s\<lparr>AssignmentKeys := (AssignmentKeys s)((work, rnd, w) := None),
                               Votes := (Votes s)((work, rnd, w) := None)\<rparr>)
                     assignment (s\<lparr>Assignments := (Assignments s)((work, rnd) := None)\<rparr>))
      in s\<lparr>AssignmentEpochs := (AssignmentEpochs s)((work, rnd) := None)\<rparr>)"

section \<open>Voting\<close>

definition open_voting ::
    "'c workers_env \<Rightarrow> work_id \<Rightarrow> u8 \<Rightarrow> hash \<Rightarrow> block_number \<Rightarrow> 'c workers_state
     \<Rightarrow> ('c, 'c workers_state) workers_res" where
  "open_voting E work rnd candidate_hash deadline s =
     ensure (Assignments s (work, rnd) \<noteq> None) (ModuleError NotAssigned) (
     ensure (VotingRounds s (work, rnd) = None \<and> RoundResults s (work, rnd) = None)
       (ModuleError VotingAlreadyOpen) (
     ensure (deadline > block_no s) (ModuleError VoteExpired) (
     ok_or (try_push (unat (MaxOpenVotes E)) (work, rnd) (OpenVoteRounds s)) (ModuleError TooManyOpenVotes)
       (\<lambda>rounds.
     ok_or (AssignmentEpochs s (work, rnd)) (ModuleError NotAssigned) (\<lambda>epoch.
     Ok (s\<lparr>OpenVoteRounds := rounds,
           VotingRounds := (VotingRounds s)((work, rnd) \<mapsto>
             \<lparr>vg_assignment_epoch = epoch, vg_candidate_hash = candidate_hash, vg_deadline = deadline,
              vg_support = 0, vg_oppose = 0, vg_responses = 0, vg_locked = None\<rparr>)\<rparr>))))))"

definition open_vote_task :: "'c workers_state \<Rightarrow> work_id \<times> u8 \<Rightarrow> worker_vote_task option" where
  "open_vote_task s = (\<lambda>(work, rnd).
     (case VotingRounds s (work, rnd) of None \<Rightarrow> None | Some voting \<Rightarrow>
     (case Assignments s (work, rnd) of None \<Rightarrow> None | Some assignment \<Rightarrow>
     (case try_bounded VOTE_ASSIGNMENTS_BOUND assignment of None \<Rightarrow> None | Some assigned \<Rightarrow>
     (case try_bounded VOTE_ASSIGNMENTS_BOUND
             (filter (\<lambda>w. Votes s (work, rnd, w) \<noteq> None) assignment) of None \<Rightarrow> None | Some submitted \<Rightarrow>
      Some \<lparr>vt_work_id = work, vt_round = rnd, vt_assignment_epoch = vg_assignment_epoch voting,
            vt_candidate_report_hash = vg_candidate_hash voting, vt_deadline = vg_deadline voting,
            vt_assigned_workers = assigned, vt_submitted_votes = submitted\<rparr>)))))"

definition open_vote_tasks :: "'c workers_state \<Rightarrow> worker_vote_task list" where
  "open_vote_tasks s = List.map_filter (open_vote_task s) (OpenVoteRounds s)"

definition validate_worker_vote ::
    "'c workers_env \<Rightarrow> worker_id \<Rightarrow> worker_vote \<Rightarrow> bytes \<Rightarrow> 'c workers_state \<Rightarrow> ('c, unit) workers_res" where
  "validate_worker_vote E worker_id vote signature s =
     (let work = v_work_id vote; rnd = v_round vote in
     ok_or (VotingRounds s (work, rnd)) (ModuleError VotingNotOpen) (\<lambda>voting.
     ok_or (Assignments s (work, rnd)) (ModuleError NotAssigned) (\<lambda>assignment.
     ensure (worker_id \<in> set assignment) (ModuleError NotAssigned) (
     ensure (Votes s (work, rnd, worker_id) = None) (ModuleError AlreadyVoted) (
     ensure (block_no s \<le> vg_deadline voting) (ModuleError VoteExpired) (
     ensure (v_assignment_epoch vote = vg_assignment_epoch voting
             \<and> v_candidate_report_hash vote = vg_candidate_hash voting
             \<and> v_deadline vote = vg_deadline voting
             \<and> v_chain_id vote = ChainId E
             \<and> v_protocol_version vote = ProtocolVersion E) (ModuleError VoteMismatch) (
     ok_or (AssignmentKeys s (work, rnd, worker_id)) (ModuleError NotAssigned) (\<lambda>session_key.
     ensure (sr25519_verify E signature (vote_signing_hash (blake2_256 E) (encode_vote E) vote) session_key)
       (ModuleError InvalidSignature) (
     Ok ())))))))))"

text \<open>The loop of \<open>finalize_voting_inner\<close> over the assignment: a reward or a slash per worker.\<close>

definition settle_worker ::
    "'c workers_env \<Rightarrow> work_id \<Rightarrow> u8 \<Rightarrow> worker_id \<Rightarrow> 'c workers_state \<Rightarrow> ('c, 'c workers_state) workers_res" where
  "settle_worker E work rnd w s =
     ok_or (worker_of s w) (ModuleError NotRegistered) (\<lambda>worker.
     if Votes s (work, rnd, w) \<noteq> None
     then with_currency (cur_transfer (Currency E) Preserve (RewardPool E) (w_owner worker)
              (TimelyVoteReward E) (balances s)) s (\<lambda>s.
            Ok (deposit_event (VoteRewardPaid w (TimelyVoteReward E)) s))
     else
       let proportional = AbsenceSlash E (w_active_stake worker);
           requested = min (max proportional (MinimumAbsenceSlash E)) (w_active_stake worker);
           (credit, remainder, c) = cur_slash (Currency E) WorkerStake (w_owner worker) requested (balances s);
           actual = requested - remainder
       in ok_or (cur_resolve (Currency E) (RewardPool E) credit c)
            (OtherError ''reward pool cannot receive slash'') (\<lambda>c.
          let s = s\<lparr>balances := c\<rparr>;
              s = (case worker_of s w of
                     None \<Rightarrow> s
                   | Some r \<Rightarrow> insert_worker w (r\<lparr>w_active_stake := w_active_stake r - actual\<rparr>) s)
          in Ok (deposit_event (WorkerSlashed w actual) s)))"

primrec settle_workers ::
    "'c workers_env \<Rightarrow> work_id \<Rightarrow> u8 \<Rightarrow> worker_id list \<Rightarrow> 'c workers_state \<Rightarrow> ('c, 'c workers_state) workers_res" where
  "settle_workers E work rnd [] s = Ok s"
| "settle_workers E work rnd (w # ws) s =
     bind_res (settle_worker E work rnd w s) (settle_workers E work rnd ws)"

definition finalize_voting ::
    "'c workers_env \<Rightarrow> work_id \<Rightarrow> u8 \<Rightarrow> 'c workers_state \<Rightarrow> ('c, 'c workers_state) workers_res" where
  "finalize_voting E work rnd s =
     ok_or (VotingRounds s (work, rnd)) (ModuleError VotingNotOpen) (\<lambda>voting.
     let s = s\<lparr>VotingRounds := (VotingRounds s)((work, rnd) := None)\<rparr> in
     ok_or (Assignments s (work, rnd)) (ModuleError NotAssigned) (\<lambda>assignment.
     bind_res (settle_workers E work rnd assignment s) (\<lambda>s.
     case try_bounded (unat (WorkersPerWork E)) (filter (\<lambda>w. Votes s (work, rnd, w) = None) assignment) of
       None \<Rightarrow> Panic
     | Some absentees \<Rightarrow>
         Ok (deposit_event (VotingFinalized work rnd (vg_locked voting))
           (s\<lparr>RoundResults := (RoundResults s)((work, rnd) \<mapsto>
                \<lparr>rr_decision = vg_locked voting, rr_absentees = absentees\<rparr>),
              OpenVoteRounds := remove_first (\<lambda>key. key = (work, rnd)) (OpenVoteRounds s)\<rparr>)))))"

definition count_vote :: "'c workers_env \<Rightarrow> verdict \<Rightarrow> voting_round \<Rightarrow> voting_round" where
  "count_vote E verdict voting =
     (let voting = (case verdict of
            Support \<Rightarrow> voting\<lparr>vg_support := saturating_add (vg_support voting) 1\<rparr>
          | Oppose _ \<Rightarrow> voting\<lparr>vg_oppose := saturating_add (vg_oppose voting) 1\<rparr>);
          voting = voting\<lparr>vg_responses := saturating_add (vg_responses voting) 1\<rparr>
      in if vg_locked voting = None
         then if vg_support voting \<ge> SupportThreshold E then voting\<lparr>vg_locked := Some AcceptedRound\<rparr>
              else if vg_oppose voting \<ge> OpposeThreshold E then voting\<lparr>vg_locked := Some RejectedRound\<rparr>
              else voting
         else voting)"

definition submit_vote ::
    "'c workers_env \<Rightarrow> origin \<Rightarrow> worker_id \<Rightarrow> worker_vote \<Rightarrow> bytes \<Rightarrow> 'c workers_state
     \<Rightarrow> ('c, 'c workers_state) workers_res" where
  "submit_vote E origin worker_id vote signature s =
     (let work = v_work_id vote; rnd = v_round vote in
     ensure (origin \<noteq> RootOrigin) BadOrigin (
     bind_res (validate_worker_vote E worker_id vote signature s) (\<lambda>_.
     ok_or (Assignments s (work, rnd)) (ModuleError NotAssigned) (\<lambda>assignment.
     ok_or (VotingRounds s (work, rnd)) (ModuleError VotingNotOpen) (\<lambda>voting.
     let voting = count_vote E (v_verdict vote) voting;
         s = deposit_event (VoteSubmitted work rnd worker_id)
               (s\<lparr>Votes := (Votes s)((work, rnd, worker_id) \<mapsto> v_verdict vote),
                  VotingRounds := (VotingRounds s)((work, rnd) \<mapsto> voting)\<rparr>)
     in if vg_responses voting \<ge> of_nat (length assignment)
        then finalize_voting E work rnd s
        else Ok s)))))"

definition submit_equivocation ::
    "'c workers_env \<Rightarrow> origin \<Rightarrow> worker_id \<Rightarrow> worker_vote \<Rightarrow> bytes \<Rightarrow> worker_vote \<Rightarrow> bytes
     \<Rightarrow> 'c workers_state \<Rightarrow> ('c, 'c workers_state) workers_res" where
  "submit_equivocation E origin worker_id first first_signature second second_signature s =
     (let signing_hash = vote_signing_hash (blake2_256 E) (encode_vote E) in
     ensure_signed origin (\<lambda>_.
     ensure (v_work_id first = v_work_id second \<and> v_round first = v_round second
             \<and> v_assignment_epoch first = v_assignment_epoch second
             \<and> v_deadline first = v_deadline second
             \<and> v_chain_id first = ChainId E \<and> v_chain_id second = ChainId E
             \<and> v_protocol_version first = ProtocolVersion E
             \<and> v_protocol_version second = ProtocolVersion E
             \<and> signing_hash first \<noteq> signing_hash second) (ModuleError InvalidEquivocationProof) (
     let proof_key = (v_work_id first, v_round first, worker_id) in
     ensure (Equivocations s proof_key = None) (ModuleError EquivocationAlreadyReported) (
     ok_or (AssignmentKeys s proof_key) (ModuleError NotAssigned) (\<lambda>session_key.
     ensure (sr25519_verify E first_signature (signing_hash first) session_key
             \<and> sr25519_verify E second_signature (signing_hash second) session_key)
       (ModuleError InvalidSignature) (
     ok_or (worker_of s worker_id) (ModuleError NotRegistered) (\<lambda>worker.
     let requested = EquivocationSlash E (w_active_stake worker);
         (credit, remainder, c) = cur_slash (Currency E) WorkerStake (w_owner worker) requested (balances s);
         actual = requested - remainder
     in ok_or (cur_resolve (Currency E) (RewardPool E) credit c)
          (OtherError ''reward pool cannot receive slash'') (\<lambda>c.
        let suspended = saturating_add (CurrentEpoch s) (EquivocationSuspension E);
            s = insert_worker worker_id (worker\<lparr>w_active_stake := w_active_stake worker - actual,
                  w_suspended_until := suspended\<rparr>) (s\<lparr>balances := c\<rparr>);
            s = s\<lparr>Equivocations := (Equivocations s)(proof_key \<mapsto> ())\<rparr>
        in Ok (deposit_event (EquivocationProven (v_work_id first) (v_round first) worker_id actual suspended) s)))))))))"

section \<open>Unsigned votes in the transaction pool\<close>

datatype invalid_transaction = BadProof | InvalidCall

record valid_transaction =
  tx_priority :: u64
  tx_provides :: bytes
  tx_longevity :: u64
  tx_propagate :: bool

definition validate_unsigned_vote ::
    "'c workers_env \<Rightarrow> worker_id \<Rightarrow> worker_vote \<Rightarrow> bytes \<Rightarrow> 'c workers_state
     \<Rightarrow> (invalid_transaction, valid_transaction) outcome" where
  "validate_unsigned_vote E worker_id vote signature s =
     bind_res (map_err (\<lambda>_. BadProof) (validate_worker_vote E worker_id vote signature s)) (\<lambda>_.
     Ok \<lparr>tx_priority = 100,
         tx_provides = encode_vote_tag E (v_work_id vote) (v_round vote) worker_id,
         tx_longevity = ucast (max (saturating_sub (v_deadline vote) (block_no s)) 1),
         tx_propagate = True\<rparr>)"

text \<open>The calls of the pallet, their dispatch, and which of them may be unsigned.\<close>

datatype workers_call =
    CallRegister bytes balance
  | CallScheduleUpdate "bytes option" "balance option"
  | CallSubmitVote worker_id worker_vote bytes
  | CallSubmitEquivocation worker_id worker_vote bytes worker_vote bytes

fun workers_dispatch ::
    "'c workers_env \<Rightarrow> origin \<Rightarrow> workers_call \<Rightarrow> 'c workers_state \<Rightarrow> ('c, 'c workers_state) workers_res" where
  "workers_dispatch E origin (CallRegister session_key stake) s = register E origin session_key stake s"
| "workers_dispatch E origin (CallScheduleUpdate session_key stake) s =
     schedule_update E origin session_key stake s"
| "workers_dispatch E origin (CallSubmitVote worker_id vote signature) s =
     submit_vote E origin worker_id vote signature s"
| "workers_dispatch E origin (CallSubmitEquivocation worker_id first first_sig second second_sig) s =
     submit_equivocation E origin worker_id first first_sig second second_sig s"

fun validate_unsigned ::
    "'c workers_env \<Rightarrow> workers_call \<Rightarrow> 'c workers_state \<Rightarrow> (invalid_transaction, valid_transaction) outcome" where
  "validate_unsigned E (CallSubmitVote worker_id vote signature) s =
     validate_unsigned_vote E worker_id vote signature s"
| "validate_unsigned E _ s = Err InvalidCall"

section \<open>Block initialisation\<close>

text \<open>\<open>let _ = Self::finalize_voting(..)\<close>: an error leaves the state as it was.\<close>

definition finalize_due ::
    "'c workers_env \<Rightarrow> block_number \<Rightarrow> work_id \<times> u8 \<Rightarrow> 'c workers_state \<Rightarrow> (unit, 'c workers_state) outcome" where
  "finalize_due E block = (\<lambda>(work, rnd) s.
     case VotingRounds s (work, rnd) of
       None \<Rightarrow> Ok s
     | Some voting \<Rightarrow>
         if block > vg_deadline voting
         then (case finalize_voting E work rnd s of
                 Ok s' \<Rightarrow> Ok s' | Err _ \<Rightarrow> Ok s | Panic \<Rightarrow> Panic)
         else Ok s)"

primrec finalize_due_list ::
    "'c workers_env \<Rightarrow> block_number \<Rightarrow> (work_id \<times> u8) list \<Rightarrow> 'c workers_state \<Rightarrow> (unit, 'c workers_state) outcome" where
  "finalize_due_list E block [] s = Ok s"
| "finalize_due_list E block (k # ks) s = bind_res (finalize_due E block k s) (finalize_due_list E block ks)"

definition finalize_due_votes ::
    "'c workers_env \<Rightarrow> block_number \<Rightarrow> 'c workers_state \<Rightarrow> (unit, 'c workers_state) outcome" where
  "finalize_due_votes E block s = finalize_due_list E block (OpenVoteRounds s) s"

text \<open>\<open>let _ = eligible.try_push(..)\<close>: a push beyond the bound is dropped.\<close>

definition push_eligible ::
    "'c workers_env \<Rightarrow> epoch_index \<Rightarrow> worker_id \<times> worker \<Rightarrow> (worker_id \<times> balance) list
     \<Rightarrow> (worker_id \<times> balance) list" where
  "push_eligible E epoch = (\<lambda>(worker_id, worker) eligible.
     if w_effective_epoch worker \<le> epoch \<and> w_suspended_until worker \<le> epoch
     then (case try_push (unat (MaxCandidates E)) (worker_id, w_active_stake worker) eligible of
             Some e \<Rightarrow> e | None \<Rightarrow> eligible)
     else eligible)"

definition epoch_snapshot ::
    "'c workers_env \<Rightarrow> epoch_index \<Rightarrow> 'c workers_state \<Rightarrow> worker_id list" where
  "epoch_snapshot E epoch s =
     map fst (take (unat (TopWorkers E))
       (sort_key stake_order (fold (push_eligible E epoch) (iter_entries E (Workers s)) [])))"

definition workers_on_initialize ::
    "'c workers_env \<Rightarrow> block_number \<Rightarrow> 'c workers_state \<Rightarrow> (unit, 'c workers_state) outcome" where
  "workers_on_initialize E block s =
     bind_res (finalize_due_votes E block s) (\<lambda>s.
     if EpochLength E = 0 then Ok s
     else if block = 0 \<or> (ucast block :: u64) mod ucast (EpochLength E) \<noteq> 0 then Ok s
     else
       let epoch = saturating_add (CurrentEpoch s) 1;
           s = release_mature_unbonding E epoch (apply_pending_updates E epoch s)
       in case try_bounded (unat (TopWorkers E)) (epoch_snapshot E epoch s) of
            None \<Rightarrow> Panic
          | Some workers \<Rightarrow>
              Ok (deposit_event (EpochSnapshot epoch workers)
                    (s\<lparr>CurrentEpoch := epoch, ActiveWorkers := workers\<rparr>)))"

end
