(* ===== verification/MiniJam_State.thy ===== *)
theory MiniJam_State
  imports Workers_Pallet StateAdapter
begin

text \<open>
  The pallet \<open>pallets/minijam\<close>: its data, configuration, storage, genesis, view functions and
  administrative calls.  The state record has one field per storage item and contains the state of
  the workers pallet, which also holds the block number, the block hashes and the balances.
  Parameters of the environment stand for code outside the repository: the executor
  (\<open>jx_execute\<close>, \<open>jx_project_report\<close>, \<open>jx_validate_preimage\<close>), the SCALE and JAM codecs, and the
  JAM state-key derivation.  The runtime gives both pallets the same currency.
\<close>

section \<open>Data\<close>

definition ALLOCATION_SYSTEM_SENDER :: account where
  "ALLOCATION_SYSTEM_SENDER = replicate 32 0xa1"

definition ALLOCATION_RECEIPT_PREFIX :: bytes where
  "ALLOCATION_RECEIPT_PREFIX = ascii ''system/allocation/''"

definition SYSTEM_SERVICE_ID :: u32 where "SYSTEM_SERVICE_ID = 0"

definition SYSTEM_STORAGE_RECEIPT_PREFIX :: bytes where
  "SYSTEM_STORAGE_RECEIPT_PREFIX = ascii ''system/receipt/''"

record service_fuel_account =
  fa_available :: balance
  fa_reserved :: balance

definition default_fuel_account :: service_fuel_account where
  "default_fuel_account = \<lparr>fa_available = 0, fa_reserved = 0\<rparr>"

record service_fuel_reservation =
  fr_service_id :: u32
  fr_refine_limit :: u64
  fr_accumulate_limit :: u64
  fr_reserved :: balance

record allocation =
  al_allocation_id :: u64
  al_target_service :: u32
  al_amount :: balance

record pending_allocation =
  pa_submitter :: account
  pa_allocation :: allocation

datatype allocation_status = AllocationPending | AllocationDone

record allocation_receipt =
  ar_allocation :: allocation
  ar_status :: allocation_status

record work_fuel_settlement =
  fs_charged :: balance
  fs_refunded :: balance

datatype work_status =
  StInsufficientWorkers | StAwaitingCandidate | StVoting | StAccepted | StImported | StFailed

record execution_item =
  ei_work_id :: work_id
  ei_execute_at :: block_number

record work_record =
  wr_owner :: account
  wr_package_hash :: hash
  wr_canonical_work_package :: bytes
  wr_bundle_ref :: content_ref
  wr_fuel_reservation :: "service_fuel_reservation list"
  wr_round :: u8
  wr_status :: work_status
  wr_candidate_deadline :: block_number

record candidate_record =
  cd_submitter :: account
  cd_envelope :: report_envelope
  cd_vote_deadline :: block_number

record preimage_key =
  pk_requester :: u32
  pk_blob_hash :: hash
  pk_blob_len :: u32

definition preimage_key_of :: "preimage_metadata \<Rightarrow> preimage_key" where
  "preimage_key_of metadata =
     \<lparr>pk_requester = pm_requester metadata, pk_blob_hash = pm_blob_hash metadata,
      pk_blob_len = pm_blob_len metadata\<rparr>"

record pending_preimage =
  pp_submitter :: account
  pp_canonical :: bytes
  pp_metadata :: preimage_metadata

record pending_system_op =
  ps_submitter :: account
  ps_op :: system_op

datatype execution_error_code =
  EcOutOfGas | EcTrap | EcServiceFailure | EcInvalidInput | EcInvalidOutput | EcGasExceeded | EcDeltaTooLarge

fun error_code_of :: "execution_outcome \<Rightarrow> execution_error_code" where
  "error_code_of OutOfGas = EcOutOfGas"
| "error_code_of Trap = EcTrap"
| "error_code_of ServiceFailure = EcServiceFailure"

record quarantined_system_op =
  qs_submitter :: account
  qs_op :: system_op
  qs_canonical_hash :: hash
  qs_error_code :: execution_error_code
  qs_block_number :: block_number
  qs_retryable :: bool

record quarantined_preimage =
  qp_submitter :: account
  qp_metadata :: preimage_metadata
  qp_canonical_hash :: hash
  qp_error_code :: execution_error_code
  qp_block_number :: block_number
  qp_retryable :: bool

record block_stf_summary =
  bs_report_count :: u32
  bs_preimage_count :: u32
  bs_system_op_count :: u32
  bs_receipt_hash :: hash

text \<open>
  What the pallet reads of the JAM types \<open>WorkPackage\<close> and \<open>WorkReport\<close> of the crate
  \<open>jp_core_primitives\<close>; the refine context is kept as its encoding.
\<close>

record work_item =
  wi_service :: u32
  wi_code_hash :: hash
  wi_refine_gas_limit :: u64
  wi_accumulate_gas_limit :: u64

record work_package =
  wp_items :: "work_item list"
  wp_context :: bytes

record work_result =
  wres_service_id :: u32
  wres_refine_gas_used :: u64
  wres_accumulate_gas :: u64

record work_report =
  wrep_package_hash :: hash
  wrep_results :: "work_result list"

section \<open>Configuration, events, errors and storage\<close>

record 'c minijam_env =
  wenv :: "'c workers_env"
  jam_ChainId :: hash
  WorkDepositAmount :: balance
  CandidateBondAmount :: balance
  CandidateRejectionSlash :: balance
  AcceptedSubmitterReward :: balance
  jam_RewardPool :: account
  FuelEscrowAccount :: account
  RefineGasPrice :: balance
  AccumulateGasPrice :: balance
  MaxPendingAllocations :: u32
  ReportSubmissionDeadline :: u32
  VoteWindow :: u32
  MaxCandidateRounds :: u8
  MaxPendingWorks :: u32
  MaxExecutionReports :: u32
  MaxExecutionGas :: u64
  MaxBundleBytes :: u64
  MaxServicesPerWork :: u32
  MaxPendingPreimages :: u32
  MaxPendingSystemOps :: u32
  jx_execute :: "execution_input \<Rightarrow> state_reader \<Rightarrow> (minijam_error, execution_output) outcome"
  jx_project_report :: "bytes \<Rightarrow> (minijam_error, report_projection) outcome"
  jx_validate_preimage :: "bytes \<Rightarrow> state_reader \<Rightarrow> (minijam_error, preimage_metadata) outcome"
  decode_work_package_prefix :: "bytes \<Rightarrow> (work_package \<times> bytes) option"
  decode_work_report_prefix :: "bytes \<Rightarrow> (work_report \<times> bytes) option"
  decode_min_memo_gas :: "bytes \<Rightarrow> u64 option"
  encode_allocation :: "allocation \<Rightarrow> bytes"
  decode_allocation_prefix :: "bytes \<Rightarrow> (allocation \<times> bytes) option"
  encode_system_command :: "system_command \<Rightarrow> bytes"
  encode_system_op :: "system_op \<Rightarrow> bytes"
  encoded_changes_size :: "state_change list \<Rightarrow> nat"
  encode_account :: "account \<Rightarrow> bytes"
  encode_block_hash :: "hash \<Rightarrow> bytes"
  encode_state_root_input :: "bytes \<Rightarrow> hash \<Rightarrow> bytes"
  encode_entropy_input :: "bytes \<Rightarrow> block_number \<Rightarrow> bytes"
  service_storage_key :: "u32 \<Rightarrow> bytes \<Rightarrow> state_key"
  preimage_state_key :: "u32 \<Rightarrow> hash \<Rightarrow> state_key"
  alloc_iter_order :: "u64 list \<Rightarrow> u64 list"

abbreviation jam_hash :: "'c minijam_env \<Rightarrow> bytes \<Rightarrow> hash" where
  "jam_hash M \<equiv> blake2_256 (wenv M)"

datatype minijam_event =
    IngressRelayerChanged "account option" account
  | AllocationRelayerChanged "account option" account
  | WorkSubmitted work_id account hash content_ref work_status
  | WorkFuelReserved work_id balance
  | WorkFuelReleased work_id balance
  | WorkFuelSettled work_id balance balance
  | AllocationQueued u64 u32 balance
  | AllocationProcessed u64 u32 balance
  | CandidateSubmitted work_id u8 account hash
  | CandidateAccepted work_id u8
  | CandidateRejected work_id u8
  | WorkRoundAdvanced work_id u8 work_status
  | WorkFailed work_id
  | ReportImported work_id hash
  | PreimageQueued u32 hash u32
  | PreimageFailed u32 hash u32 execution_error_code
  | SystemOpQueued hash account
  | SystemOpConsumed hash
  | SystemOpFailed hash execution_outcome
  | SystemOpDropped hash
  | SystemOpRetried hash
  | SystemOpQuarantineCleared u32
  | ServiceFunded account u32 balance balance
  | ExecutionYielded work_id execution_outcome
  | ImportPaused bool
  | BlockStfExecuted u32 u32 u32 u32 hash
  | ExecutionQueueQuarantined u32

datatype jam_error =
    IngressRelayerNotConfigured | UnauthorizedIngress | WorkIdOverflow | TooManyPendingWorks
  | InvalidWorkPackage | DuplicateWorkPackage | InvalidContentRef | TooManyServicesPerWork
  | InsufficientServiceFuel | WorkNotFound | CandidateNotExpected | CandidateAlreadySubmitted
  | CandidateDeadlineExpired | InvalidEnvelope | InvalidReportHash | InvalidReportProjection
  | CandidateSubmitterNotWorker | CandidateSubmitterNotAssigned | CandidateProducerNotSelected
  | VotingSetupFailed | InconsistentState | ExecutionQueueFull | InvalidPreimage
  | DuplicatePendingPreimage | TooManyPendingPreimages | InvalidSystemOp
  | DuplicatePendingSystemOp | TooManyPendingSystemOps | QuarantinedSystemOpNotFound
  | UnknownService | ZeroFuelAmount | FuelEscrowInvariant | FuelSettlementInvariant
  | AllocationRelayerNotConfigured | UnauthorizedAllocation | ZeroAllocation
  | DuplicateAllocation | TooManyPendingAllocations | AllocationNotFound
  | AllocationAmountOverflow | AllocationTransitionNotConfirmed

record 'c minijam_state =
  wk :: "'c workers_state"
  IngressRelayer :: "account option"
  AllocationRelayer :: "account option"
  NextWorkId :: work_id
  Works :: "work_id \<rightharpoonup> work_record"
  WorkByPackageHash :: "hash \<rightharpoonup> work_id"
  Candidates :: "work_id \<times> u8 \<rightharpoonup> candidate_record"
  PendingWorks :: "work_id list"
  ExecutionQueue :: "execution_item list"
  QuarantinedExecutionQueue :: "execution_item list"
  ProtocolState :: "state_key \<rightharpoonup> bytes"
  ExecutionReceipts :: "work_id \<rightharpoonup> hash"
  LastExecutionReceipt :: "hash option"
  ReportImportPaused :: bool
  PreimageImportPaused :: bool
  SystemOpsPaused :: bool
  PendingPreimages :: "pending_preimage list"
  PendingPreimageKeys :: "preimage_key \<rightharpoonup> unit"
  QuarantinedPreimages :: "quarantined_preimage list"
  PendingSystemOps :: "pending_system_op list"
  QuarantinedSystemOps :: "quarantined_system_op list"
  PendingSystemOpKeys :: "hash \<rightharpoonup> unit"
  SystemOpNonces :: "account \<Rightarrow> u64"
  PendingAllocations :: "(u64 \<times> pending_allocation) list"
  ProcessedAllocations :: "u64 \<rightharpoonup> unit"
  AllocationReceipts :: "u64 \<rightharpoonup> allocation_receipt"
  PendingAllocationCount :: u32
  ServiceFuelAccounts :: "u32 \<Rightarrow> service_fuel_account"
  TotalServiceFuel :: balance
  WorkFuelSettlements :: "work_id \<rightharpoonup> work_fuel_settlement"
  jam_events :: "minijam_event list"

type_synonym 'a jam_res = "(jam_error dispatch_error, 'a) outcome"

abbreviation block_number_of :: "'c minijam_state \<Rightarrow> block_number" where
  "block_number_of m \<equiv> block_no (wk m)"

abbreviation allocation_of :: "'c minijam_state \<Rightarrow> u64 \<Rightarrow> pending_allocation option" where
  "allocation_of m \<equiv> alist_get (PendingAllocations m)"

definition jam_event :: "minijam_event \<Rightarrow> 'c minijam_state \<Rightarrow> 'c minijam_state" where
  "jam_event e m = m\<lparr>jam_events := jam_events m @ [e]\<rparr>"

definition put_work :: "work_id \<Rightarrow> work_record \<Rightarrow> 'c minijam_state \<Rightarrow> 'c minijam_state" where
  "put_work i w m = m\<lparr>Works := (Works m)(i \<mapsto> w)\<rparr>"

text \<open>Balances live in the workers part of the state.\<close>

definition put_balances :: "'c \<Rightarrow> 'c minijam_state \<Rightarrow> 'c minijam_state" where
  "put_balances c m = m\<lparr>wk := (wk m)\<lparr>balances := c\<rparr>\<rparr>"

definition jam_currency ::
    "'c option \<Rightarrow> 'c minijam_state \<Rightarrow> ('c minijam_state \<Rightarrow> 'a jam_res) \<Rightarrow> 'a jam_res" where
  "jam_currency c m k = ok_or c CurrencyError (\<lambda>c'. k (put_balances c' m))"

text \<open>\<open>let _ = f(..)\<close> for a fallible function whose error leaves the state as it was.\<close>

definition ignore_err :: "('e, 's) outcome \<Rightarrow> 's \<Rightarrow> ('f, 's) outcome" where
  "ignore_err r s = (case r of Ok t \<Rightarrow> Ok t | Err _ \<Rightarrow> Ok s | Panic \<Rightarrow> Panic)"

section \<open>State keys\<close>

definition service_info_state_key :: "u32 \<Rightarrow> state_key" where
  "service_info_state_key service_id =
     (let service = to_le_bytes 4 service_id
      in (replicate 31 0)[0 := 0xff, 1 := service ! 0, 3 := service ! 1, 5 := service ! 2, 7 := service ! 3])"

definition system_receipt_state_key :: "'c minijam_env \<Rightarrow> hash \<Rightarrow> state_key" where
  "system_receipt_state_key M request_id =
     service_storage_key M SYSTEM_SERVICE_ID (SYSTEM_STORAGE_RECEIPT_PREFIX @ request_id)"

definition allocation_receipt_state_key :: "'c minijam_env \<Rightarrow> u64 \<Rightarrow> state_key" where
  "allocation_receipt_state_key M allocation_id =
     service_storage_key M SYSTEM_SERVICE_ID (ALLOCATION_RECEIPT_PREFIX @ to_le_bytes 8 allocation_id)"

definition service_exists :: "'c minijam_state \<Rightarrow> u32 \<Rightarrow> bool" where
  "service_exists m service_id \<longleftrightarrow> ProtocolState m (service_info_state_key service_id) \<noteq> None"

definition host_parent_hash :: "'c minijam_env \<Rightarrow> 'c minijam_state \<Rightarrow> block_number \<Rightarrow> hash" where
  "host_parent_hash M m block =
     jam_hash M (encode_block_hash M (block_hash (wk m) (saturating_sub block 1)))"

definition host_parent_state_root :: "'c minijam_env \<Rightarrow> 'c minijam_state \<Rightarrow> block_number \<Rightarrow> hash" where
  "host_parent_state_root M m block =
     jam_hash M (encode_state_root_input M (ascii ''minijam/parent-state-root'') (host_parent_hash M m block))"

definition host_entropy :: "'c minijam_env \<Rightarrow> block_number \<Rightarrow> hash" where
  "host_entropy M block = jam_hash M (encode_entropy_input M (ascii ''minijam/host-entropy'') block)"

definition system_op_sender :: "'c minijam_env \<Rightarrow> account \<Rightarrow> account" where
  "system_op_sender M who = jam_hash M (encode_account M who)"

section \<open>Genesis\<close>

record genesis_config =
  gc_protocol_state :: "(bytes \<times> bytes) list"
  gc_service_fuel :: "(u32 \<times> balance) list"
  gc_ingress_relayer :: "account option"
  gc_allocation_relayer :: "account option"

primrec genesis_protocol_state ::
    "(bytes \<times> bytes) list \<Rightarrow> 'c minijam_state \<Rightarrow> (unit, 'c minijam_state) outcome" where
  "genesis_protocol_state [] m = Ok m"
| "genesis_protocol_state (e # es) m =
     (if length (fst e) \<noteq> 31 then Panic
      else case try_bounded BLOB_BOUND (snd e) of
             None \<Rightarrow> Panic
           | Some v \<Rightarrow> genesis_protocol_state es (m\<lparr>ProtocolState := (ProtocolState m)(fst e \<mapsto> v)\<rparr>))"

fun genesis_fuel :: "(u32 \<times> balance) list \<Rightarrow> balance \<Rightarrow> 'c minijam_state \<Rightarrow> 'c minijam_state" where
  "genesis_fuel [] tot m = m\<lparr>TotalServiceFuel := tot\<rparr>"
| "genesis_fuel ((service_id, amount) # es) tot m =
     (if amount = 0 then genesis_fuel es tot m
      else let fuel = ServiceFuelAccounts m service_id
           in genesis_fuel es (saturating_add tot amount)
                (m\<lparr>ServiceFuelAccounts := (ServiceFuelAccounts m)(service_id :=
                    fuel\<lparr>fa_available := saturating_add (fa_available fuel) amount\<rparr>)\<rparr>))"

definition minijam_genesis ::
    "genesis_config \<Rightarrow> 'c minijam_state \<Rightarrow> (unit, 'c minijam_state) outcome" where
  "minijam_genesis G m =
     (let m = (case gc_ingress_relayer G of None \<Rightarrow> m | Some a \<Rightarrow> m\<lparr>IngressRelayer := Some a\<rparr>);
          m = (case gc_allocation_relayer G of
                 Some a \<Rightarrow> m\<lparr>AllocationRelayer := Some a\<rparr>
               | None \<Rightarrow> (case gc_ingress_relayer G of
                     None \<Rightarrow> m | Some a \<Rightarrow> m\<lparr>AllocationRelayer := Some a\<rparr>))
      in bind_res (genesis_protocol_state (gc_protocol_state G) m) (\<lambda>m.
         Ok (genesis_fuel (gc_service_fuel G) 0 m)))"

section \<open>View functions\<close>

definition get_work :: "'c minijam_state \<Rightarrow> work_id \<Rightarrow> work_record option" where
  "get_work m i = Works m i"

definition get_work_by_package_hash :: "'c minijam_state \<Rightarrow> hash \<Rightarrow> work_record option" where
  "get_work_by_package_hash m h = (case WorkByPackageHash m h of None \<Rightarrow> None | Some i \<Rightarrow> Works m i)"

definition get_work_bundle_ref :: "'c minijam_state \<Rightarrow> work_id \<Rightarrow> content_ref option" where
  "get_work_bundle_ref m i = map_option wr_bundle_ref (Works m i)"

definition get_candidate :: "'c minijam_state \<Rightarrow> work_id \<Rightarrow> u8 \<Rightarrow> candidate_record option" where
  "get_candidate m i rnd = Candidates m (i, rnd)"

definition get_work_fuel_reservation :: "'c minijam_state \<Rightarrow> work_id \<Rightarrow> service_fuel_reservation list option" where
  "get_work_fuel_reservation m i = map_option wr_fuel_reservation (Works m i)"

definition get_pending_allocations :: "'c minijam_env \<Rightarrow> 'c minijam_state \<Rightarrow> pending_allocation list" where
  "get_pending_allocations M m =
     sort_key (\<lambda>p. al_allocation_id (pa_allocation p))
       (map (\<lambda>k. the (allocation_of m k)) (alloc_iter_order M (map fst (PendingAllocations m))))"

definition has_pending_preimage :: "'c minijam_state \<Rightarrow> u32 \<Rightarrow> hash \<Rightarrow> u32 \<Rightarrow> bool" where
  "has_pending_preimage m requester blob_hash blob_len \<longleftrightarrow>
     PendingPreimageKeys m \<lparr>pk_requester = requester, pk_blob_hash = blob_hash, pk_blob_len = blob_len\<rparr> \<noteq> None"

definition get_system_op :: "'c minijam_state \<Rightarrow> hash \<Rightarrow> system_op option" where
  "get_system_op m request_id =
     map_option ps_op (find (\<lambda>p. op_request_id (ps_op p) = request_id) (PendingSystemOps m))"

definition get_system_receipt :: "'c minijam_env \<Rightarrow> 'c minijam_state \<Rightarrow> hash \<Rightarrow> bytes option" where
  "get_system_receipt M m request_id = ProtocolState m (system_receipt_state_key M request_id)"

definition get_service_info :: "'c minijam_state \<Rightarrow> u32 \<Rightarrow> bytes option" where
  "get_service_info m service_id = ProtocolState m (service_info_state_key service_id)"

definition get_service_storage :: "'c minijam_env \<Rightarrow> 'c minijam_state \<Rightarrow> u32 \<Rightarrow> bytes \<Rightarrow> bytes option" where
  "get_service_storage M m service_id key = ProtocolState m (service_storage_key M service_id key)"

definition get_service_preimage :: "'c minijam_env \<Rightarrow> 'c minijam_state \<Rightarrow> u32 \<Rightarrow> hash \<Rightarrow> bytes option" where
  "get_service_preimage M m service_id h = ProtocolState m (preimage_state_key M service_id h)"

section \<open>Authorisation\<close>

definition ensure_ingress_relayer ::
    "origin \<Rightarrow> 'c minijam_state \<Rightarrow> (account \<Rightarrow> 'a jam_res) \<Rightarrow> 'a jam_res" where
  "ensure_ingress_relayer origin m k =
     ensure_signed origin (\<lambda>who.
     ok_or (IngressRelayer m) (ModuleError IngressRelayerNotConfigured) (\<lambda>expected.
     ensure (who = expected) (ModuleError UnauthorizedIngress) (k who)))"

definition allocation_relayer_account :: "'c minijam_state \<Rightarrow> account option" where
  "allocation_relayer_account m =
     (case AllocationRelayer m of Some a \<Rightarrow> Some a | None \<Rightarrow> IngressRelayer m)"

definition ensure_allocation_relayer ::
    "origin \<Rightarrow> 'c minijam_state \<Rightarrow> (account \<Rightarrow> 'a jam_res) \<Rightarrow> 'a jam_res" where
  "ensure_allocation_relayer origin m k =
     ensure_signed origin (\<lambda>who.
     ok_or (allocation_relayer_account m) (ModuleError AllocationRelayerNotConfigured) (\<lambda>expected.
     ensure (who = expected) (ModuleError UnauthorizedAllocation) (k who)))"

section \<open>Administrative calls\<close>

definition pause_execution :: "origin \<Rightarrow> bool \<Rightarrow> 'c minijam_state \<Rightarrow> 'c minijam_state jam_res" where
  "pause_execution origin paused m =
     ensure_root origin (Ok (jam_event (ImportPaused paused)
       (m\<lparr>ReportImportPaused := paused, PreimageImportPaused := paused, SystemOpsPaused := paused\<rparr>)))"

definition quarantine_pending :: "origin \<Rightarrow> 'c minijam_state \<Rightarrow> 'c minijam_state jam_res" where
  "quarantine_pending origin m =
     ensure_root origin (
       let queue = ExecutionQueue m
       in Ok (jam_event (ExecutionQueueQuarantined (of_nat (length queue)))
            (m\<lparr>ExecutionQueue := [], QuarantinedExecutionQueue := queue\<rparr>)))"

definition set_ingress_relayer :: "origin \<Rightarrow> account \<Rightarrow> 'c minijam_state \<Rightarrow> 'c minijam_state jam_res" where
  "set_ingress_relayer origin new_relayer m =
     ensure_root origin (Ok (jam_event (IngressRelayerChanged (IngressRelayer m) new_relayer)
       (m\<lparr>IngressRelayer := Some new_relayer\<rparr>)))"

definition set_allocation_relayer :: "origin \<Rightarrow> account \<Rightarrow> 'c minijam_state \<Rightarrow> 'c minijam_state jam_res" where
  "set_allocation_relayer origin new_relayer m =
     ensure_root origin (Ok (jam_event (AllocationRelayerChanged (AllocationRelayer m) new_relayer)
       (m\<lparr>AllocationRelayer := Some new_relayer\<rparr>)))"

definition drop_quarantined_system_op :: "origin \<Rightarrow> hash \<Rightarrow> 'c minijam_state \<Rightarrow> 'c minijam_state jam_res" where
  "drop_quarantined_system_op origin request_id m =
     ensure_root origin (
     case position (\<lambda>q. op_request_id (qs_op q) = request_id) (QuarantinedSystemOps m) of
       None \<Rightarrow> Err (ModuleError QuarantinedSystemOpNotFound)
     | Some i \<Rightarrow> Ok (jam_event (SystemOpDropped request_id)
         (m\<lparr>QuarantinedSystemOps := swap_remove i (QuarantinedSystemOps m)\<rparr>)))"

definition retry_quarantined_system_op ::
    "'c minijam_env \<Rightarrow> origin \<Rightarrow> hash \<Rightarrow> 'c minijam_state \<Rightarrow> 'c minijam_state jam_res" where
  "retry_quarantined_system_op M origin request_id m =
     ensure_root origin (
     ensure (PendingSystemOpKeys m request_id = None) (ModuleError DuplicatePendingSystemOp) (
     case position (\<lambda>q. op_request_id (qs_op q) = request_id) (QuarantinedSystemOps m) of
       None \<Rightarrow> Err (ModuleError QuarantinedSystemOpNotFound)
     | Some i \<Rightarrow>
         let retry = QuarantinedSystemOps m ! i;
             m = m\<lparr>QuarantinedSystemOps := swap_remove i (QuarantinedSystemOps m)\<rparr>
         in ok_or (try_push (unat (MaxPendingSystemOps M))
                     \<lparr>ps_submitter = qs_submitter retry, ps_op = qs_op retry\<rparr> (PendingSystemOps m))
              (ModuleError TooManyPendingSystemOps) (\<lambda>pending.
            Ok (jam_event (SystemOpRetried request_id)
              (m\<lparr>PendingSystemOps := pending,
                 PendingSystemOpKeys := (PendingSystemOpKeys m)(request_id \<mapsto> ())\<rparr>)))))"

definition clear_quarantined_system_ops :: "origin \<Rightarrow> 'c minijam_state \<Rightarrow> 'c minijam_state jam_res" where
  "clear_quarantined_system_ops origin m =
     ensure_root origin (Ok (jam_event (SystemOpQuarantineCleared (of_nat (length (QuarantinedSystemOps m))))
       (m\<lparr>QuarantinedSystemOps := []\<rparr>)))"

section \<open>Protocol state\<close>

text \<open>\<open>FrameProtocolState\<close>, the reader handed to the executor and the validator.\<close>

definition frame_state :: "'c minijam_state \<Rightarrow> state_reader" where
  "frame_state m k = Ok (ProtocolState m k)"

datatype execution_failure =
    Yielded work_id execution_outcome
  | SystemOpsYielded execution_outcome
  | PreimagesRejected execution_error_code
  | Fatal

definition apply_change ::
    "state_change \<Rightarrow> 'c minijam_state \<Rightarrow> (execution_failure, 'c minijam_state) outcome" where
  "apply_change change m =
     (case ch_operation change of
        Remove \<Rightarrow> Ok (m\<lparr>ProtocolState := (ProtocolState m)(ch_key change := None)\<rparr>)
      | _ \<Rightarrow> ok_or (ch_value change) Fatal (\<lambda>value.
          Ok (m\<lparr>ProtocolState := (ProtocolState m)(ch_key change \<mapsto> value)\<rparr>)))"

primrec apply_delta ::
    "state_change list \<Rightarrow> 'c minijam_state \<Rightarrow> (execution_failure, 'c minijam_state) outcome" where
  "apply_delta [] m = Ok m"
| "apply_delta (c # cs) m = bind_res (apply_change c m) (apply_delta cs)"

text \<open>The storage of the pallet fulfils the contract of a protocol store.\<close>

interpretation chain: protocol_store ProtocolState frame_state apply_change apply_delta
  by unfold_locales
    (auto simp: frame_state_def apply_change_def ok_or_def split: state_operation.split)

end
