(* ===== verification/MiniJam_Queues.thy ===== *)
theory MiniJam_Queues
  imports MiniJam_State
begin

text \<open>
  The queues of \<open>pallets/minijam\<close> that feed the block execution: preimages, system operations and
  allocations, with their submission, batching, consumption and quarantine; and the service fuel
  accounts with the retained fuel settlement code.
\<close>

section \<open>Submission\<close>

definition submit_preimage ::
    "'c minijam_env \<Rightarrow> origin \<Rightarrow> bytes \<Rightarrow> 'c minijam_state \<Rightarrow> 'c minijam_state jam_res" where
  "submit_preimage M origin canonical m =
     ensure_ingress_relayer origin m (\<lambda>submitter.
     bind_res (map_err (\<lambda>_. ModuleError InvalidPreimage) (jx_validate_preimage M canonical (frame_state m))) (\<lambda>metadata.
     let key = preimage_key_of metadata in
     ensure (PendingPreimageKeys m key = None) (ModuleError DuplicatePendingPreimage) (
     ok_or (try_push (unat (MaxPendingPreimages M))
              \<lparr>pp_submitter = submitter, pp_canonical = canonical, pp_metadata = metadata\<rparr>
              (PendingPreimages m)) (ModuleError TooManyPendingPreimages) (\<lambda>pending.
     Ok (jam_event (PreimageQueued (pm_requester metadata) (pm_blob_hash metadata) (pm_blob_len metadata))
          (m\<lparr>PendingPreimages := pending,
             PendingPreimageKeys := (PendingPreimageKeys m)(key \<mapsto> ())\<rparr>))))))"

definition validate_system_command :: "system_command \<Rightarrow> unit jam_res" where
  "validate_system_command command =
     (case command of
        CreateService _ len item_gas memo_gas \<Rightarrow>
          ensure (len > 0) (ModuleError InvalidSystemOp) (
          ensure (item_gas > 0) (ModuleError InvalidSystemOp) (
          ensure (memo_gas > 0) (ModuleError InvalidSystemOp) (Ok ())))
      | ApplyAllocation allocation_id target_service amount \<Rightarrow>
          ensure (allocation_id > 0) (ModuleError InvalidSystemOp) (
          ensure (target_service > 0) (ModuleError InvalidSystemOp) (
          ensure (amount > 0) (ModuleError InvalidSystemOp) (Ok ()))))"

definition submit_system_op ::
    "'c minijam_env \<Rightarrow> origin \<Rightarrow> system_command \<Rightarrow> 'c minijam_state \<Rightarrow> 'c minijam_state jam_res" where
  "submit_system_op M origin command m =
     ensure_ingress_relayer origin m (\<lambda>submitter.
     bind_res (validate_system_command command) (\<lambda>_.
     let sender = system_op_sender M submitter;
         nonce = SystemOpNonces m sender;
         op = new_op (jam_hash M) (encode_system_command M) sender nonce command
     in
     ensure (PendingSystemOpKeys m (op_request_id op) = None) (ModuleError DuplicatePendingSystemOp) (
     ok_or (try_push (unat (MaxPendingSystemOps M)) \<lparr>ps_submitter = submitter, ps_op = op\<rparr> (PendingSystemOps m))
       (ModuleError TooManyPendingSystemOps) (\<lambda>pending.
     Ok (jam_event (SystemOpQueued (op_request_id op) sender)
          (m\<lparr>PendingSystemOps := pending,
             PendingSystemOpKeys := (PendingSystemOpKeys m)(op_request_id op \<mapsto> ()),
             SystemOpNonces := (SystemOpNonces m)(sender := saturating_add nonce 1)\<rparr>))))))"

text \<open>\<open>saturated_into\<close> between the balance type and \<open>u64\<close>.\<close>

definition saturated_u64 :: "balance \<Rightarrow> u64" where
  "saturated_u64 n = (if n > ucast (- 1 :: u64) then - 1 else ucast n)"

definition submit_allocation ::
    "'c minijam_env \<Rightarrow> origin \<Rightarrow> allocation \<Rightarrow> 'c minijam_state \<Rightarrow> 'c minijam_state jam_res" where
  "submit_allocation M origin alloc m =
     ensure_allocation_relayer origin m (\<lambda>submitter.
     ensure (al_amount alloc \<noteq> 0) (ModuleError ZeroAllocation) (
     ensure (ucast (saturated_u64 (al_amount alloc)) = al_amount alloc) (ModuleError AllocationAmountOverflow) (
     ensure (service_exists m (al_target_service alloc)) (ModuleError UnknownService) (
     let allocation_id = al_allocation_id alloc in
     ensure (ProcessedAllocations m allocation_id = None \<and> allocation_of m allocation_id = None)
       (ModuleError DuplicateAllocation) (
     ensure (PendingAllocationCount m < MaxPendingAllocations M) (ModuleError TooManyPendingAllocations) (
     Ok (jam_event (AllocationQueued allocation_id (al_target_service alloc) (al_amount alloc))
          (m\<lparr>PendingAllocations := AList.update allocation_id
                \<lparr>pa_submitter = submitter, pa_allocation = alloc\<rparr> (PendingAllocations m),
             PendingAllocationCount := saturating_add (PendingAllocationCount m) 1,
             AllocationReceipts := (AllocationReceipts m)(allocation_id \<mapsto>
                \<lparr>ar_allocation = alloc, ar_status = AllocationPending\<rparr>)\<rparr>))))))))"

definition fund_service ::
    "'c minijam_env \<Rightarrow> origin \<Rightarrow> u32 \<Rightarrow> balance \<Rightarrow> 'c minijam_state \<Rightarrow> 'c minijam_state jam_res" where
  "fund_service M origin service_id amount m =
     (let C = Currency (wenv M); escrow = FuelEscrowAccount M in
     ensure_signed origin (\<lambda>funder.
     ensure (amount \<noteq> 0) (ModuleError ZeroFuelAmount) (
     ensure (service_exists m service_id) (ModuleError UnknownService) (
     jam_currency (cur_transfer C Preserve funder escrow amount (balances (wk m))) m (\<lambda>m.
     let fuel = ServiceFuelAccounts m service_id;
         fuel = fuel\<lparr>fa_available := saturating_add (fa_available fuel) amount\<rparr>;
         total_fuel = saturating_add (TotalServiceFuel m) amount;
         m = m\<lparr>ServiceFuelAccounts := (ServiceFuelAccounts m)(service_id := fuel),
               TotalServiceFuel := total_fuel\<rparr>
     in
     ensure (cur_balance C escrow (balances (wk m)) \<ge> total_fuel) (ModuleError FuelEscrowInvariant) (
     Ok (jam_event (ServiceFunded funder service_id amount (fa_available fuel)) m)))))))"

section \<open>Batches for the executor\<close>

definition pending_preimage_batch :: "'c minijam_state \<Rightarrow> (execution_failure, bytes list) outcome" where
  "pending_preimage_batch m =
     (let pending = sort_key (\<lambda>p. (pm_requester (pp_metadata p), pm_blob_hash (pp_metadata p),
                                  pm_blob_len (pp_metadata p))) (PendingPreimages m)
      in ok_or (try_bounded PREIMAGE_BATCH_BOUND (map pp_canonical pending)) Fatal Ok)"

definition pending_allocation_inputs :: "'c minijam_env \<Rightarrow> 'c minijam_state \<Rightarrow> bytes list" where
  "pending_allocation_inputs M m =
     map (\<lambda>p. encode_allocation M (pa_allocation p)) (get_pending_allocations M m)"

definition allocation_system_op ::
    "'c minijam_env \<Rightarrow> 'c minijam_state \<Rightarrow> allocation \<Rightarrow> (execution_failure, system_op) outcome" where
  "allocation_system_op M m alloc =
     (let amount = saturated_u64 (al_amount alloc) in
     ensure (ucast amount = al_amount alloc) Fatal (
     ok_or (ProtocolState m (service_info_state_key (al_target_service alloc))) Fatal (\<lambda>service_info.
     ok_or (decode_min_memo_gas M service_info) Fatal (\<lambda>memo_gas.
     ensure (memo_gas \<noteq> 0) Fatal (
     Ok (new_op (jam_hash M) (encode_system_command M) ALLOCATION_SYSTEM_SENDER (al_allocation_id alloc)
          (ApplyAllocation (al_allocation_id alloc) (al_target_service alloc) amount)))))))"

text \<open>The loop over the encoded allocations.\<close>

primrec allocation_ops ::
    "'c minijam_env \<Rightarrow> 'c minijam_state \<Rightarrow> bytes list \<Rightarrow> (execution_failure, system_op list) outcome" where
  "allocation_ops M m [] = Ok []"
| "allocation_ops M m (encoded # rest) =
     ok_or (decode_allocation_prefix M encoded) Fatal (\<lambda>(alloc, raw).
     ensure (raw = []) Fatal (
     bind_res (allocation_system_op M m alloc) (\<lambda>op.
     bind_res (allocation_ops M m rest) (\<lambda>ops.
     Ok (op # ops)))))"

definition pending_system_ops_batch ::
    "'c minijam_env \<Rightarrow> 'c minijam_state \<Rightarrow> (execution_failure, system_op list) outcome" where
  "pending_system_ops_batch M m =
     (let pending = sort_key (\<lambda>p. (op_submitter (ps_op p), op_nonce (ps_op p), op_request_id (ps_op p)))
            (PendingSystemOps m)
      in bind_res (allocation_ops M m (pending_allocation_inputs M m)) (\<lambda>allocations.
         ok_or (try_bounded SYSTEM_OP_BATCH_BOUND (map ps_op pending @ allocations)) Fatal Ok))"

section \<open>Consumption\<close>

text \<open>The effect both consumption functions have once the allocation may be consumed.\<close>

definition mark_processed :: "pending_allocation \<Rightarrow> u64 \<Rightarrow> 'c minijam_state \<Rightarrow> 'c minijam_state" where
  "mark_processed pending allocation_id m =
     jam_event (AllocationProcessed allocation_id (al_target_service (pa_allocation pending))
                  (al_amount (pa_allocation pending)))
       (m\<lparr>PendingAllocations := AList.delete allocation_id (PendingAllocations m),
          ProcessedAllocations := (ProcessedAllocations m)(allocation_id \<mapsto> ()),
          PendingAllocationCount := saturating_sub (PendingAllocationCount m) 1,
          AllocationReceipts := (AllocationReceipts m)(allocation_id \<mapsto>
            \<lparr>ar_allocation = pa_allocation pending, ar_status = AllocationDone\<rparr>)\<rparr>)"

definition consume_allocation ::
    "'c minijam_env \<Rightarrow> u64 \<Rightarrow> 'c minijam_state \<Rightarrow> 'c minijam_state jam_res" where
  "consume_allocation M allocation_id m =
     ensure (ProcessedAllocations m allocation_id = None) (ModuleError DuplicateAllocation) (
     ok_or (ProtocolState m (allocation_receipt_state_key M allocation_id))
       (ModuleError AllocationTransitionNotConfirmed) (\<lambda>receipt.
     ensure (length receipt \<ge> 5 \<and> receipt ! 0 = 0) (ModuleError AllocationTransitionNotConfirmed) (
     ok_or (allocation_of m allocation_id) (ModuleError AllocationNotFound) (\<lambda>pending.
     Ok (mark_processed pending allocation_id m)))))"

definition consume_allocation_after_transition ::
    "u64 \<Rightarrow> 'c minijam_state \<Rightarrow> (execution_failure, 'c minijam_state) outcome" where
  "consume_allocation_after_transition allocation_id m =
     (if ProcessedAllocations m allocation_id \<noteq> None then Err Fatal
      else ok_or (allocation_of m allocation_id) Fatal (\<lambda>pending.
           Ok (mark_processed pending allocation_id m)))"

primrec consume_allocations ::
    "'c minijam_env \<Rightarrow> state_change list \<Rightarrow> pending_allocation list \<Rightarrow> 'c minijam_state
     \<Rightarrow> (execution_failure, 'c minijam_state) outcome" where
  "consume_allocations M changes [] m = Ok m"
| "consume_allocations M changes (pending # rest) m =
     (let allocation_id = al_allocation_id (pa_allocation pending);
          key = allocation_receipt_state_key M allocation_id
      in case find (\<lambda>change. ch_key change = key) changes of
           None \<Rightarrow> consume_allocations M changes rest m
         | Some change \<Rightarrow>
             ok_or (ch_value change) Fatal (\<lambda>value.
             ensure (length value \<ge> 5) Fatal (
             bind_res (if value ! 0 = 0 then consume_allocation_after_transition allocation_id m else Ok m)
               (consume_allocations M changes rest))))"

definition consume_successful_allocations ::
    "'c minijam_env \<Rightarrow> state_change list \<Rightarrow> 'c minijam_state \<Rightarrow> (execution_failure, 'c minijam_state) outcome" where
  "consume_successful_allocations M changes m =
     consume_allocations M changes (get_pending_allocations M m) m"

definition consume_preimages :: "'c minijam_env \<Rightarrow> hash list \<Rightarrow> 'c minijam_state \<Rightarrow> 'c minijam_state" where
  "consume_preimages M consumed m =
     (if consumed = [] then m
      else let (pending, keys) =
                 swap_retain (\<lambda>p. jam_hash M (pp_canonical p) \<in> set consumed)
                   (\<lambda>p keys. keys(preimage_key_of (pp_metadata p) := None))
                   0 (PendingPreimages m) (PendingPreimageKeys m)
           in m\<lparr>PendingPreimages := pending, PendingPreimageKeys := keys\<rparr>)"

definition consume_system_ops :: "hash list \<Rightarrow> 'c minijam_state \<Rightarrow> 'c minijam_state" where
  "consume_system_ops consumed m =
     (if consumed = [] then m
      else let (pending, m) =
                 swap_retain (\<lambda>p. op_request_id (ps_op p) \<in> set consumed)
                   (\<lambda>p m. jam_event (SystemOpConsumed (op_request_id (ps_op p)))
                      (m\<lparr>PendingSystemOpKeys := (PendingSystemOpKeys m)(op_request_id (ps_op p) := None)\<rparr>))
                   0 (PendingSystemOps m) m
           in m\<lparr>PendingSystemOps := pending\<rparr>)"

section \<open>Quarantine\<close>

text \<open>The loops: each entry loses its key, is reported, and is pushed while there is room.\<close>

primrec quarantine_preimages ::
    "'c minijam_env \<Rightarrow> execution_error_code \<Rightarrow> pending_preimage list \<Rightarrow> quarantined_preimage list \<Rightarrow> bool
     \<Rightarrow> 'c minijam_state \<Rightarrow> quarantined_preimage list \<times> bool \<times> 'c minijam_state" where
  "quarantine_preimages M code [] quarantined overflowed m = (quarantined, overflowed, m)"
| "quarantine_preimages M code (p # ps) quarantined overflowed m =
     (let metadata = pp_metadata p;
          m = jam_event (PreimageFailed (pm_requester metadata) (pm_blob_hash metadata) (pm_blob_len metadata) code)
                (m\<lparr>PendingPreimageKeys := (PendingPreimageKeys m)(preimage_key_of metadata := None)\<rparr>);
          record = \<lparr>qp_submitter = pp_submitter p, qp_metadata = metadata,
            qp_canonical_hash = jam_hash M (pp_canonical p), qp_error_code = code,
            qp_block_number = block_number_of m, qp_retryable = False\<rparr>
      in case try_push (unat (MaxPendingPreimages M)) record quarantined of
           None \<Rightarrow> quarantine_preimages M code ps quarantined True m
         | Some q \<Rightarrow> quarantine_preimages M code ps q overflowed m)"

definition quarantine_pending_preimages ::
    "'c minijam_env \<Rightarrow> execution_error_code \<Rightarrow> 'c minijam_state \<Rightarrow> 'c minijam_state" where
  "quarantine_pending_preimages M code m =
     (let pending = PendingPreimages m;
          m = m\<lparr>PendingPreimages := []\<rparr>
      in if pending = [] then m
         else let (quarantined, overflowed, m) =
                    quarantine_preimages M code pending (QuarantinedPreimages m) False m;
                  m = m\<lparr>QuarantinedPreimages := quarantined\<rparr>
              in if overflowed then m\<lparr>PreimageImportPaused := True\<rparr> else m)"

primrec quarantine_ops ::
    "'c minijam_env \<Rightarrow> execution_outcome \<Rightarrow> pending_system_op list \<Rightarrow> quarantined_system_op list \<Rightarrow> bool
     \<Rightarrow> 'c minijam_state \<Rightarrow> quarantined_system_op list \<times> bool \<times> 'c minijam_state" where
  "quarantine_ops M oc [] quarantined overflowed m = (quarantined, overflowed, m)"
| "quarantine_ops M oc (p # ps) quarantined overflowed m =
     (let request_id = op_request_id (ps_op p);
          m = jam_event (SystemOpFailed request_id oc)
                (m\<lparr>PendingSystemOpKeys := (PendingSystemOpKeys m)(request_id := None)\<rparr>);
          record = \<lparr>qs_submitter = ps_submitter p, qs_op = ps_op p,
            qs_canonical_hash = jam_hash M (encode_system_op M (ps_op p)), qs_error_code = error_code_of oc,
            qs_block_number = block_number_of m, qs_retryable = True\<rparr>
      in case try_push (unat (MaxPendingSystemOps M)) record quarantined of
           None \<Rightarrow> quarantine_ops M oc ps quarantined True m
         | Some q \<Rightarrow> quarantine_ops M oc ps q overflowed m)"

definition quarantine_pending_system_ops ::
    "'c minijam_env \<Rightarrow> execution_outcome \<Rightarrow> 'c minijam_state \<Rightarrow> 'c minijam_state" where
  "quarantine_pending_system_ops M oc m =
     (let pending = PendingSystemOps m;
          m = m\<lparr>PendingSystemOps := []\<rparr>
      in if pending = [] then m
         else let (quarantined, overflowed, m) =
                    quarantine_ops M oc pending (QuarantinedSystemOps m) False m;
                  m = m\<lparr>QuarantinedSystemOps := quarantined\<rparr>
              in if overflowed then m\<lparr>SystemOpsPaused := True\<rparr> else m)"

section \<open>Service fuel\<close>

definition fuel_cost :: "'c minijam_env \<Rightarrow> u64 \<Rightarrow> u64 \<Rightarrow> balance" where
  "fuel_cost M refine_gas accumulate_gas =
     (let refine_cost = saturating_mul (ucast refine_gas) (RefineGasPrice M);
          accumulate_cost = saturating_mul (ucast accumulate_gas) (AccumulateGasPrice M)
      in saturating_add refine_cost accumulate_cost)"

text \<open>
  A \<open>BTreeMap<u32, (u64, u64)>\<close> is an association list; \<open>add_gas\<close> is the \<open>entry().or_insert\<close>
  with the two checked additions, \<open>None\<close> for an overflow.
\<close>

definition add_gas ::
    "u32 \<Rightarrow> u64 \<Rightarrow> u64 \<Rightarrow> (u32 \<times> u64 \<times> u64) list \<Rightarrow> (u32 \<times> u64 \<times> u64) list option" where
  "add_gas service refine accumulate grouped =
     (let (r, a) = (case alist_get grouped service of None \<Rightarrow> (0, 0) | Some e \<Rightarrow> e)
      in case checked_add r refine of
           None \<Rightarrow> None
         | Some r' \<Rightarrow> (case checked_add a accumulate of
               None \<Rightarrow> None
             | Some a' \<Rightarrow> Some (AList.update service (r', a') grouped)))"

primrec group_items :: "work_item list \<Rightarrow> (u32 \<times> u64 \<times> u64) list \<Rightarrow> (u32 \<times> u64 \<times> u64) list option" where
  "group_items [] grouped = Some grouped"
| "group_items (item # rest) grouped =
     (case add_gas (wi_service item) (wi_refine_gas_limit item) (wi_accumulate_gas_limit item) grouped of
        None \<Rightarrow> None
      | Some g \<Rightarrow> group_items rest g)"

primrec group_results :: "work_result list \<Rightarrow> (u32 \<times> u64 \<times> u64) list \<Rightarrow> (u32 \<times> u64 \<times> u64) list option" where
  "group_results [] grouped = Some grouped"
| "group_results (res # rest) grouped =
     (case add_gas (wres_service_id res) (wres_refine_gas_used res) (wres_accumulate_gas res) grouped of
        None \<Rightarrow> None
      | Some g \<Rightarrow> group_results rest g)"

fun reserve_services ::
    "'c minijam_env \<Rightarrow> (u32 \<times> u64 \<times> u64) list \<Rightarrow> service_fuel_reservation list \<Rightarrow> 'c minijam_state
     \<Rightarrow> (service_fuel_reservation list \<times> 'c minijam_state) jam_res" where
  "reserve_services M [] reservations m = Ok (reservations, m)"
| "reserve_services M ((service_id, refine_limit, accumulate_limit) # rest) reservations m =
     ensure (service_exists m service_id) (ModuleError UnknownService) (
     let reserved = fuel_cost M refine_limit accumulate_limit in
     if reserved = 0 then reserve_services M rest reservations m
     else let fuel = ServiceFuelAccounts m service_id in
          ensure (fa_available fuel \<ge> reserved) (ModuleError InsufficientServiceFuel) (
          reserve_services M rest
            (reservations @ [\<lparr>fr_service_id = service_id, fr_refine_limit = refine_limit,
               fr_accumulate_limit = accumulate_limit, fr_reserved = reserved\<rparr>])
            (m\<lparr>ServiceFuelAccounts := (ServiceFuelAccounts m)(service_id :=
                 fuel\<lparr>fa_available := saturating_sub (fa_available fuel) reserved,
                      fa_reserved := saturating_add (fa_reserved fuel) reserved\<rparr>)\<rparr>)))"

definition reserve_work_fuel ::
    "'c minijam_env \<Rightarrow> work_package \<Rightarrow> 'c minijam_state
     \<Rightarrow> (service_fuel_reservation list \<times> 'c minijam_state) jam_res" where
  "reserve_work_fuel M package m =
     ok_or (group_items (wp_items package) []) (ModuleError InvalidWorkPackage) (\<lambda>grouped.
     bind_res (reserve_services M (sort_key fst grouped) [] m) (\<lambda>(reservations, m).
     ok_or (try_bounded (unat (MaxServicesPerWork M)) reservations) (ModuleError TooManyServicesPerWork)
       (\<lambda>reservations. Ok (reservations, m))))"

primrec release_reservations ::
    "service_fuel_reservation list \<Rightarrow> balance \<Rightarrow> 'c minijam_state \<Rightarrow> (balance \<times> 'c minijam_state) jam_res" where
  "release_reservations [] released m = Ok (released, m)"
| "release_reservations (r # rs) released m =
     (let fuel = ServiceFuelAccounts m (fr_service_id r) in
     ensure (fa_reserved fuel \<ge> fr_reserved r) (ModuleError FuelSettlementInvariant) (
     release_reservations rs (saturating_add released (fr_reserved r))
       (m\<lparr>ServiceFuelAccounts := (ServiceFuelAccounts m)(fr_service_id r :=
            fuel\<lparr>fa_reserved := saturating_sub (fa_reserved fuel) (fr_reserved r),
                 fa_available := saturating_add (fa_available fuel) (fr_reserved r)\<rparr>)\<rparr>)))"

definition release_work_fuel ::
    "work_id \<Rightarrow> work_record \<Rightarrow> 'c minijam_state \<Rightarrow> (work_record \<times> 'c minijam_state) jam_res" where
  "release_work_fuel work_id work m =
     (if wr_fuel_reservation work = [] then Ok (work, m)
      else bind_res (release_reservations (wr_fuel_reservation work) 0 m) (\<lambda>(released, m).
           let m = m\<lparr>WorkFuelSettlements := (WorkFuelSettlements m)(work_id \<mapsto>
                 \<lparr>fs_charged = 0, fs_refunded = released\<rparr>)\<rparr>
           in Ok (work\<lparr>wr_fuel_reservation := []\<rparr>,
                if released \<noteq> 0 then jam_event (WorkFuelReleased work_id released) m else m)))"

definition decode_work_report ::
    "'c minijam_env \<Rightarrow> bytes \<Rightarrow> (execution_failure, work_report) outcome" where
  "decode_work_report M bs =
     ok_or (decode_work_report_prefix M bs) Fatal (\<lambda>(report, input).
     ensure (input = []) Fatal (Ok report))"

primrec settle_reservations ::
    "'c minijam_env \<Rightarrow> service_fuel_reservation list \<Rightarrow> (u32 \<times> u64 \<times> u64) list \<Rightarrow> balance \<Rightarrow> balance
     \<Rightarrow> 'c minijam_state
     \<Rightarrow> (execution_failure, (u32 \<times> u64 \<times> u64) list \<times> balance \<times> balance \<times> 'c minijam_state) outcome" where
  "settle_reservations M [] actual charged_total refunded_total m =
     Ok (actual, charged_total, refunded_total, m)"
| "settle_reservations M (r # rs) actual charged_total refunded_total m =
     (let (refine_used, accumulate_used) =
            (case alist_get actual (fr_service_id r) of None \<Rightarrow> (0, 0) | Some e \<Rightarrow> e);
          actual = AList.delete (fr_service_id r) actual
      in
      if refine_used > fr_refine_limit r \<or> accumulate_used > fr_accumulate_limit r then Err Fatal
      else let charged = fuel_cost M refine_used accumulate_used in
        if charged > fr_reserved r then Err Fatal
        else let refunded = saturating_sub (fr_reserved r) charged;
                 fuel = ServiceFuelAccounts m (fr_service_id r)
             in
             ensure (fa_reserved fuel \<ge> fr_reserved r) Fatal (
             settle_reservations M rs actual (saturating_add charged_total charged)
               (saturating_add refunded_total refunded)
               (m\<lparr>ServiceFuelAccounts := (ServiceFuelAccounts m)(fr_service_id r :=
                    fuel\<lparr>fa_reserved := saturating_sub (fa_reserved fuel) (fr_reserved r),
                         fa_available := saturating_add (fa_available fuel) refunded\<rparr>)\<rparr>)))"

text \<open>The charge leaves the escrow for the reward pool.\<close>

definition pay_charge ::
    "'c minijam_env \<Rightarrow> balance \<Rightarrow> 'c minijam_state \<Rightarrow> (execution_failure, 'c minijam_state) outcome" where
  "pay_charge M charged_total m =
     (if charged_total = 0 then Ok m
      else if TotalServiceFuel m < charged_total then Err Fatal
      else ok_or (cur_transfer (Currency (wenv M)) Expendable (FuelEscrowAccount M) (jam_RewardPool M)
                    charged_total (balances (wk m))) Fatal (\<lambda>c.
           Ok ((put_balances c m)\<lparr>TotalServiceFuel := saturating_sub (TotalServiceFuel m) charged_total\<rparr>)))"

definition settle_imported_work_fuel ::
    "'c minijam_env \<Rightarrow> work_id \<Rightarrow> work_record \<Rightarrow> bytes \<Rightarrow> 'c minijam_state
     \<Rightarrow> (execution_failure, work_record \<times> 'c minijam_state) outcome" where
  "settle_imported_work_fuel M work_id work canonical_report m =
     (if wr_fuel_reservation work = [] then Ok (work, m)
      else bind_res (decode_work_report M canonical_report) (\<lambda>report.
           ensure (wrep_package_hash report = wr_package_hash work) Fatal (
           ok_or (group_results (wrep_results report) []) Fatal (\<lambda>actual.
           bind_res (settle_reservations M (wr_fuel_reservation work) actual 0 0 m)
             (\<lambda>(actual, charged_total, refunded_total, m).
           ensure (actual = []) Fatal (
           bind_res (pay_charge M charged_total m) (\<lambda>m.
           Ok (work\<lparr>wr_fuel_reservation := []\<rparr>,
               jam_event (WorkFuelSettled work_id charged_total refunded_total)
                 (m\<lparr>WorkFuelSettlements := (WorkFuelSettlements m)(work_id \<mapsto>
                      \<lparr>fs_charged = charged_total, fs_refunded = refunded_total\<rparr>)\<rparr>)))))))))"

end
