(* ===== verification/MiniJam_Pallet.thy ===== *)
theory MiniJam_Pallet
  imports MiniJam_Queues
begin

text \<open>
  The life of a work in \<open>pallets/minijam\<close>: submission, candidate reports, rounds, acceptance and
  failure; the block state transition that imports accepted reports, preimages and system
  operations; the hooks; and the dispatch of all calls.
\<close>

section \<open>Checks on packages and reports\<close>

definition validate_content_ref :: "'c minijam_env \<Rightarrow> content_ref \<Rightarrow> unit jam_res" where
  "validate_content_ref M bundle_ref =
     ensure (cr_cid_v1 bundle_ref \<noteq> []) (ModuleError InvalidContentRef) (
     ensure (cr_size bundle_ref > 0) (ModuleError InvalidContentRef) (
     ensure (cr_size bundle_ref \<le> MaxBundleBytes M) (ModuleError InvalidContentRef) (
     Ok ())))"

definition decode_work_package :: "'c minijam_env \<Rightarrow> bytes \<Rightarrow> work_package jam_res" where
  "decode_work_package M bs =
     ok_or (decode_work_package_prefix M bs) (ModuleError InvalidWorkPackage) (\<lambda>(package, input).
     ensure (input = []) (ModuleError InvalidWorkPackage) (Ok package))"

text \<open>The final loop of \<open>validate_candidate_report\<close> over the zipped items and results.\<close>

primrec check_results :: "(work_item \<times> service_result_projection) list \<Rightarrow> unit jam_res" where
  "check_results [] = Ok ()"
| "check_results (p # ps) =
     ensure (srp_service_id (snd p) = wi_service (fst p) \<and> srp_code_hash (snd p) = wi_code_hash (fst p)
             \<and> srp_refine_gas_used (snd p) \<le> wi_refine_gas_limit (fst p)
             \<and> srp_accumulate_gas (snd p) \<le> wi_accumulate_gas_limit (fst p))
       (ModuleError InvalidReportProjection) (check_results ps)"

definition validate_candidate_report ::
    "'c minijam_env \<Rightarrow> work_record \<Rightarrow> report_envelope \<Rightarrow> unit jam_res" where
  "validate_candidate_report M work envelope =
     bind_res (map_err (\<lambda>_. ModuleError InvalidReportProjection)
                 (jx_project_report M (env_canonical_report envelope))) (\<lambda>projection.
     let metadata = env_projected_metadata envelope in
     ensure (rp_package_hash projection = wr_package_hash work) (ModuleError InvalidReportProjection) (
     ensure (rm_package_hash metadata = rp_package_hash projection
             \<and> rm_context_hash metadata = rp_context_hash projection
             \<and> rm_exports_root metadata = rp_exports_root projection
             \<and> rm_accumulate_gas metadata = rp_total_accumulate_gas projection)
       (ModuleError InvalidReportProjection) (
     bind_res (decode_work_package M (wr_canonical_work_package work)) (\<lambda>package.
     ensure (unat (rp_result_count projection) = length (wp_items package)
             \<and> length (rp_services projection) = length (wp_items package))
       (ModuleError InvalidReportProjection) (
     ensure (rp_context_hash projection = jam_hash M (wp_context package))
       (ModuleError InvalidReportProjection) (
     ok_or (checked_add (rp_total_refine_gas projection) (rp_total_accumulate_gas projection))
       (ModuleError InvalidReportProjection) (\<lambda>total_report_gas.
     ensure (total_report_gas \<le> MaxExecutionGas M) (ModuleError InvalidReportProjection) (
     check_results (zip (wp_items package) (rp_services projection))))))))))"

section \<open>Rounds\<close>

definition prepare_round :: "'c minijam_env \<Rightarrow> work_id \<Rightarrow> 'c minijam_state \<Rightarrow> 'c minijam_state jam_res" where
  "prepare_round M work_id m =
     ok_or (Works m work_id) (ModuleError WorkNotFound) (\<lambda>work.
     let finish = (\<lambda>work m. Ok (jam_event (WorkRoundAdvanced work_id (wr_round work) (wr_status work))
                                  (put_work work_id work m)))
     in case assign_work (wenv M) work_id (wr_round work) (wk m) of
          Ok (_, s) \<Rightarrow> finish (work\<lparr>wr_status := StAwaitingCandidate,
              wr_candidate_deadline := saturating_add (block_number_of m) (ReportSubmissionDeadline M)\<rparr>)
            (m\<lparr>wk := s\<rparr>)
        | Err _ \<Rightarrow> finish (work\<lparr>wr_status := StInsufficientWorkers\<rparr>) m
        | Panic \<Rightarrow> Panic)"

definition remove_pending :: "work_id \<Rightarrow> 'c minijam_state \<Rightarrow> 'c minijam_state" where
  "remove_pending work_id m = m\<lparr>PendingWorks := remove_first (\<lambda>i. i = work_id) (PendingWorks m)\<rparr>"

definition jam_clear_assignment :: "work_id \<Rightarrow> u8 \<Rightarrow> 'c minijam_state \<Rightarrow> 'c minijam_state" where
  "jam_clear_assignment work_id rnd m = m\<lparr>wk := clear_assignment work_id rnd (wk m)\<rparr>"

definition settle_rejected_candidate ::
    "'c minijam_env \<Rightarrow> work_id \<Rightarrow> u8 \<Rightarrow> 'c minijam_state \<Rightarrow> 'c minijam_state jam_res" where
  "settle_rejected_candidate M work_id rnd m =
     ok_or (Candidates m (work_id, rnd)) (ModuleError InconsistentState) (\<lambda>candidate.
     let C = Currency (wenv M);
         slash = min (CandidateRejectionSlash M) (CandidateBondAmount M);
         (credit, remainder, c) = cur_slash C CandidateBond (cd_submitter candidate) slash (balances (wk m))
     in
     ensure (remainder = 0) (ModuleError InconsistentState) (
     ok_or (cur_resolve C (jam_RewardPool M) credit c) (ModuleError InconsistentState) (\<lambda>c.
     jam_currency (cur_release C CandidateBond (cd_submitter candidate) (CandidateBondAmount M - slash) c) m Ok)))"

definition fail_work ::
    "'c minijam_env \<Rightarrow> work_id \<Rightarrow> work_record \<Rightarrow> 'c minijam_state \<Rightarrow> 'c minijam_state jam_res" where
  "fail_work M work_id work m =
     (let C = Currency (wenv M);
          (credit, remainder, c) = cur_slash C WorkDeposit (wr_owner work) (WorkDepositAmount M) (balances (wk m))
      in
      ensure (remainder = 0) (ModuleError InconsistentState) (
      ok_or (cur_resolve C (jam_RewardPool M) credit c) (ModuleError InconsistentState) (\<lambda>c.
      Ok (jam_event (WorkFailed work_id)
           (jam_clear_assignment work_id (wr_round work)
             (remove_pending work_id
               (put_work work_id (work\<lparr>wr_status := StFailed\<rparr>) (put_balances c m))))))))"

text \<open>\<open>advance_or_fail\<close> wraps \<open>advance_or_fail_inner\<close> in a storage transaction.\<close>

definition advance_or_fail ::
    "'c minijam_env \<Rightarrow> work_id \<Rightarrow> bool \<Rightarrow> 'c minijam_state \<Rightarrow> 'c minijam_state jam_res" where
  "advance_or_fail M work_id rejected_candidate m =
     ok_or (Works m work_id) (ModuleError WorkNotFound) (\<lambda>work.
     bind_res (if rejected_candidate
               then bind_res (settle_rejected_candidate M work_id (wr_round work) m) (\<lambda>m.
                    Ok (jam_event (CandidateRejected work_id (wr_round work)) m))
               else Ok m) (\<lambda>m.
     let m = jam_clear_assignment work_id (wr_round work) m in
     if saturating_add (wr_round work) 1 \<ge> MaxCandidateRounds M
     then fail_work M work_id work m
     else prepare_round M work_id
            (put_work work_id (work\<lparr>wr_round := saturating_add (wr_round work) 1,
                                    wr_status := StInsufficientWorkers\<rparr>) m)))"

text \<open>\<open>accept_candidate\<close> likewise.\<close>

definition accept_candidate ::
    "'c minijam_env \<Rightarrow> work_id \<Rightarrow> 'c minijam_state \<Rightarrow> 'c minijam_state jam_res" where
  "accept_candidate M work_id m =
     (let C = Currency (wenv M) in
     ok_or (Works m work_id) (ModuleError WorkNotFound) (\<lambda>work.
     ok_or (Candidates m (work_id, wr_round work)) (ModuleError InconsistentState) (\<lambda>candidate.
     bind_res (validate_candidate_report M work (cd_envelope candidate)) (\<lambda>_.
     jam_currency (cur_release C CandidateBond (cd_submitter candidate) (CandidateBondAmount M) (balances (wk m))) m (\<lambda>m.
     jam_currency (cur_transfer C Preserve (jam_RewardPool M) (cd_submitter candidate)
                     (AcceptedSubmitterReward M) (balances (wk m))) m (\<lambda>m.
     jam_currency (cur_release C WorkDeposit (wr_owner work) (WorkDepositAmount M) (balances (wk m))) m (\<lambda>m.
     let m = put_work work_id (work\<lparr>wr_status := StAccepted\<rparr>) m;
         execute_at = saturating_add (block_number_of m) 1
     in
     ok_or (try_push (unat (MaxPendingWorks M)) \<lparr>ei_work_id = work_id, ei_execute_at = execute_at\<rparr> (ExecutionQueue m))
       (ModuleError ExecutionQueueFull) (\<lambda>queue.
     Ok (jam_event (CandidateAccepted work_id (wr_round work))
          (jam_clear_assignment work_id (wr_round work)
            (remove_pending work_id (m\<lparr>ExecutionQueue := queue\<rparr>))))))))))))"

section \<open>Calls on works\<close>

definition submit_work ::
    "'c minijam_env \<Rightarrow> origin \<Rightarrow> bytes \<Rightarrow> content_ref \<Rightarrow> 'c minijam_state \<Rightarrow> 'c minijam_state jam_res" where
  "submit_work M origin canonical bundle_ref m =
     ensure_ingress_relayer origin m (\<lambda>owner.
     ensure (canonical \<noteq> []) (ModuleError InvalidWorkPackage) (
     bind_res (validate_content_ref M bundle_ref) (\<lambda>_.
     bind_res (decode_work_package M canonical) (\<lambda>_.
     let package_hash = jam_hash M canonical in
     ensure (WorkByPackageHash m package_hash = None) (ModuleError DuplicateWorkPackage) (
     let work_id = NextWorkId m in
     ok_or (checked_add work_id 1) (ModuleError WorkIdOverflow) (\<lambda>next_id.
     ok_or (try_push (unat (MaxPendingWorks M)) work_id (PendingWorks m)) (ModuleError TooManyPendingWorks) (\<lambda>pending.
     let m = m\<lparr>PendingWorks := pending\<rparr> in
     jam_currency (cur_hold (Currency (wenv M)) WorkDeposit owner (WorkDepositAmount M) (balances (wk m))) m (\<lambda>m.
     let m = (put_work work_id
                \<lparr>wr_owner = owner, wr_package_hash = package_hash, wr_canonical_work_package = canonical,
                 wr_bundle_ref = bundle_ref, wr_fuel_reservation = [], wr_round = 0,
                 wr_status = StInsufficientWorkers, wr_candidate_deadline = 0\<rparr> m)
               \<lparr>WorkByPackageHash := (WorkByPackageHash m)(package_hash \<mapsto> work_id), NextWorkId := next_id\<rparr>
     in
     bind_res (ignore_err (prepare_round M work_id m) m) (\<lambda>m.
     ok_or (Works m work_id) (ModuleError InconsistentState) (\<lambda>work.
     Ok (jam_event (WorkSubmitted work_id owner package_hash bundle_ref (wr_status work)) m)))))))))))"

definition submit_candidate ::
    "'c minijam_env \<Rightarrow> origin \<Rightarrow> report_envelope \<Rightarrow> 'c minijam_state \<Rightarrow> 'c minijam_state jam_res" where
  "submit_candidate M origin envelope m =
     ensure_signed origin (\<lambda>submitter.
     let work_id = env_work_id envelope in
     ok_or (Works m work_id) (ModuleError WorkNotFound) (\<lambda>work.
     let rnd = wr_round work in
     ok_or (WorkerByAccount (wk m) submitter) (ModuleError CandidateSubmitterNotWorker) (\<lambda>worker_id.
     ok_or (Assignments (wk m) (work_id, rnd)) (ModuleError CandidateSubmitterNotAssigned) (\<lambda>assignment.
     ensure (worker_id \<in> set assignment) (ModuleError CandidateSubmitterNotAssigned) (
     ensure (min_opt assignment = Some worker_id) (ModuleError CandidateProducerNotSelected) (
     ensure (wr_status work = StAwaitingCandidate) (ModuleError CandidateNotExpected) (
     ensure (block_number_of m \<le> wr_candidate_deadline work) (ModuleError CandidateDeadlineExpired) (
     ensure (Candidates m (work_id, rnd) = None) (ModuleError CandidateAlreadySubmitted) (
     ensure (env_protocol_version envelope = PROTOCOL_VERSION_V1 \<and> env_chain_id envelope = jam_ChainId M
             \<and> env_assignment_round envelope = rnd) (ModuleError InvalidEnvelope) (
     ensure (computed_report_hash (jam_hash M) envelope = env_canonical_report_hash envelope)
       (ModuleError InvalidReportHash) (
     bind_res (validate_candidate_report M work envelope) (\<lambda>_.
     jam_currency (cur_hold (Currency (wenv M)) CandidateBond submitter (CandidateBondAmount M) (balances (wk m))) m (\<lambda>m.
     let vote_deadline = saturating_add (block_number_of m) (VoteWindow M);
         report_hash = env_canonical_report_hash envelope
     in
     bind_res (map_err (\<lambda>_. ModuleError VotingSetupFailed)
                 (open_voting (wenv M) work_id rnd report_hash vote_deadline (wk m))) (\<lambda>s.
     Ok (jam_event (CandidateSubmitted work_id rnd submitter report_hash)
          (put_work work_id (work\<lparr>wr_status := StVoting\<rparr>)
            (m\<lparr>wk := s, Candidates := (Candidates m)((work_id, rnd) \<mapsto>
                 \<lparr>cd_submitter = submitter, cd_envelope = envelope, cd_vote_deadline = vote_deadline\<rparr>)\<rparr>)))))))))))))))))"

section \<open>Tasks shown to the workers\<close>

definition pending_worker_task :: "'c minijam_state \<Rightarrow> work_id \<Rightarrow> worker_task option" where
  "pending_worker_task m work_id =
     (case Works m work_id of None \<Rightarrow> None | Some work \<Rightarrow>
      if wr_status work \<noteq> StAwaitingCandidate then None
      else
     (case try_bounded BLOB_BOUND (wr_canonical_work_package work) of None \<Rightarrow> None | Some package \<Rightarrow>
     (case Assignments (wk m) (work_id, wr_round work) of None \<Rightarrow> None | Some assignment \<Rightarrow>
     (case try_bounded VOTE_ASSIGNMENTS_BOUND assignment of None \<Rightarrow> None | Some assigned \<Rightarrow>
     (case min_opt assignment of None \<Rightarrow> None | Some producer \<Rightarrow>
     (case AssignmentEpochs (wk m) (work_id, wr_round work) of None \<Rightarrow> None | Some epoch \<Rightarrow>
      Some \<lparr>wt_work_id = work_id, wt_round = wr_round work, wt_assignment_epoch = epoch,
            wt_assigned_workers = assigned, wt_candidate_producer = producer,
            wt_package_hash = wr_package_hash work, wt_canonical_work_package = package,
            wt_bundle_ref = wr_bundle_ref work\<rparr>))))))"

definition pending_worker_tasks :: "'c minijam_state \<Rightarrow> worker_task list" where
  "pending_worker_tasks m =
     sort_key (\<lambda>t. (wt_work_id t, wt_round t, wt_package_hash t))
       (List.map_filter (pending_worker_task m) (PendingWorks m))"

definition open_verification_task :: "'c minijam_state \<Rightarrow> worker_vote_task \<Rightarrow> worker_verification_task option" where
  "open_verification_task m task =
     (case Works m (vt_work_id task) of None \<Rightarrow> None | Some work \<Rightarrow>
      if wr_round work \<noteq> vt_round task \<or> wr_status work \<noteq> StVoting then None
      else
     (case Candidates m (vt_work_id task, vt_round task) of None \<Rightarrow> None | Some candidate \<Rightarrow>
     (case try_bounded BLOB_BOUND (wr_canonical_work_package work) of None \<Rightarrow> None | Some package \<Rightarrow>
      Some \<lparr>ft_work_id = vt_work_id task, ft_round = vt_round task,
            ft_assignment_epoch = vt_assignment_epoch task,
            ft_candidate_report_hash = vt_candidate_report_hash task,
            ft_candidate_report = env_canonical_report (cd_envelope candidate),
            ft_deadline = vt_deadline task, ft_assigned_workers = vt_assigned_workers task,
            ft_submitted_votes = vt_submitted_votes task, ft_package_hash = wr_package_hash work,
            ft_canonical_work_package = package, ft_bundle_ref = wr_bundle_ref work\<rparr>)))"

definition open_worker_verification_tasks :: "'c minijam_state \<Rightarrow> worker_verification_task list" where
  "open_worker_verification_tasks m =
     List.map_filter (open_verification_task m) (open_vote_tasks (wk m))"

section \<open>The block state transition\<close>

definition candidate_for_work :: "'c minijam_state \<Rightarrow> work_id \<Rightarrow> (u8 \<times> candidate_record) option" where
  "candidate_for_work m work_id =
     (case Works m work_id of
        None \<Rightarrow> None
      | Some work \<Rightarrow> map_option (\<lambda>c. (wr_round work, c)) (Candidates m (work_id, wr_round work)))"

text \<open>The drain loop that splits the queue into due and retained items.\<close>

primrec split_queue ::
    "bool \<Rightarrow> block_number \<Rightarrow> nat \<Rightarrow> execution_item list \<Rightarrow> execution_item list \<Rightarrow> execution_item list
     \<Rightarrow> execution_item list \<times> execution_item list" where
  "split_queue paused block max_reports [] due retained = (due, retained)"
| "split_queue paused block max_reports (item # rest) due retained =
     (if \<not> paused \<and> ei_execute_at item \<le> block \<and> length due < max_reports
      then split_queue paused block max_reports rest (due @ [item]) retained
      else split_queue paused block max_reports rest due (retained @ [item]))"

definition due_order :: "'c minijam_state \<Rightarrow> execution_item \<Rightarrow> work_id \<times> hash" where
  "due_order m item =
     (ei_work_id item,
      case candidate_for_work m (ei_work_id item) of
        Some (_, candidate) \<Rightarrow> env_canonical_report_hash (cd_envelope candidate)
      | None \<Rightarrow> replicate 32 0xff)"

primrec gather_reports ::
    "'c minijam_state \<Rightarrow> execution_item list \<Rightarrow> (execution_failure, bytes list) outcome" where
  "gather_reports m [] = Ok []"
| "gather_reports m (item # rest) =
     ok_or (candidate_for_work m (ei_work_id item)) Fatal (\<lambda>(rnd, candidate).
     ok_or (Works m (ei_work_id item)) Fatal (\<lambda>work.
     ensure (wr_round work = rnd \<and> wr_status work = StAccepted) Fatal (
     bind_res (gather_reports m rest) (\<lambda>reports.
     Ok (env_canonical_report (cd_envelope candidate) # reports)))))"

definition stf_input ::
    "'c minijam_env \<Rightarrow> block_number \<Rightarrow> execution_item list \<Rightarrow> 'c minijam_state
     \<Rightarrow> (execution_failure, execution_input) outcome" where
  "stf_input M block due m =
     bind_res (gather_reports m due) (\<lambda>reports.
     ok_or (try_bounded REPORT_BATCH_BOUND reports) Fatal (\<lambda>reports.
     bind_res (if PreimageImportPaused m then Ok [] else pending_preimage_batch m) (\<lambda>preimages.
     bind_res (if SystemOpsPaused m then Ok [] else pending_system_ops_batch M m) (\<lambda>system_ops.
     Ok \<lparr>in_protocol_version = PROTOCOL_VERSION_V1, in_slot = block,
         in_parent_hash = host_parent_hash M m block,
         in_parent_state_root = host_parent_state_root M m block,
         in_entropy = host_entropy M block, in_reports = reports, in_preimages = preimages,
         in_system_ops = system_ops, in_max_gas = MaxExecutionGas M\<rparr>))))"

definition map_execution_error ::
    "execution_input \<Rightarrow> work_id list \<Rightarrow> minijam_error \<Rightarrow> execution_failure" where
  "map_execution_error input work_ids error =
     (case error of
        ExecutionErr oc \<Rightarrow>
          (case work_ids of
             i # _ \<Rightarrow> Yielded i oc
           | [] \<Rightarrow> if in_system_ops input \<noteq> [] then SystemOpsYielded oc else Fatal)
      | StateErr _ \<Rightarrow> Fatal
      | InvariantErr _ \<Rightarrow> Fatal
      | InputErr _ \<Rightarrow>
          if in_reports input = [] \<and> in_preimages input \<noteq> [] \<and> in_system_ops input = []
          then PreimagesRejected EcInvalidInput else Fatal)"

definition map_validation_error :: "execution_input \<Rightarrow> validation_error \<Rightarrow> execution_failure" where
  "map_validation_error input error =
     (if in_reports input = [] \<and> in_preimages input \<noteq> [] \<and> in_system_ops input = []
      then PreimagesRejected
        (case error of
           GasExceeded \<Rightarrow> EcGasExceeded
         | DeltaTooLarge \<Rightarrow> EcDeltaTooLarge
         | _ \<Rightarrow> EcInvalidOutput)
      else Fatal)"

text \<open>The loop that marks consumed reports as imported.\<close>

primrec import_reports ::
    "hash list \<Rightarrow> hash \<Rightarrow> work_id list \<Rightarrow> 'c minijam_state \<Rightarrow> (execution_failure, 'c minijam_state) outcome" where
  "import_reports consumed receipt_hash [] m = Ok m"
| "import_reports consumed receipt_hash (work_id # rest) m =
     ok_or (candidate_for_work m work_id) Fatal (\<lambda>(_, candidate).
     if env_canonical_report_hash (cd_envelope candidate) \<notin> set consumed
     then import_reports consumed receipt_hash rest m
     else ok_or (Works m work_id) Fatal (\<lambda>work.
          import_reports consumed receipt_hash rest
            (jam_event (ReportImported work_id receipt_hash)
              ((put_work work_id (work\<lparr>wr_status := StImported\<rparr>) m)
                \<lparr>ExecutionReceipts := (ExecutionReceipts m)(work_id \<mapsto> receipt_hash)\<rparr>))))"

definition execute_block_stf_inner ::
    "'c minijam_env \<Rightarrow> block_number \<Rightarrow> execution_item list \<Rightarrow> 'c minijam_state
     \<Rightarrow> (execution_failure, block_stf_summary \<times> 'c minijam_state) outcome" where
  "execute_block_stf_inner M block due m =
     (let work_ids = map ei_work_id due in
     bind_res (stf_input M block due m) (\<lambda>input.
     bind_res (map_err (map_execution_error input work_ids) (jx_execute M input (frame_state m))) (\<lambda>out.
     bind_res (map_err (map_validation_error input)
                 (validate_execution_output (jam_hash M) (encode_system_op M) (encoded_changes_size M)
                    input out (frame_state m))) (\<lambda>changes.
     bind_res (apply_delta changes m) (\<lambda>m.
     bind_res (consume_successful_allocations M changes m) (\<lambda>m.
     let m = consume_system_ops (out_consumed_system_ops out)
               (consume_preimages M (out_consumed_preimages out) m)
     in
     bind_res (import_reports (out_consumed_reports out) (out_receipt_hash out) work_ids m) (\<lambda>m.
     Ok (\<lparr>bs_report_count = of_nat (length (in_reports input)),
          bs_preimage_count = of_nat (length (in_preimages input)),
          bs_system_op_count = of_nat (length (in_system_ops input)),
          bs_receipt_hash = out_receipt_hash out\<rparr>,
         m\<lparr>LastExecutionReceipt := Some (out_receipt_hash out)\<rparr>))))))))"

definition execute_block_stf ::
    "'c minijam_env \<Rightarrow> block_number \<Rightarrow> 'c minijam_state \<Rightarrow> (unit, 'c minijam_state) outcome" where
  "execute_block_stf M block m =
     (let (due, retained) = split_queue (ReportImportPaused m) block (unat (MaxExecutionReports M))
            (ExecutionQueue m) [] [];
          due = sort_key (due_order m) due
      in case execute_block_stf_inner M block due m of
           Ok (summary, m') \<Rightarrow>
             (case try_bounded (unat (MaxPendingWorks M)) retained of
                None \<Rightarrow> Panic
              | Some bounded \<Rightarrow>
                  Ok (jam_event (BlockStfExecuted block (bs_report_count summary)
                        (bs_preimage_count summary) (bs_system_op_count summary) (bs_receipt_hash summary))
                      (m'\<lparr>ExecutionQueue := bounded\<rparr>)))
         | Err (Yielded work_id oc) \<Rightarrow> Ok (jam_event (ExecutionYielded work_id oc) m)
         | Err (SystemOpsYielded oc) \<Rightarrow> Ok (quarantine_pending_system_ops M oc m)
         | Err (PreimagesRejected code) \<Rightarrow> Ok (quarantine_pending_preimages M code m)
         | Err Fatal \<Rightarrow> Panic
         | Panic \<Rightarrow> Panic)"

section \<open>Hooks\<close>

definition work_on_initialize ::
    "'c minijam_env \<Rightarrow> block_number \<Rightarrow> work_id \<Rightarrow> 'c minijam_state \<Rightarrow> (unit, 'c minijam_state) outcome" where
  "work_on_initialize M block work_id m =
     (case Works m work_id of
        None \<Rightarrow> Ok m
      | Some work \<Rightarrow>
          (case wr_status work of
             StInsufficientWorkers \<Rightarrow> ignore_err (prepare_round M work_id m) m
           | StAwaitingCandidate \<Rightarrow>
               if block > wr_candidate_deadline work
               then ignore_err (advance_or_fail M work_id False m) m
               else Ok m
           | StVoting \<Rightarrow>
               (case RoundResults (wk m) (work_id, wr_round work) of
                  None \<Rightarrow> Ok m
                | Some r \<Rightarrow>
                    (case rr_decision r of
                       Some AcceptedRound \<Rightarrow> ignore_err (accept_candidate M work_id m) m
                     | Some RejectedRound \<Rightarrow> ignore_err (advance_or_fail M work_id True m) m
                     | None \<Rightarrow> ignore_err (advance_or_fail M work_id True m) m))
           | _ \<Rightarrow> Ok m))"

primrec works_on_initialize ::
    "'c minijam_env \<Rightarrow> block_number \<Rightarrow> work_id list \<Rightarrow> 'c minijam_state \<Rightarrow> (unit, 'c minijam_state) outcome" where
  "works_on_initialize M block [] m = Ok m"
| "works_on_initialize M block (i # is) m =
     bind_res (work_on_initialize M block i m) (works_on_initialize M block is)"

definition minijam_on_initialize ::
    "'c minijam_env \<Rightarrow> block_number \<Rightarrow> 'c minijam_state \<Rightarrow> (unit, 'c minijam_state) outcome" where
  "minijam_on_initialize M block m = works_on_initialize M block (PendingWorks m) m"

definition minijam_on_finalize ::
    "'c minijam_env \<Rightarrow> block_number \<Rightarrow> 'c minijam_state \<Rightarrow> (unit, 'c minijam_state) outcome" where
  "minijam_on_finalize M block m = execute_block_stf M block m"

section \<open>Dispatch\<close>

datatype minijam_call =
    CallSubmitWork bytes content_ref
  | CallSubmitCandidate report_envelope
  | CallPauseExecution bool
  | CallQuarantinePending
  | CallSubmitPreimage bytes
  | CallSubmitSystemOp system_command
  | CallFundService u32 balance
  | CallDropQuarantined hash
  | CallRetryQuarantined hash
  | CallClearQuarantined
  | CallSetIngressRelayer account
  | CallSubmitAllocation allocation
  | CallSetAllocationRelayer account

fun minijam_dispatch ::
    "'c minijam_env \<Rightarrow> origin \<Rightarrow> minijam_call \<Rightarrow> 'c minijam_state \<Rightarrow> 'c minijam_state jam_res" where
  "minijam_dispatch M origin (CallSubmitWork canonical bundle_ref) m = submit_work M origin canonical bundle_ref m"
| "minijam_dispatch M origin (CallSubmitCandidate envelope) m = submit_candidate M origin envelope m"
| "minijam_dispatch M origin (CallPauseExecution paused) m = pause_execution origin paused m"
| "minijam_dispatch M origin CallQuarantinePending m = quarantine_pending origin m"
| "minijam_dispatch M origin (CallSubmitPreimage canonical) m = submit_preimage M origin canonical m"
| "minijam_dispatch M origin (CallSubmitSystemOp command) m = submit_system_op M origin command m"
| "minijam_dispatch M origin (CallFundService service_id amount) m = fund_service M origin service_id amount m"
| "minijam_dispatch M origin (CallDropQuarantined request_id) m = drop_quarantined_system_op origin request_id m"
| "minijam_dispatch M origin (CallRetryQuarantined request_id) m = retry_quarantined_system_op M origin request_id m"
| "minijam_dispatch M origin CallClearQuarantined m = clear_quarantined_system_ops origin m"
| "minijam_dispatch M origin (CallSetIngressRelayer new_relayer) m = set_ingress_relayer origin new_relayer m"
| "minijam_dispatch M origin (CallSubmitAllocation alloc) m = submit_allocation M origin alloc m"
| "minijam_dispatch M origin (CallSetAllocationRelayer new_relayer) m = set_allocation_relayer origin new_relayer m"

end
