(* ===== verification/Transition.thy ===== *)
theory Transition
  imports MJ_Prelude
begin

text \<open>
  Contracts shared by the state machines of the development: a step relation with an invariant,
  a key-value view of the state that is written once, and an action that fires at most once per
  key.  Each is interpreted on the definitions of the components.
\<close>

locale invariant_system =
  fixes step :: "'s \<Rightarrow> 's \<Rightarrow> bool"
    and inv :: "'s \<Rightarrow> bool"
  assumes step_inv: "step s t \<Longrightarrow> inv s \<Longrightarrow> inv t"
begin

lemma steps_inv: "step\<^sup>*\<^sup>* s t \<Longrightarrow> inv s \<Longrightarrow> inv t"
  by (induction rule: rtranclp_induct) (auto intro: step_inv)

text \<open>What one step keeps, a run keeps.\<close>

lemma steps_stable:
  assumes "step\<^sup>*\<^sup>* s t" "inv s" "Q s"
    and "\<And>u v. step u v \<Longrightarrow> inv u \<Longrightarrow> Q u \<Longrightarrow> Q v"
  shows "Q t"
  using assms(1-3)
proof (induction rule: rtranclp_induct)
  case (step u v)
  then show ?case using assms(4) steps_inv by blast
qed

end

locale write_once = invariant_system step inv
  for step :: "'s \<Rightarrow> 's \<Rightarrow> bool" and inv :: "'s \<Rightarrow> bool" +
  fixes get :: "'s \<Rightarrow> 'k \<Rightarrow> 'v option"
  assumes step_get: "step s t \<Longrightarrow> inv s \<Longrightarrow> get s k = Some v \<Longrightarrow> get t k = Some v"
begin

lemma steps_get: "step\<^sup>*\<^sup>* s t \<Longrightarrow> inv s \<Longrightarrow> get s k = Some v \<Longrightarrow> get t k = Some v"
  by (rule steps_stable [where Q = "\<lambda>s. get s k = Some v"]) (auto intro: step_get)

end

locale exactly_once = write_once step inv get
  for step :: "'s \<Rightarrow> 's \<Rightarrow> bool" and inv :: "'s \<Rightarrow> bool" and get :: "'s \<Rightarrow> 'k \<Rightarrow> 'v option" +
  fixes fire :: "'k \<Rightarrow> 's \<Rightarrow> 's \<Rightarrow> bool"
  assumes fire_step: "fire k s t \<Longrightarrow> step s t"
    and fire_fresh: "fire k s t \<Longrightarrow> get s k = None"
    and fire_marks: "fire k s t \<Longrightarrow> get t k \<noteq> None"
begin

lemma fires_once:
  assumes "fire k s t" "inv s" "step\<^sup>*\<^sup>* t u"
  shows "\<not> fire k u v"
proof -
  obtain x where "get t k = Some x"
    using fire_marks assms(1) by blast
  then have "get u k = Some x"
    using steps_get assms step_inv fire_step by blast
  then show ?thesis
    using fire_fresh by force
qed

end

end
