(* ===== verification/Workers_Inv.thy ===== *)
theory Workers_Inv
  imports Workers_Pallet Transition
begin

text \<open>
  The invariant of the workers pallet.  \<open>registry_inv\<close>: accounts and worker ids correspond one to
  one, ids are below the next id, the counter counts, and snapshot, pending updates and unbonding
  refer to registered workers.  \<open>assign_inv\<close>: an assignment has the configured number of distinct
  registered workers with a stored key each, and the duty and work counters are within their
  limits.  \<open>voting_inv\<close>: the open rounds are the stored ones, their counters are the counts of the
  stored votes and justify the lock, and votes belong to assigned workers.  Every operation of the
  pallet preserves the three.
\<close>

section \<open>The registry\<close>

definition registry_inv :: "'c workers_env \<Rightarrow> 'c workers_state \<Rightarrow> bool" where
  "registry_inv E s \<longleftrightarrow>
     distinct (map fst (Workers s))
     \<and> (\<forall>a w. WorkerByAccount s a = Some w \<longleftrightarrow> (\<exists>r. worker_of s w = Some r \<and> w_owner r = a))
     \<and> (\<forall>w r. worker_of s w = Some r \<longrightarrow> w < NextWorkerId s)
     \<and> unat (WorkerCount s) = length (Workers s)
     \<and> length (Workers s) \<le> unat (MaxCandidates E)
     \<and> distinct (ActiveWorkers s) \<and> length (ActiveWorkers s) \<le> unat (TopWorkers E)
     \<and> (\<forall>w\<in>set (ActiveWorkers s). worker_of s w \<noteq> None)
     \<and> distinct (map fst (PendingUpdates s))
     \<and> (\<forall>w. pending_of s w \<noteq> None \<longrightarrow> worker_of s w \<noteq> None)
     \<and> distinct (map fst (Unbonding s))
     \<and> (\<forall>w. unbonding_of s w \<noteq> None \<longrightarrow> worker_of s w \<noteq> None)"

text \<open>Storage iteration visits every key once.\<close>

definition iter_law :: "'c workers_env \<Rightarrow> bool" where
  "iter_law E \<longleftrightarrow> (\<forall>ks. mset (iter_order E ks) = mset ks)"

lemma mset_iter_entries:
  assumes "iter_law E" "distinct (map fst m)"
  shows "mset (iter_entries E m) = mset m"
proof -
  have "mset (iter_entries E m) = image_mset (\<lambda>k. (k, the (alist_get m k))) (mset (map fst m))"
    using assms(1) by (simp add: iter_entries_def iter_law_def)
  also have "\<dots> = mset (map (\<lambda>e. (fst e, the (alist_get m (fst e)))) m)"
    by (simp add: comp_def multiset.map_comp)
  also have "map (\<lambda>e. (fst e, the (alist_get m (fst e)))) m = map (\<lambda>e. e) m"
    using assms(2) by (intro map_cong) (auto simp: alist_get_in)
  finally show ?thesis by simp
qed

lemma insert_worker_simps [simp, store_simps]:
  "Workers (insert_worker w r s) = AList.update w r (Workers s)"
  "balances (insert_worker w r s) = balances s"
  "WorkerByAccount (insert_worker w r s) = WorkerByAccount s"
  "NextWorkerId (insert_worker w r s) = NextWorkerId s"
  "WorkerCount (insert_worker w r s) = WorkerCount s"
  "ActiveWorkers (insert_worker w r s) = ActiveWorkers s"
  "PendingUpdates (insert_worker w r s) = PendingUpdates s"
  "Unbonding (insert_worker w r s) = Unbonding s"
  "CurrentEpoch (insert_worker w r s) = CurrentEpoch s"
  "Assignments (insert_worker w r s) = Assignments s"
  "AssignmentEpochs (insert_worker w r s) = AssignmentEpochs s"
  "AssignmentKeys (insert_worker w r s) = AssignmentKeys s"
  "AssignedWorkCount (insert_worker w r s) = AssignedWorkCount s"
  "DutyCounts (insert_worker w r s) = DutyCounts s"
  "VotingRounds (insert_worker w r s) = VotingRounds s"
  "OpenVoteRounds (insert_worker w r s) = OpenVoteRounds s"
  "Votes (insert_worker w r s) = Votes s"
  "RoundResults (insert_worker w r s) = RoundResults s"
  "Equivocations (insert_worker w r s) = Equivocations s"
  "block_no (insert_worker w r s) = block_no s"
  "block_hash (insert_worker w r s) = block_hash s"
  "w_events (insert_worker w r s) = w_events s"
  by (simp_all add: insert_worker_def)

lemma deposit_event_simps [simp, store_simps]:
  "Workers (deposit_event e s) = Workers s"
  "balances (deposit_event e s) = balances s"
  "WorkerByAccount (deposit_event e s) = WorkerByAccount s"
  "NextWorkerId (deposit_event e s) = NextWorkerId s"
  "WorkerCount (deposit_event e s) = WorkerCount s"
  "ActiveWorkers (deposit_event e s) = ActiveWorkers s"
  "PendingUpdates (deposit_event e s) = PendingUpdates s"
  "Unbonding (deposit_event e s) = Unbonding s"
  "CurrentEpoch (deposit_event e s) = CurrentEpoch s"
  "Assignments (deposit_event e s) = Assignments s"
  "AssignmentEpochs (deposit_event e s) = AssignmentEpochs s"
  "AssignmentKeys (deposit_event e s) = AssignmentKeys s"
  "AssignedWorkCount (deposit_event e s) = AssignedWorkCount s"
  "DutyCounts (deposit_event e s) = DutyCounts s"
  "VotingRounds (deposit_event e s) = VotingRounds s"
  "OpenVoteRounds (deposit_event e s) = OpenVoteRounds s"
  "Votes (deposit_event e s) = Votes s"
  "RoundResults (deposit_event e s) = RoundResults s"
  "Equivocations (deposit_event e s) = Equivocations s"
  "block_no (deposit_event e s) = block_no s"
  "block_hash (deposit_event e s) = block_hash s"
  by (simp_all add: deposit_event_def)

lemma registry_frame:
  assumes "Workers t = Workers s" "WorkerByAccount t = WorkerByAccount s"
    "NextWorkerId t = NextWorkerId s" "WorkerCount t = WorkerCount s"
    "ActiveWorkers t = ActiveWorkers s" "PendingUpdates t = PendingUpdates s"
    "Unbonding t = Unbonding s"
  shows "registry_inv E t = registry_inv E s"
  by (simp add: registry_inv_def assms)

text \<open>Rewriting the record of a registered worker keeps the registry, as long as the owner stays.\<close>

lemma registry_update:
  assumes "registry_inv E s" "worker_of s w = Some r" "w_owner r' = w_owner r"
  shows "registry_inv E (insert_worker w r' s)"
  using assms unfolding registry_inv_def
  by (auto simp: length_alist_update distinct_update split: if_splits)

lemma registry_register:
  assumes "register E origin key stake s = Ok t" "registry_inv E s"
  shows "registry_inv E t"
proof -
  obtain owner nxt c where o: "WorkerByAccount s owner = None" "WorkerCount s < MaxCandidates E"
    and n: "checked_add (NextWorkerId s) 1 = Some nxt"
    and t: "t = deposit_event (WorkerRegistered (NextWorkerId s) owner (saturating_add (CurrentEpoch s) 1) stake)
        ((insert_worker (NextWorkerId s) \<lparr>w_owner = owner, w_session_key = key, w_active_stake = stake,
           w_effective_epoch = saturating_add (CurrentEpoch s) 1, w_suspended_until = 0\<rparr> (s\<lparr>balances := c\<rparr>))
         \<lparr>WorkerByAccount := (WorkerByAccount s)(owner \<mapsto> NextWorkerId s), NextWorkerId := nxt,
          WorkerCount := saturating_add (WorkerCount s) 1\<rparr>)"
    using assms(1)
    by (auto simp: register_def hold_stake_def with_currency_def res_simps Let_def)
  have fresh: "worker_of s (NextWorkerId s) = None"
    using assms(2) by (cases "worker_of s (NextWorkerId s)") (auto simp: registry_inv_def)
  have count: "unat (saturating_add (WorkerCount s) 1) = Suc (unat (WorkerCount s))"
    using o(2) by (rule saturating_Suc)
  have "w_owner r \<noteq> owner" if "worker_of s w = Some r" for w r
    using that assms(2) o(1) unfolding registry_inv_def by (metis option.distinct(1))
  then show ?thesis
    using assms(2) o fresh count n [unfolded checked_add_Some] unat_add_no_overflow [of "NextWorkerId s" 1]
    unfolding registry_inv_def t
    by (auto simp: length_alist_update distinct_update word_less_nat_alt split: if_splits)
qed

lemma registry_balances [simp]: "registry_inv E (s\<lparr>balances := c\<rparr>) = registry_inv E s"
  by (rule registry_frame) simp_all

lemma registry_event [simp]: "registry_inv E (deposit_event e s) = registry_inv E s"
  by (rule registry_frame) simp_all

lemma registry_unbond:
  "registry_inv E s \<Longrightarrow> worker_of s w \<noteq> None \<Longrightarrow>
     registry_inv E (s\<lparr>Unbonding := AList.update w c (Unbonding s)\<rparr>)"
  by (auto simp: registry_inv_def distinct_update)

lemma registry_unbond_delete:
  "registry_inv E s \<Longrightarrow> registry_inv E (s\<lparr>Unbonding := AList.delete w (Unbonding s)\<rparr>)"
  by (simp add: registry_inv_def distinct_delete)

lemma registry_pending:
  "registry_inv E s \<Longrightarrow> worker_of s w \<noteq> None \<Longrightarrow>
     registry_inv E (s\<lparr>PendingUpdates := AList.update w c (PendingUpdates s)\<rparr>)"
  by (auto simp: registry_inv_def distinct_update)

lemma registry_pending_delete:
  "registry_inv E s \<Longrightarrow> registry_inv E (s\<lparr>PendingUpdates := AList.delete w (PendingUpdates s)\<rparr>)"
  by (simp add: registry_inv_def distinct_delete)

lemma schedule_update_Ok:
  assumes "schedule_update E origin key stake s = Ok t"
  obtains w worker s1 e u where "worker_of s w = Some worker" "s1 = s \<or> (\<exists>c. s1 = s\<lparr>balances := c\<rparr>)"
    "t = deposit_event e (s1\<lparr>PendingUpdates := AList.update w u (PendingUpdates s1)\<rparr>)"
proof -
  obtain owner w worker s1 where w: "worker_of s w = Some worker"
    and s1: "(case stake of None \<Rightarrow> Ok s
        | Some new_stake \<Rightarrow> ensure (MinimumStake E \<le> new_stake) (ModuleError StakeBelowMinimum)
            (if w_active_stake worker < new_stake
             then hold_stake E owner (new_stake - w_active_stake worker) s Ok else Ok s)) = Ok s1"
    and t: "t = deposit_event (WorkerUpdateScheduled w (saturating_add (CurrentEpoch s1) 1))
        (s1\<lparr>PendingUpdates := AList.update w \<lparr>pu_session_key = key, pu_stake = stake,
           pu_effective_epoch = saturating_add (CurrentEpoch s1) 1\<rparr> (PendingUpdates s1)\<rparr>)"
    using assms by (auto simp: schedule_update_def res_simps Let_def)
  have "s1 = s \<or> (\<exists>c. s1 = s\<lparr>balances := c\<rparr>)"
    using s1 by (auto simp: hold_stake_def with_currency_def res_simps split: option.splits if_splits)
  then show thesis by (rule that [OF w _ t])
qed

lemma registry_schedule:
  assumes "schedule_update E origin key stake s = Ok t" "registry_inv E s"
  shows "registry_inv E t"
  using assms(1)
proof (rule schedule_update_Ok)
  fix w worker s1 e u
  assume *: "worker_of s w = Some worker" "s1 = s \<or> (\<exists>c. s1 = s\<lparr>balances := c\<rparr>)"
    "t = deposit_event e (s1\<lparr>PendingUpdates := AList.update w u (PendingUpdates s1)\<rparr>)"
  then have "registry_inv E s1" "worker_of s1 w \<noteq> None" using assms(2) by auto
  then show ?thesis unfolding *(3) by (simp add: registry_pending)
qed

lemma registry_apply_update:
  assumes "registry_inv E s"
  shows "registry_inv E (apply_update epoch (w, u) s)"
proof (cases "pu_effective_epoch u > epoch \<or> worker_of s w = None")
  case True
  then show ?thesis
    using assms registry_pending_delete [OF assms, of w] by (auto simp: apply_update_def Let_def)
next
  case False
  then obtain r where r: "worker_of s w = Some r" "\<not> pu_effective_epoch u > epoch" by auto
  define r1 where "r1 = (case pu_session_key u of None \<Rightarrow> r | Some key \<Rightarrow> r\<lparr>w_session_key := key\<rparr>)"
  define t where "t = (case pu_stake u of None \<Rightarrow> s | Some stake \<Rightarrow>
    if stake < w_active_stake r1
    then s\<lparr>Unbonding := AList.update w \<lparr>ub_amount = w_active_stake r1 - stake,
           ub_unlock_epoch = saturating_add epoch 2\<rparr> (Unbonding s)\<rparr> else s)"
  define r' where "r' = (case pu_stake u of None \<Rightarrow> r1 | Some stake \<Rightarrow> r1\<lparr>w_active_stake := stake\<rparr>)
    \<lparr>w_effective_epoch := epoch\<rparr>"
  have own: "w_owner r' = w_owner r"
    by (simp add: r'_def r1_def split: option.split)
  have t: "t = s \<or> (\<exists>c. t = s\<lparr>Unbonding := AList.update w c (Unbonding s)\<rparr>)"
    by (auto simp: t_def split: option.split)
  have eq: "apply_update epoch (w, u) s = deposit_event (WorkerUpdateApplied w epoch)
      ((insert_worker w r' t)\<lparr>PendingUpdates := AList.delete w (PendingUpdates (insert_worker w r' t))\<rparr>)"
    using r unfolding apply_update_def Let_def t_def r'_def r1_def by simp
  have "registry_inv E t" "worker_of t w = Some r"
    using t r assms by (auto intro: registry_unbond)
  then have "registry_inv E (insert_worker w r' t)"
    using own by (rule registry_update)
  then show ?thesis
    unfolding eq registry_event by (rule registry_pending_delete)
qed

lemma registry_apply_pending:
  "registry_inv E s \<Longrightarrow> registry_inv E (apply_pending_updates E epoch s)"
proof -
  have "registry_inv E s \<Longrightarrow> registry_inv E (fold (apply_update epoch) us s)" for us
    by (induction us arbitrary: s) (auto simp: registry_apply_update)
  then show "registry_inv E s \<Longrightarrow> registry_inv E (apply_pending_updates E epoch s)"
    by (simp add: apply_pending_updates_def)
qed

lemma registry_release_chunk:
  "registry_inv E s \<Longrightarrow> registry_inv E (release_chunk E epoch (w, u) s)"
  using registry_unbond_delete [of E "s\<lparr>balances := c\<rparr>" w for c]
  by (auto simp: release_chunk_def split: option.split)

lemma registry_release:
  "registry_inv E s \<Longrightarrow> registry_inv E (release_mature_unbonding E epoch s)"
proof -
  have "registry_inv E s \<Longrightarrow> registry_inv E (fold (release_chunk E epoch) us s)" for us
    by (induction us arbitrary: s) (auto simp: registry_release_chunk)
  then show "registry_inv E s \<Longrightarrow> registry_inv E (release_mature_unbonding E epoch s)"
    by (simp add: release_mature_unbonding_def)
qed

section \<open>Settlement of a round\<close>

text \<open>Rewards and slashes touch balances, worker records and events only.\<close>

definition stake_only :: "'c workers_state \<Rightarrow> 'c workers_state \<Rightarrow> bool" where
  "stake_only s t \<longleftrightarrow> t = s\<lparr>Workers := Workers t, balances := balances t, w_events := w_events t\<rparr>"

lemma stake_only_refl [simp]: "stake_only s s"
  by (simp add: stake_only_def)

lemma stake_only_trans: "stake_only s t \<Longrightarrow> stake_only t u \<Longrightarrow> stake_only s u"
  by (cases s; cases t; cases u) (simp add: stake_only_def)

lemma stake_only_eqs:
  assumes "stake_only s t"
  shows "WorkerByAccount t = WorkerByAccount s"
    "NextWorkerId t = NextWorkerId s"
    "WorkerCount t = WorkerCount s"
    "ActiveWorkers t = ActiveWorkers s"
    "PendingUpdates t = PendingUpdates s"
    "Unbonding t = Unbonding s"
    "CurrentEpoch t = CurrentEpoch s"
    "Assignments t = Assignments s"
    "AssignmentEpochs t = AssignmentEpochs s"
    "AssignmentKeys t = AssignmentKeys s"
    "AssignedWorkCount t = AssignedWorkCount s"
    "DutyCounts t = DutyCounts s"
    "VotingRounds t = VotingRounds s"
    "OpenVoteRounds t = OpenVoteRounds s"
    "Votes t = Votes s"
    "RoundResults t = RoundResults s"
    "Equivocations t = Equivocations s"
    "block_no t = block_no s"
    "block_hash t = block_hash s"
  by (subst assms [unfolded stake_only_def], simp)+

lemma settle_worker_Ok:
  assumes "settle_worker E work rnd w s = Ok t"
  shows "stake_only s t" "registry_inv E s \<Longrightarrow> registry_inv E t"
    "\<And>v. worker_of t v \<noteq> None \<longleftrightarrow> worker_of s v \<noteq> None"
proof -
  obtain r where r: "worker_of s w = Some r"
    using assms by (auto simp: settle_worker_def res_simps)
  consider c e where "t = deposit_event e (s\<lparr>balances := c\<rparr>)"
    | c e x where "t = deposit_event e (insert_worker w (r\<lparr>w_active_stake := x\<rparr>) (s\<lparr>balances := c\<rparr>))"
  proof (cases "Votes s (work, rnd, w) = None")
    case True
    then show thesis
      using assms r that(2) by (auto simp: settle_worker_def res_simps Let_def split_beta)
  next
    case False
    then show thesis
      using assms r that(1) by (auto simp: settle_worker_def with_currency_def res_simps)
  qed
  then have "stake_only s t \<and> (registry_inv E s \<longrightarrow> registry_inv E t)
      \<and> (\<forall>v. worker_of t v \<noteq> None \<longleftrightarrow> worker_of s v \<noteq> None)"
  proof cases
    case (1 c e)
    have "stake_only s t"
      unfolding 1 stake_only_def by (simp add: deposit_event_def)
    then show ?thesis by (simp add: 1)
  next
    case (2 c e x)
    have "registry_inv E (insert_worker w (r\<lparr>w_active_stake := x\<rparr>) (s\<lparr>balances := c\<rparr>))"
      if "registry_inv E s"
      using that r by (intro registry_update) simp_all
    moreover have "stake_only s t"
      unfolding 2 stake_only_def by (simp add: insert_worker_def deposit_event_def)
    ultimately show ?thesis using r by (simp add: 2)
  qed
  then show "stake_only s t" "registry_inv E s \<Longrightarrow> registry_inv E t"
      "\<And>v. worker_of t v \<noteq> None \<longleftrightarrow> worker_of s v \<noteq> None"
    by blast+
qed

lemma settle_workers_Ok:
  assumes "settle_workers E work rnd ws s = Ok t"
  shows "stake_only s t \<and> (registry_inv E s \<longrightarrow> registry_inv E t)
    \<and> (\<forall>v. worker_of t v \<noteq> None \<longleftrightarrow> worker_of s v \<noteq> None)"
  using assms
proof (induction ws arbitrary: s)
  case (Cons w ws)
  then obtain u where u: "settle_worker E work rnd w s = Ok u" "settle_workers E work rnd ws u = Ok t"
    by (auto simp: res_simps)
  show ?case
    using Cons.IH [OF u(2)] settle_worker_Ok [OF u(1)] stake_only_trans by blast
qed simp

section \<open>Assignments\<close>

definition assign_inv :: "'c workers_env \<Rightarrow> 'c workers_state \<Rightarrow> bool" where
  "assign_inv E s \<longleftrightarrow>
     (\<forall>work rnd ws. Assignments s (work, rnd) = Some ws \<longrightarrow>
        distinct ws \<and> length ws = unat (WorkersPerWork E)
        \<and> (\<forall>w\<in>set ws. worker_of s w \<noteq> None \<and> AssignmentKeys s (work, rnd, w) \<noteq> None)
        \<and> AssignmentEpochs s (work, rnd) \<noteq> None)
     \<and> (\<forall>work rnd w. AssignmentKeys s (work, rnd, w) \<noteq> None \<longrightarrow>
        (\<exists>ws. Assignments s (work, rnd) = Some ws \<and> w \<in> set ws))
     \<and> (\<forall>k. DutyCounts s k \<le> MaxDutiesPerWorkerPerRound E)
     \<and> (\<forall>k. AssignedWorkCount s k \<le> MaxWorksPerRound E)"

lemma assign_invI:
  assumes "\<And>work rnd ws. Assignments s (work, rnd) = Some ws \<Longrightarrow>
        distinct ws \<and> length ws = unat (WorkersPerWork E)
        \<and> (\<forall>w\<in>set ws. worker_of s w \<noteq> None \<and> AssignmentKeys s (work, rnd, w) \<noteq> None)
        \<and> AssignmentEpochs s (work, rnd) \<noteq> None"
    and "\<And>work rnd w. AssignmentKeys s (work, rnd, w) \<noteq> None \<Longrightarrow>
        \<exists>ws. Assignments s (work, rnd) = Some ws \<and> w \<in> set ws"
    and "\<And>k. DutyCounts s k \<le> MaxDutiesPerWorkerPerRound E"
    and "\<And>k. AssignedWorkCount s k \<le> MaxWorksPerRound E"
  shows "assign_inv E s"
  using assms unfolding assign_inv_def by blast

lemma assign_invD:
  assumes "assign_inv E s"
  shows "Assignments s (work, rnd) = Some ws \<Longrightarrow>
        distinct ws \<and> length ws = unat (WorkersPerWork E)
        \<and> (\<forall>w\<in>set ws. worker_of s w \<noteq> None \<and> AssignmentKeys s (work, rnd, w) \<noteq> None)
        \<and> AssignmentEpochs s (work, rnd) \<noteq> None"
    and "AssignmentKeys s (work, rnd, w) \<noteq> None \<Longrightarrow>
        \<exists>ws. Assignments s (work, rnd) = Some ws \<and> w \<in> set ws"
    and "DutyCounts s d \<le> MaxDutiesPerWorkerPerRound E"
    and "AssignedWorkCount s k \<le> MaxWorksPerRound E"
  using assms unfolding assign_inv_def by blast+

lemma assign_frame:
  assumes "assign_inv E s" "Assignments t = Assignments s" "AssignmentKeys t = AssignmentKeys s"
    "AssignmentEpochs t = AssignmentEpochs s" "DutyCounts t = DutyCounts s"
    "AssignedWorkCount t = AssignedWorkCount s"
    and "\<And>w. worker_of s w \<noteq> None \<Longrightarrow> worker_of t w \<noteq> None"
  shows "assign_inv E t"
  using assms(1,7) unfolding assign_inv_def assms(2-6) by blast

interpretation scored: ranked "assignment_score E seed work rnd s" "\<lambda>w. w"
  by unfold_locales (simp add: assignment_score_def)

text \<open>The workers \<open>assign_work\<close> picks for a work without an assignment.\<close>

definition picked :: "'c workers_env \<Rightarrow> work_id \<Rightarrow> u8 \<Rightarrow> 'c workers_state \<Rightarrow> worker_id list" where
  "picked E work rnd s =
     select (assignment_score E (assignment_seed E s) work rnd s) (unat (WorkersPerWork E))
       (filter (\<lambda>w. DutyCounts s (CurrentEpoch s, rnd, w) < MaxDutiesPerWorkerPerRound E) (ActiveWorkers s))"

lemma picked_props:
  assumes "registry_inv E s"
  shows "distinct (picked E work rnd s)"
    and "w \<in> set (picked E work rnd s) \<Longrightarrow> w \<in> set (ActiveWorkers s)
      \<and> DutyCounts s (CurrentEpoch s, rnd, w) < MaxDutiesPerWorkerPerRound E \<and> worker_of s w \<noteq> None"
proof -
  have "distinct (map (\<lambda>w. w) (filter (\<lambda>w. DutyCounts s (CurrentEpoch s, rnd, w)
      < MaxDutiesPerWorkerPerRound E) (ActiveWorkers s)))"
    using assms by (simp add: registry_inv_def)
  from scored.distinct_select [OF this] show "distinct (picked E work rnd s)"
    by (simp add: picked_def)
  show "w \<in> set (ActiveWorkers s)
      \<and> DutyCounts s (CurrentEpoch s, rnd, w) < MaxDutiesPerWorkerPerRound E \<and> worker_of s w \<noteq> None"
    if "w \<in> set (picked E work rnd s)"
    using that assms unfolding picked_def registry_inv_def by (auto dest!: subsetD [OF set_select])
qed

definition duties_only :: "'c workers_state \<Rightarrow> 'c workers_state \<Rightarrow> bool" where
  "duties_only s t \<longleftrightarrow> t = s\<lparr>DutyCounts := DutyCounts t, AssignmentKeys := AssignmentKeys t\<rparr>"

lemma record_duties_Ok:
  assumes "\<forall>w\<in>set ws. worker_of s w \<noteq> None" "distinct ws"
  shows "\<exists>t. record_duties work rnd epoch ws s = Ok t \<and> duties_only s t
    \<and> (\<forall>e r w. DutyCounts t (e, r, w) =
         (if e = epoch \<and> r = rnd \<and> w \<in> set ws then saturating_add (DutyCounts s (e, r, w)) 1
          else DutyCounts s (e, r, w)))
    \<and> (\<forall>a r w. AssignmentKeys t (a, r, w) =
         (if a = work \<and> r = rnd \<and> w \<in> set ws then map_option w_session_key (worker_of s w)
          else AssignmentKeys s (a, r, w)))"
  using assms
proof (induction ws arbitrary: s)
  case (Cons v vs)
  then obtain r where r: "worker_of s v = Some r" by auto
  let ?s = "s\<lparr>DutyCounts := (DutyCounts s)((epoch, rnd, v) := saturating_add (DutyCounts s (epoch, rnd, v)) 1),
      AssignmentKeys := (AssignmentKeys s)((work, rnd, v) \<mapsto> w_session_key r)\<rparr>"
  obtain t where t: "record_duties work rnd epoch vs ?s = Ok t" "duties_only ?s t"
    "\<forall>e r w. DutyCounts t (e, r, w) =
         (if e = epoch \<and> r = rnd \<and> w \<in> set vs then saturating_add (DutyCounts ?s (e, r, w)) 1
          else DutyCounts ?s (e, r, w))"
    "\<forall>a r w. AssignmentKeys t (a, r, w) =
         (if a = work \<and> r = rnd \<and> w \<in> set vs then map_option w_session_key (worker_of ?s w)
          else AssignmentKeys ?s (a, r, w))"
    using Cons.IH [of ?s] Cons.prems by auto
  have "record_duties work rnd epoch (v # vs) s = Ok t"
    using r t(1) by simp
  moreover have "duties_only s t"
    using t(2) by (cases s; cases t) (simp add: duties_only_def)
  ultimately show ?case
    using t(3,4) r Cons.prems(2) by auto
qed (simp add: duties_only_def)

lemma assign_work_new:
  assumes "Assignments s (work, rnd) = None" "registry_inv E s"
    "AssignedWorkCount s (CurrentEpoch s, rnd) < MaxWorksPerRound E"
    "length (filter (\<lambda>w. DutyCounts s (CurrentEpoch s, rnd, w) < MaxDutiesPerWorkerPerRound E)
       (ActiveWorkers s)) \<ge> unat (WorkersPerWork E)"
  shows "\<exists>t. record_duties work rnd (CurrentEpoch s) (picked E work rnd s) s = Ok t \<and> duties_only s t
    \<and> assign_work E work rnd s = Ok (picked E work rnd s,
        t\<lparr>AssignedWorkCount := (AssignedWorkCount s)((CurrentEpoch s, rnd) :=
             AssignedWorkCount s (CurrentEpoch s, rnd) + 1),
          Assignments := (Assignments s)((work, rnd) \<mapsto> picked E work rnd s),
          AssignmentEpochs := (AssignmentEpochs s)((work, rnd) \<mapsto> CurrentEpoch s)\<rparr>)"
proof -
  obtain t where t: "record_duties work rnd (CurrentEpoch s) (picked E work rnd s) s = Ok t" "duties_only s t"
    using record_duties_Ok [of "picked E work rnd s" s work rnd "CurrentEpoch s"]
      picked_props [OF assms(2)] by blast
  have fields: "AssignedWorkCount t = AssignedWorkCount s" "Assignments t = Assignments s"
      "AssignmentEpochs t = AssignmentEpochs s"
    by (subst t(2) [unfolded duties_only_def], simp)+
  have "take (unat (WorkersPerWork E)) (sort_key (assignment_score E (assignment_seed E s) work rnd s)
      (filter (\<lambda>w. DutyCounts s (CurrentEpoch s, rnd, w) < MaxDutiesPerWorkerPerRound E) (ActiveWorkers s)))
      = picked E work rnd s"
    by (simp add: picked_def select_def)
  then show ?thesis
    using assms(1,3,4) t fields saturating_Suc(1) [OF assms(3)]
    by (simp add: assign_work_def Let_def ensure_def try_bounded_def picked_def)
qed

lemma assign_work_cases [consumes 1, case_names existing full few assigned]:
  assumes "registry_inv E s"
  obtains (existing) ws where "Assignments s (work, rnd) = Some ws" "assign_work E work rnd s = Ok (ws, s)"
  | (full) "Assignments s (work, rnd) = None" "\<not> AssignedWorkCount s (CurrentEpoch s, rnd) < MaxWorksPerRound E"
      "assign_work E work rnd s = Err (ModuleError TooManyWorks)"
  | (few) "Assignments s (work, rnd) = None"
      "length (filter (\<lambda>w. DutyCounts s (CurrentEpoch s, rnd, w) < MaxDutiesPerWorkerPerRound E)
         (ActiveWorkers s)) < unat (WorkersPerWork E)"
      "assign_work E work rnd s = Err (ModuleError InsufficientWorkers)"
  | (assigned) t where "Assignments s (work, rnd) = None"
      "AssignedWorkCount s (CurrentEpoch s, rnd) < MaxWorksPerRound E"
      "length (filter (\<lambda>w. DutyCounts s (CurrentEpoch s, rnd, w) < MaxDutiesPerWorkerPerRound E)
         (ActiveWorkers s)) \<ge> unat (WorkersPerWork E)"
      "record_duties work rnd (CurrentEpoch s) (picked E work rnd s) s = Ok t" "duties_only s t"
      "assign_work E work rnd s = Ok (picked E work rnd s,
        t\<lparr>AssignedWorkCount := (AssignedWorkCount s)((CurrentEpoch s, rnd) :=
             AssignedWorkCount s (CurrentEpoch s, rnd) + 1),
          Assignments := (Assignments s)((work, rnd) \<mapsto> picked E work rnd s),
          AssignmentEpochs := (AssignmentEpochs s)((work, rnd) \<mapsto> CurrentEpoch s)\<rparr>)"
proof (cases "Assignments s (work, rnd)")
  case (Some ws)
  then show thesis using existing by (simp add: assign_work_def)
next
  case None
  consider "\<not> AssignedWorkCount s (CurrentEpoch s, rnd) < MaxWorksPerRound E"
    | "AssignedWorkCount s (CurrentEpoch s, rnd) < MaxWorksPerRound E"
      "length (filter (\<lambda>w. DutyCounts s (CurrentEpoch s, rnd, w) < MaxDutiesPerWorkerPerRound E)
         (ActiveWorkers s)) < unat (WorkersPerWork E)"
    | "AssignedWorkCount s (CurrentEpoch s, rnd) < MaxWorksPerRound E"
      "length (filter (\<lambda>w. DutyCounts s (CurrentEpoch s, rnd, w) < MaxDutiesPerWorkerPerRound E)
         (ActiveWorkers s)) \<ge> unat (WorkersPerWork E)"
    by linarith
  then show thesis
  proof cases
    case 1
    then show thesis using None by (intro full) (simp_all add: assign_work_def ensure_def)
  next
    case 2
    then show thesis using None by (intro few) (simp_all add: assign_work_def ensure_def Let_def)
  next
    case 3
    then show thesis using assign_work_new [OF None assms 3] None assigned by blast
  qed
qed

section \<open>Voting\<close>

definition tally :: "'c workers_state \<Rightarrow> work_id \<Rightarrow> u8 \<Rightarrow> (verdict \<Rightarrow> bool) \<Rightarrow> worker_id list \<Rightarrow> nat" where
  "tally s work rnd P ws =
     length (filter (\<lambda>w. case Votes s (work, rnd, w) of None \<Rightarrow> False | Some v \<Rightarrow> P v) ws)"

text \<open>The counters of an open round are the counts of the stored votes, and the lock is justified
  by them.\<close>

definition round_ok ::
    "'c workers_env \<Rightarrow> 'c workers_state \<Rightarrow> work_id \<Rightarrow> u8 \<Rightarrow> worker_id list \<Rightarrow> voting_round \<Rightarrow> bool" where
  "round_ok E s work rnd ws vg \<longleftrightarrow>
     unat (vg_support vg) = tally s work rnd (\<lambda>v. v = Support) ws
     \<and> unat (vg_oppose vg) = tally s work rnd (\<lambda>v. v \<noteq> Support) ws
     \<and> unat (vg_responses vg) = tally s work rnd (\<lambda>_. True) ws
     \<and> (case vg_locked vg of
          None \<Rightarrow> vg_responses vg = 0 \<or> vg_support vg < SupportThreshold E \<and> vg_oppose vg < OpposeThreshold E
        | Some AcceptedRound \<Rightarrow> SupportThreshold E \<le> vg_support vg
        | Some RejectedRound \<Rightarrow> OpposeThreshold E \<le> vg_oppose vg)"

definition voting_inv :: "'c workers_env \<Rightarrow> 'c workers_state \<Rightarrow> bool" where
  "voting_inv E s \<longleftrightarrow>
     distinct (OpenVoteRounds s) \<and> length (OpenVoteRounds s) \<le> unat (MaxOpenVotes E)
     \<and> set (OpenVoteRounds s) = dom (VotingRounds s)
     \<and> (\<forall>work rnd vg. VotingRounds s (work, rnd) = Some vg \<longrightarrow>
          RoundResults s (work, rnd) = None
          \<and> (\<exists>ws. Assignments s (work, rnd) = Some ws \<and> round_ok E s work rnd ws vg))
     \<and> (\<forall>work rnd w. Votes s (work, rnd, w) \<noteq> None \<longrightarrow>
          (\<exists>ws. Assignments s (work, rnd) = Some ws \<and> w \<in> set ws)
          \<and> (VotingRounds s (work, rnd) \<noteq> None \<or> RoundResults s (work, rnd) \<noteq> None))"

lemma voting_frame:
  assumes "Assignments t = Assignments s" "VotingRounds t = VotingRounds s"
    "OpenVoteRounds t = OpenVoteRounds s" "Votes t = Votes s" "RoundResults t = RoundResults s"
  shows "voting_inv E t = voting_inv E s"
  unfolding voting_inv_def round_ok_def tally_def assms ..

lemma tally_frame: "Votes t = Votes s \<Longrightarrow> tally t work rnd P ws = tally s work rnd P ws"
  by (simp add: tally_def)

lemma round_ok_frame: "Votes t = Votes s \<Longrightarrow> round_ok E t work rnd ws vg = round_ok E s work rnd ws vg"
  by (simp add: round_ok_def tally_def)

lemma length_filter_upd:
  assumes "distinct ws" "w \<in> set ws" "\<not> Q w"
  shows "length (filter (\<lambda>x. if x = w then b else Q x) ws) = length (filter Q ws) + (if b then 1 else 0)"
proof -
  obtain xs ys where ws: "ws = xs @ w # ys" using assms(2) by (meson split_list)
  have "filter (\<lambda>x. if x = w then b else Q x) xs = filter Q xs"
      "filter (\<lambda>x. if x = w then b else Q x) ys = filter Q ys"
    using assms(1) ws by (auto intro!: filter_cong)
  then show ?thesis using assms(3) by (simp add: ws)
qed

lemma tally_vote:
  assumes "distinct ws" "w \<in> set ws" "Votes s (work, rnd, w) = None"
    and "Votes t = (Votes s)((work, rnd, w) \<mapsto> v)"
  shows "tally t work rnd P ws = tally s work rnd P ws + (if P v then 1 else 0)"
proof -
  have "tally t work rnd P ws = length (filter (\<lambda>x. if x = w then P v
      else case Votes s (work, rnd, x) of None \<Rightarrow> False | Some v \<Rightarrow> P v) ws)"
    unfolding tally_def by (rule arg_cong [where f = length]) (auto simp: assms(4) intro!: filter_cong)
  then show ?thesis
    using length_filter_upd [OF assms(1,2), of "\<lambda>x. case Votes s (work, rnd, x) of None \<Rightarrow> False | Some v \<Rightarrow> P v"]
      assms(3) by (simp add: tally_def)
qed

lemma tally_other:
  assumes "Votes t = (Votes s)((work, rnd, w) \<mapsto> v)" "(a, r) \<noteq> (work, rnd)"
  shows "tally t a r P ws = tally s a r P ws"
  using assms(2) by (auto simp: tally_def assms(1) intro!: arg_cong [where f = length] filter_cong)

lemma tally_le: "tally s work rnd P ws \<le> length ws"
  by (simp add: tally_def)

lemma tally_split:
  "tally s work rnd (\<lambda>v. v = Support) ws + tally s work rnd (\<lambda>v. v \<noteq> Support) ws = tally s work rnd (\<lambda>_. True) ws"
  unfolding tally_def by (induction ws) (auto split: option.split)

lemma unat_saturating_Suc:
  "unat (a :: u32) < unat (b :: u32) \<Longrightarrow> unat (saturating_add a 1) = Suc (unat a)"
  by (rule saturating_Suc(2) [of a b]) (simp add: word_less_nat_alt)

lemma count_vote_ok:
  assumes "round_ok E s work rnd ws vg" "distinct ws" "length ws = unat (WorkersPerWork E)" "w \<in> set ws"
    and "Votes s (work, rnd, w) = None" "Votes t = (Votes s)((work, rnd, w) \<mapsto> v)"
  shows "round_ok E t work rnd ws (count_vote E v vg)
    \<and> (\<forall>d. vg_locked vg = Some d \<longrightarrow> vg_locked (count_vote E v vg) = Some d)"
proof -
  have "tally t work rnd (\<lambda>_. True) ws \<le> unat (WorkersPerWork E)"
    using assms(3) tally_le by metis
  then have bound: "tally s work rnd (\<lambda>_. True) ws < unat (WorkersPerWork E)"
    using tally_vote [OF assms(2,4,5,6), of "\<lambda>_. True"] by simp
  have "unat (vg_responses vg) < unat (WorkersPerWork E)" "unat (vg_support vg) < unat (WorkersPerWork E)"
      "unat (vg_oppose vg) < unat (WorkersPerWork E)"
    using assms(1) bound tally_split [of s work rnd ws] by (simp_all add: round_ok_def)
  note * = this [THEN unat_saturating_Suc]
  note tl = tally_vote [OF assms(2,4,5,6)]
  show ?thesis
  proof (cases v)
    case Support
    then show ?thesis
      using assms(1) * unfolding round_ok_def tl count_vote_def Let_def
      by (auto simp: not_le word_le_nat_alt word_less_nat_alt split: option.splits round_decision.splits if_splits)
  next
    case (Oppose r)
    then show ?thesis
      using assms(1) * unfolding round_ok_def tl count_vote_def Let_def
      by (auto simp: not_le word_le_nat_alt word_less_nat_alt split: option.splits round_decision.splits if_splits)
  qed
qed

lemma voting_round_open:
  assumes "voting_inv E s" "VotingRounds s (work, rnd) = Some vg" "Assignments s (work, rnd) = Some ws"
  shows "round_ok E s work rnd ws vg" "RoundResults s (work, rnd) = None"
  using assms unfolding voting_inv_def by (metis option.inject)+

lemma voting_vote:
  assumes "voting_inv E s" "Votes s (work, rnd, w) \<noteq> None"
  shows "\<exists>ws. Assignments s (work, rnd) = Some ws \<and> w \<in> set ws"
    "VotingRounds s (work, rnd) \<noteq> None \<or> RoundResults s (work, rnd) \<noteq> None"
  using assms unfolding voting_inv_def by blast+

lemma voting_round:
  assumes "voting_inv E s" "VotingRounds s (work, rnd) = Some vg"
  shows "RoundResults s (work, rnd) = None"
    "\<exists>ws. Assignments s (work, rnd) = Some ws \<and> round_ok E s work rnd ws vg"
  using assms unfolding voting_inv_def by blast+

lemma voting_invI:
  assumes "distinct (OpenVoteRounds s)" "length (OpenVoteRounds s) \<le> unat (MaxOpenVotes E)"
    and "set (OpenVoteRounds s) = dom (VotingRounds s)"
    and "\<And>work rnd vg. VotingRounds s (work, rnd) = Some vg \<Longrightarrow> RoundResults s (work, rnd) = None
          \<and> (\<exists>ws. Assignments s (work, rnd) = Some ws \<and> round_ok E s work rnd ws vg)"
    and "\<And>work rnd w. Votes s (work, rnd, w) \<noteq> None \<Longrightarrow>
          (\<exists>ws. Assignments s (work, rnd) = Some ws \<and> w \<in> set ws)
          \<and> (VotingRounds s (work, rnd) \<noteq> None \<or> RoundResults s (work, rnd) \<noteq> None)"
  shows "voting_inv E s"
  using assms unfolding voting_inv_def by blast

lemma vote_recorded:
  assumes "voting_inv E s" "assign_inv E s" "VotingRounds s (work, rnd) = Some vg"
    and "Assignments s (work, rnd) = Some ws" "w \<in> set ws" "Votes s (work, rnd, w) = None"
    and t: "t = s\<lparr>Votes := (Votes s)((work, rnd, w) \<mapsto> v),
              VotingRounds := (VotingRounds s)((work, rnd) \<mapsto> count_vote E v vg)\<rparr>"
  shows "voting_inv E t"
proof -
  have ws: "distinct ws" "length ws = unat (WorkersPerWork E)"
    using assms(2,4) by (auto simp: assign_inv_def)
  have "round_ok E s work rnd ws vg" "RoundResults s (work, rnd) = None"
    using voting_round_open [OF assms(1,3,4)] by blast+
  then have new: "round_ok E t work rnd ws (count_vote E v vg)"
    using count_vote_ok [OF _ ws assms(5,6), of vg t v] by (simp add: t)
  have other: "round_ok E t a r us g = round_ok E s a r us g" if "(a, r) \<noteq> (work, rnd)" for a r us g
    using tally_other [OF _ that, of t s w v] by (simp add: round_ok_def t)
  have rounds: "RoundResults t (a, r) = None
      \<and> (\<exists>ws. Assignments t (a, r) = Some ws \<and> round_ok E t a r ws g)"
    if "VotingRounds t (a, r) = Some g" for a r g
  proof (cases "(a, r) = (work, rnd)")
    case True
    then show ?thesis
      using that new assms(4) \<open>RoundResults s (work, rnd) = None\<close> by (auto simp: t)
  next
    case False
    then have "VotingRounds s (a, r) = Some g" using that by (auto simp: t)
    then show ?thesis
      using assms(1) other [OF False] by (auto simp: voting_inv_def t)
  qed
  have "dom (VotingRounds t) = dom (VotingRounds s)"
    using assms(3) by (auto simp: t)
  moreover have "(\<exists>ws. Assignments t (a, r) = Some ws \<and> x \<in> set ws)
      \<and> (VotingRounds t (a, r) \<noteq> None \<or> RoundResults t (a, r) \<noteq> None)"
    if "Votes t (a, r, x) \<noteq> None" for a r x
  proof (cases "(a, r, x) = (work, rnd, w)")
    case False
    then have "Votes s (a, r, x) \<noteq> None" using that by (auto simp: t)
    then show ?thesis using assms(1) unfolding voting_inv_def by (auto simp: t)
  qed (use assms(4,5) in \<open>auto simp: t\<close>)
  moreover have "OpenVoteRounds t = OpenVoteRounds s" by (simp add: t)
  ultimately show ?thesis
    using assms(1) rounds unfolding voting_inv_def by simp
qed

lemma finalize_voting_Ok:
  assumes "finalize_voting E work rnd s = Ok t"
  obtains vg ws u e where "VotingRounds s (work, rnd) = Some vg" "Assignments s (work, rnd) = Some ws"
    "settle_workers E work rnd ws (s\<lparr>VotingRounds := (VotingRounds s)((work, rnd) := None)\<rparr>) = Ok u"
    "t = deposit_event e (u\<lparr>RoundResults := (RoundResults s)((work, rnd) \<mapsto>
           \<lparr>rr_decision = vg_locked vg, rr_absentees = filter (\<lambda>w. Votes s (work, rnd, w) = None) ws\<rparr>),
         OpenVoteRounds := remove_first (\<lambda>key. key = (work, rnd)) (OpenVoteRounds s)\<rparr>)"
proof -
  obtain vg where vg: "VotingRounds s (work, rnd) = Some vg"
    using assms by (auto simp: finalize_voting_def res_simps)
  obtain ws where ws: "Assignments s (work, rnd) = Some ws"
    using assms by (auto simp: finalize_voting_def res_simps Let_def)
  obtain u absentees where u: "settle_workers E work rnd ws (s\<lparr>VotingRounds := (VotingRounds s)((work, rnd) := None)\<rparr>) = Ok u"
    and t: "try_bounded (unat (WorkersPerWork E)) (filter (\<lambda>w. Votes u (work, rnd, w) = None) ws) = Some absentees"
      "t = deposit_event (VotingFinalized work rnd (vg_locked vg))
           (u\<lparr>RoundResults := (RoundResults u)((work, rnd) \<mapsto>
                \<lparr>rr_decision = vg_locked vg, rr_absentees = absentees\<rparr>),
              OpenVoteRounds := remove_first (\<lambda>key. key = (work, rnd)) (OpenVoteRounds u)\<rparr>)"
    using assms vg ws by (auto simp: finalize_voting_def ok_or_def bind_res_eq_Ok Let_def split: option.splits)
  have "stake_only (s\<lparr>VotingRounds := (VotingRounds s)((work, rnd) := None)\<rparr>) u"
    using settle_workers_Ok [OF u] by blast
  note eqs = stake_only_eqs [OF this, simplified]
  show thesis
    using t by (intro that [OF vg ws u]) (auto simp: eqs try_bounded_def split: if_splits)
qed

lemma finalize_keeps:
  assumes "finalize_voting E work rnd s = Ok t" "voting_inv E s" "assign_inv E s" "registry_inv E s"
  shows "voting_inv E t \<and> assign_inv E t \<and> registry_inv E t"
  using assms(1)
proof (rule finalize_voting_Ok)
  fix vg :: voting_round and ws u e
  let ?s = "s\<lparr>VotingRounds := (VotingRounds s)((work, rnd) := None)\<rparr>"
  let ?rr = "\<lparr>rr_decision = vg_locked vg, rr_absentees = filter (\<lambda>w. Votes s (work, rnd, w) = None) ws\<rparr>"
  assume vg: "VotingRounds s (work, rnd) = Some vg" and ws: "Assignments s (work, rnd) = Some ws"
    and u: "settle_workers E work rnd ws ?s = Ok u"
    and t: "t = deposit_event e (u\<lparr>RoundResults := (RoundResults s)((work, rnd) \<mapsto> ?rr),
         OpenVoteRounds := remove_first (\<lambda>key. key = (work, rnd)) (OpenVoteRounds s)\<rparr>)"
  have so: "stake_only ?s u" and reg: "registry_inv E ?s \<Longrightarrow> registry_inv E u"
    and dom: "\<And>v. worker_of u v \<noteq> None \<longleftrightarrow> worker_of s v \<noteq> None"
    using settle_workers_Ok [OF u] by auto
  note eqs = stake_only_eqs [OF so, simplified]
  have "registry_inv E ?s = registry_inv E s" by (rule registry_frame) simp_all
  then have "registry_inv E u" using reg assms(4) by simp
  moreover have "registry_inv E t = registry_inv E u"
    unfolding t registry_event by (rule registry_frame) simp_all
  ultimately have 1: "registry_inv E t" by simp
  have 2: "assign_inv E t"
    using assms(3) by (rule assign_frame) (use dom in \<open>simp_all add: t eqs\<close>)
  have opn: "distinct (OpenVoteRounds s)" "(work, rnd) \<in> set (OpenVoteRounds s)"
    "set (OpenVoteRounds s) = dom (VotingRounds s)"
    using assms(2) vg by (auto simp: voting_inv_def)
  have rm: "distinct (OpenVoteRounds t)" "set (OpenVoteRounds t) = set (OpenVoteRounds s) - {(work, rnd)}"
      "length (OpenVoteRounds t) \<le> length (OpenVoteRounds s)"
    using remove_first_distinct [OF opn(1), of "(work, rnd)"] opn(2)
    by (auto simp: t length_remove_first)
  have rok: "round_ok E t = round_ok E s"
    by (intro ext round_ok_frame) (simp add: t eqs)
  have fields: "Votes t = Votes s" "Assignments t = Assignments s"
      "VotingRounds t = (VotingRounds s)((work, rnd) := None)"
      "RoundResults t = (RoundResults s)((work, rnd) \<mapsto> ?rr)"
    by (simp_all add: t eqs)
  have 3: "voting_inv E t"
  proof (rule voting_invI)
    fix a r g
    assume "VotingRounds t (a, r) = Some g"
    then have "VotingRounds s (a, r) = Some g" "(a, r) \<noteq> (work, rnd)"
      by (auto simp: fields split: if_splits)
    then show "RoundResults t (a, r) = None \<and> (\<exists>ws. Assignments t (a, r) = Some ws \<and> round_ok E t a r ws g)"
      using voting_round [OF assms(2)] by (simp add: fields rok)
  next
    fix a r x
    assume "Votes t (a, r, x) \<noteq> None"
    then show "(\<exists>ws. Assignments t (a, r) = Some ws \<and> x \<in> set ws)
        \<and> (VotingRounds t (a, r) \<noteq> None \<or> RoundResults t (a, r) \<noteq> None)"
      using voting_vote [OF assms(2), of a r x] by (simp add: fields)
  qed (use rm opn(3) assms(2) in \<open>auto simp: fields voting_inv_def\<close>)
  from 1 2 3 show ?thesis by blast
qed

section \<open>The invariant of the pallet\<close>

definition workers_inv :: "'c workers_env \<Rightarrow> 'c workers_state \<Rightarrow> bool" where
  "workers_inv E s \<longleftrightarrow> registry_inv E s \<and> assign_inv E s \<and> voting_inv E s"

lemma workers_invD [dest]:
  "workers_inv E s \<Longrightarrow> registry_inv E s" "workers_inv E s \<Longrightarrow> assign_inv E s"
  "workers_inv E s \<Longrightarrow> voting_inv E s"
  by (simp_all add: workers_inv_def)

text \<open>A step on the registry alone.\<close>

lemma workers_inv_registry:
  assumes "workers_inv E s" "registry_inv E t"
    and "Assignments t = Assignments s" "AssignmentKeys t = AssignmentKeys s"
    "AssignmentEpochs t = AssignmentEpochs s" "DutyCounts t = DutyCounts s"
    "AssignedWorkCount t = AssignedWorkCount s" "VotingRounds t = VotingRounds s"
    "OpenVoteRounds t = OpenVoteRounds s" "Votes t = Votes s" "RoundResults t = RoundResults s"
    and "\<And>w. worker_of s w \<noteq> None \<Longrightarrow> worker_of t w \<noteq> None"
  shows "workers_inv E t"
proof -
  have "assign_inv E t"
    by (rule assign_frame [of E s]) (use assms in auto)
  moreover have "voting_inv E t = voting_inv E s"
    by (rule voting_frame) (use assms in auto)
  ultimately show ?thesis
    using assms(1,2) by (simp add: workers_inv_def)
qed

lemma register_fields:
  assumes "register E origin key stake s = Ok t"
  shows "Assignments t = Assignments s" "AssignmentKeys t = AssignmentKeys s"
    "AssignmentEpochs t = AssignmentEpochs s" "DutyCounts t = DutyCounts s"
    "AssignedWorkCount t = AssignedWorkCount s" "VotingRounds t = VotingRounds s"
    "OpenVoteRounds t = OpenVoteRounds s" "Votes t = Votes s" "RoundResults t = RoundResults s"
    "Equivocations t = Equivocations s"
    "worker_of s w \<noteq> None \<Longrightarrow> worker_of t w \<noteq> None"
  using assms
  by (auto simp: register_def hold_stake_def with_currency_def res_simps Let_def)

lemma inv_register: "register E origin key stake s = Ok t \<Longrightarrow> workers_inv E s \<Longrightarrow> workers_inv E t"
  by (rule workers_inv_registry [of E s]) (auto simp: register_fields intro: registry_register)

lemma inv_schedule:
  assumes "schedule_update E origin key stake s = Ok t" "workers_inv E s"
  shows "workers_inv E t"
proof -
  have "registry_inv E t"
    using assms registry_schedule by blast
  with assms(1) show ?thesis
    by (elim schedule_update_Ok) (rule workers_inv_registry [OF assms(2)], auto)
qed

lemma equivocation_Ok:
  assumes "submit_equivocation E origin w v1 s1 v2 s2 s = Ok t"
  obtains r x y c e where "worker_of s w = Some r" "Equivocations s (v_work_id v1, v_round v1, w) = None"
    "t = deposit_event e ((insert_worker w (r\<lparr>w_active_stake := x, w_suspended_until := y\<rparr>) (s\<lparr>balances := c\<rparr>))
       \<lparr>Equivocations := (Equivocations s)((v_work_id v1, v_round v1, w) \<mapsto> ())\<rparr>)"
  using assms
  by (auto simp: submit_equivocation_def res_simps Let_def split_beta)

lemma inv_equivocation:
  assumes "submit_equivocation E origin w v1 s1 v2 s2 s = Ok t" "workers_inv E s"
  shows "workers_inv E t"
  using assms(1)
proof (rule equivocation_Ok)
  fix r x y c e
  let ?u = "insert_worker w (r\<lparr>w_active_stake := x, w_suspended_until := y\<rparr>) (s\<lparr>balances := c\<rparr>)"
  assume r: "worker_of s w = Some r"
    and t: "t = deposit_event e (?u\<lparr>Equivocations := (Equivocations s)((v_work_id v1, v_round v1, w) \<mapsto> ())\<rparr>)"
  have "registry_inv E ?u"
    using assms(2) r by (intro registry_update) auto
  moreover have "registry_inv E t = registry_inv E ?u"
    unfolding t registry_event by (rule registry_frame) simp_all
  ultimately show ?thesis
    by (intro workers_inv_registry [OF assms(2)]) (auto simp: t)
qed

lemma validate_worker_vote_Ok:
  "validate_worker_vote E w vote sig s = Ok () \<longleftrightarrow>
     (\<exists>vg ws key. VotingRounds s (v_work_id vote, v_round vote) = Some vg
        \<and> Assignments s (v_work_id vote, v_round vote) = Some ws \<and> w \<in> set ws
        \<and> Votes s (v_work_id vote, v_round vote, w) = None \<and> block_no s \<le> vg_deadline vg
        \<and> v_assignment_epoch vote = vg_assignment_epoch vg
        \<and> v_candidate_report_hash vote = vg_candidate_hash vg \<and> v_deadline vote = vg_deadline vg
        \<and> v_chain_id vote = ChainId E \<and> v_protocol_version vote = ProtocolVersion E
        \<and> AssignmentKeys s (v_work_id vote, v_round vote, w) = Some key
        \<and> sr25519_verify E sig (vote_signing_hash (blake2_256 E) (encode_vote E) vote) key)"
  by (auto simp: validate_worker_vote_def res_simps Let_def)

lemma submit_vote_Ok:
  assumes "submit_vote E origin w vote sig s = Ok t"
  obtains vg ws u where "validate_worker_vote E w vote sig s = Ok ()"
    "VotingRounds s (v_work_id vote, v_round vote) = Some vg"
    "Assignments s (v_work_id vote, v_round vote) = Some ws" "w \<in> set ws"
    "Votes s (v_work_id vote, v_round vote, w) = None"
    "u = s\<lparr>Votes := (Votes s)((v_work_id vote, v_round vote, w) \<mapsto> v_verdict vote),
         VotingRounds := (VotingRounds s)((v_work_id vote, v_round vote) \<mapsto> count_vote E (v_verdict vote) vg)\<rparr>"
    "t = deposit_event (VoteSubmitted (v_work_id vote) (v_round vote) w) u
     \<or> finalize_voting E (v_work_id vote) (v_round vote)
         (deposit_event (VoteSubmitted (v_work_id vote) (v_round vote) w) u) = Ok t"
proof -
  have v: "validate_worker_vote E w vote sig s = Ok ()"
    using assms by (auto simp: submit_vote_def res_simps Let_def)
  then obtain vg ws where *: "VotingRounds s (v_work_id vote, v_round vote) = Some vg"
    "Assignments s (v_work_id vote, v_round vote) = Some ws" "w \<in> set ws"
    "Votes s (v_work_id vote, v_round vote, w) = None"
    by (auto simp: validate_worker_vote_Ok)
  show thesis
    using assms v * by (intro that [OF v *, OF refl]) (auto simp: submit_vote_def ok_or_def ensure_def Let_def split: if_splits)
qed

lemma voting_event [simp]: "voting_inv E (deposit_event e s) = voting_inv E s"
  by (rule voting_frame) simp_all

lemma assign_event [simp]: "assign_inv E (deposit_event e s) = assign_inv E s"
  by (rule iffI; erule assign_frame) simp_all

lemma inv_submit_vote:
  assumes "submit_vote E origin w vote sig s = Ok t" "workers_inv E s"
  shows "workers_inv E t"
  using assms(1)
proof (rule submit_vote_Ok)
  fix vg ws and u :: "'a workers_state"
  let ?k = "(v_work_id vote, v_round vote)" and ?e = "VoteSubmitted (v_work_id vote) (v_round vote) w"
  assume vg: "VotingRounds s ?k = Some vg" "Assignments s ?k = Some ws" "w \<in> set ws"
    "Votes s (v_work_id vote, v_round vote, w) = None"
    and u: "u = s\<lparr>Votes := (Votes s)((v_work_id vote, v_round vote, w) \<mapsto> v_verdict vote),
         VotingRounds := (VotingRounds s)(?k \<mapsto> count_vote E (v_verdict vote) vg)\<rparr>"
    and t: "t = deposit_event ?e u \<or> finalize_voting E (v_work_id vote) (v_round vote) (deposit_event ?e u) = Ok t"
  have 1: "voting_inv E u"
    using vote_recorded [OF _ _ vg u] assms(2) by blast
  have 2: "assign_inv E u"
    by (rule assign_frame [of E s]) (use assms(2) in \<open>auto simp: u\<close>)
  have 3: "registry_inv E u = registry_inv E s"
    by (rule registry_frame) (simp_all add: u)
  have "registry_inv E u" using 3 assms(2) by blast
  then show ?thesis
    using t 1 2 finalize_keeps [of E "v_work_id vote" "v_round vote" "deposit_event ?e u" t]
    by (auto simp: workers_inv_def)
qed

lemma Ok_pair_eq: "r = Ok (a, b) \<Longrightarrow> r = Ok (c, d) \<Longrightarrow> a = c \<and> b = d"
  by simp

lemma length_picked:
  "length (filter (\<lambda>w. DutyCounts s (CurrentEpoch s, rnd, w) < MaxDutiesPerWorkerPerRound E)
     (ActiveWorkers s)) \<ge> unat (WorkersPerWork E) \<Longrightarrow> length (picked E work rnd s) = unat (WorkersPerWork E)"
  by (simp add: picked_def)

lemma inv_assign_work:
  assumes "assign_work E work rnd s = Ok (ws, t)" "workers_inv E s"
  shows "workers_inv E t"
proof -
  have reg: "registry_inv E s" and asg: "assign_inv E s" and vot: "voting_inv E s"
    using assms(2) by blast+
  from reg show ?thesis
  proof (cases rule: assign_work_cases [where work = work and rnd = rnd])
    case (assigned u)
    let ?p = "picked E work rnd s"
    have t: "t = u\<lparr>AssignedWorkCount := (AssignedWorkCount s)((CurrentEpoch s, rnd) :=
             AssignedWorkCount s (CurrentEpoch s, rnd) + 1),
          Assignments := (Assignments s)((work, rnd) \<mapsto> ?p),
          AssignmentEpochs := (AssignmentEpochs s)((work, rnd) \<mapsto> CurrentEpoch s)\<rparr>"
      using Ok_pair_eq [OF assms(1) assigned(6)] by (rule conjunct2)
    note du = assigned(5) [unfolded duties_only_def]
    have eqs: "Workers u = Workers s" "WorkerByAccount u = WorkerByAccount s"
        "NextWorkerId u = NextWorkerId s" "WorkerCount u = WorkerCount s" "ActiveWorkers u = ActiveWorkers s"
        "PendingUpdates u = PendingUpdates s" "Unbonding u = Unbonding s" "VotingRounds u = VotingRounds s"
        "OpenVoteRounds u = OpenVoteRounds s" "Votes u = Votes s" "RoundResults u = RoundResults s"
      by (subst du, simp)+
    have p: "distinct ?p" "length ?p = unat (WorkersPerWork E)"
        "\<And>w. w \<in> set ?p \<Longrightarrow> DutyCounts s (CurrentEpoch s, rnd, w) < MaxDutiesPerWorkerPerRound E"
        "\<And>w. w \<in> set ?p \<Longrightarrow> worker_of s w \<noteq> None"
      using picked_props [OF reg, where work = work and rnd = rnd] assigned(3) length_picked by blast+
    have dk: "DutyCounts u (e, r, w) = (if e = CurrentEpoch s \<and> r = rnd \<and> w \<in> set ?p
            then saturating_add (DutyCounts s (e, r, w)) 1 else DutyCounts s (e, r, w))"
        "AssignmentKeys u (a, r, w) = (if a = work \<and> r = rnd \<and> w \<in> set ?p
            then map_option w_session_key (worker_of s w) else AssignmentKeys s (a, r, w))" for e a r w
      using record_duties_Ok [OF _ p(1), of s work rnd "CurrentEpoch s"] p(4) assigned(4) by auto
    have "registry_inv E t = registry_inv E s"
      by (rule registry_frame) (simp_all add: t eqs)
    moreover have "assign_inv E t"
    proof (rule assign_invI)
      fix a r us
      assume us: "Assignments t (a, r) = Some us"
      show "distinct us \<and> length us = unat (WorkersPerWork E)
          \<and> (\<forall>w\<in>set us. worker_of t w \<noteq> None \<and> AssignmentKeys t (a, r, w) \<noteq> None)
          \<and> AssignmentEpochs t (a, r) \<noteq> None"
      proof (cases "(a, r) = (work, rnd)")
        case True
        then show ?thesis using us p(1,2,4) by (auto simp: t eqs dk)
      next
        case False
        then have "Assignments s (a, r) = Some us" using us by (auto simp: t)
        from assign_invD(1) [OF asg this] False show ?thesis by (auto simp: t eqs dk)
      qed
    next
      fix a r w
      assume key: "AssignmentKeys t (a, r, w) \<noteq> None"
      show "\<exists>ws. Assignments t (a, r) = Some ws \<and> w \<in> set ws"
      proof (cases "a = work \<and> r = rnd \<and> w \<in> set ?p")
        case False
        then have "AssignmentKeys s (a, r, w) \<noteq> None" using key by (auto simp: t dk)
        from assign_invD(2) [OF asg this] assigned(1) show ?thesis by (auto simp: t)
      qed (simp add: t)
    next
      fix k :: "epoch_index \<times> u8 \<times> worker_id"
      obtain e r w where k: "k = (e, r, w)" by (cases k)
      show "DutyCounts t k \<le> MaxDutiesPerWorkerPerRound E"
        using assign_invD(3) [OF asg, of k] saturating_Suc(3) [OF p(3), of w] by (auto simp: t dk k)
    next
      fix k
      show "AssignedWorkCount t k \<le> MaxWorksPerRound E"
        using assign_invD(4) [OF asg, of k] unat_Suc_less(2) [OF assigned(2)] by (auto simp: t)
    qed
    moreover have "voting_inv E t"
    proof (rule voting_invI)
      fix a r g
      assume "VotingRounds t (a, r) = Some g"
      then have "VotingRounds s (a, r) = Some g" by (simp add: t eqs)
      note vr = voting_round [OF vot this]
      then have "(a, r) \<noteq> (work, rnd)" using assigned(1) by auto
      then show "RoundResults t (a, r) = None \<and> (\<exists>ws. Assignments t (a, r) = Some ws \<and> round_ok E t a r ws g)"
        using vr round_ok_frame [of t s E a r] by (auto simp: t eqs)
    next
      fix a r x
      assume "Votes t (a, r, x) \<noteq> None"
      then have "Votes s (a, r, x) \<noteq> None" by (simp add: t eqs)
      note vv = voting_vote [OF vot this]
      then have "(a, r) \<noteq> (work, rnd)" using assigned(1) by auto
      then show "(\<exists>ws. Assignments t (a, r) = Some ws \<and> x \<in> set ws)
          \<and> (VotingRounds t (a, r) \<noteq> None \<or> RoundResults t (a, r) \<noteq> None)"
        using vv by (auto simp: t eqs)
    qed (use vot in \<open>auto simp: t eqs voting_inv_def\<close>)
    ultimately show ?thesis
      using reg by (simp add: workers_inv_def)
  qed (use assms in auto)
qed

lemma open_voting_Ok:
  assumes "open_voting E work rnd h d s = Ok t"
  obtains ws epoch where "Assignments s (work, rnd) = Some ws" "VotingRounds s (work, rnd) = None"
    "RoundResults s (work, rnd) = None" "length (OpenVoteRounds s) < unat (MaxOpenVotes E)"
    "d > block_no s" "AssignmentEpochs s (work, rnd) = Some epoch"
    "t = s\<lparr>OpenVoteRounds := OpenVoteRounds s @ [(work, rnd)],
         VotingRounds := (VotingRounds s)((work, rnd) \<mapsto>
           \<lparr>vg_assignment_epoch = epoch, vg_candidate_hash = h, vg_deadline = d,
            vg_support = 0, vg_oppose = 0, vg_responses = 0, vg_locked = None\<rparr>)\<rparr>"
  using assms by (auto simp: open_voting_def res_simps try_push_Some)

lemma inv_open_voting:
  assumes "open_voting E work rnd h d s = Ok t" "workers_inv E s"
  shows "workers_inv E t"
  using assms(1)
proof (rule open_voting_Ok)
  fix ws epoch
  let ?vg = "\<lparr>vg_assignment_epoch = epoch, vg_candidate_hash = h, vg_deadline = d,
            vg_support = 0, vg_oppose = 0, vg_responses = 0, vg_locked = None\<rparr>"
  assume ws: "Assignments s (work, rnd) = Some ws" and none: "VotingRounds s (work, rnd) = None"
    "RoundResults s (work, rnd) = None" and len: "length (OpenVoteRounds s) < unat (MaxOpenVotes E)"
    and t: "t = s\<lparr>OpenVoteRounds := OpenVoteRounds s @ [(work, rnd)],
         VotingRounds := (VotingRounds s)((work, rnd) \<mapsto> ?vg)\<rparr>"
  have vot: "voting_inv E s" using assms(2) by blast
  have "Votes s (work, rnd, w) = None" for w
    using voting_vote(2) [OF vot, of work rnd w] none by (cases "Votes s (work, rnd, w)") auto
  then have "tally t work rnd P ws = 0" for P
    by (simp add: tally_def t)
  then have ok: "round_ok E t work rnd ws ?vg"
    by (simp add: round_ok_def)
  have "voting_inv E t"
  proof (rule voting_invI)
    fix a r g
    assume g: "VotingRounds t (a, r) = Some g"
    show "RoundResults t (a, r) = None \<and> (\<exists>ws. Assignments t (a, r) = Some ws \<and> round_ok E t a r ws g)"
    proof (cases "(a, r) = (work, rnd)")
      case True
      then show ?thesis using g ok ws none by (auto simp: t)
    next
      case False
      then have "VotingRounds s (a, r) = Some g" using g by (auto simp: t)
      from voting_round [OF vot this] show ?thesis
        using round_ok_frame [of t s E a r] by (auto simp: t)
    qed
  next
    fix a r x
    assume "Votes t (a, r, x) \<noteq> None"
    then have "Votes s (a, r, x) \<noteq> None" by (simp add: t)
    from voting_vote [OF vot this]
    show "(\<exists>ws. Assignments t (a, r) = Some ws \<and> x \<in> set ws)
        \<and> (VotingRounds t (a, r) \<noteq> None \<or> RoundResults t (a, r) \<noteq> None)"
      by (auto simp: t)
  qed (use vot none len in \<open>auto simp: t voting_inv_def\<close>)
  moreover have "assign_inv E t"
    by (rule assign_frame [of E s]) (use assms(2) in \<open>auto simp: t\<close>)
  moreover have "registry_inv E t = registry_inv E s"
    by (rule registry_frame) (simp_all add: t)
  ultimately show ?thesis
    using assms(2) by (simp add: workers_inv_def)
qed

lemma clear_fold:
  "fold (\<lambda>w s. s\<lparr>AssignmentKeys := (AssignmentKeys s)((work, rnd, w) := None),
                 Votes := (Votes s)((work, rnd, w) := None)\<rparr>) ws s =
   s\<lparr>AssignmentKeys := (\<lambda>(a, r, w). if a = work \<and> r = rnd \<and> w \<in> set ws then None else AssignmentKeys s (a, r, w)),
     Votes := (\<lambda>(a, r, w). if a = work \<and> r = rnd \<and> w \<in> set ws then None else Votes s (a, r, w))\<rparr>"
  by (induction ws arbitrary: s) (auto simp: fun_eq_iff intro!: workers_state.equality)

lemma clear_assignment_fields:
  assumes "assign_inv E s" "voting_inv E s" "t = clear_assignment work rnd s"
  shows "Assignments t = (Assignments s)((work, rnd) := None)"
    "AssignmentEpochs t = (AssignmentEpochs s)((work, rnd) := None)"
    "AssignmentKeys t (a, r, w) = (if (a, r) = (work, rnd) then None else AssignmentKeys s (a, r, w))"
    "Votes t (a, r, w) = (if (a, r) = (work, rnd) then None else Votes s (a, r, w))"
    "VotingRounds t = VotingRounds s" "RoundResults t = RoundResults s" "OpenVoteRounds t = OpenVoteRounds s"
    "Workers t = Workers s" "DutyCounts t = DutyCounts s" "AssignedWorkCount t = AssignedWorkCount s"
    "registry_inv E t = registry_inv E s" "Equivocations t = Equivocations s" "balances t = balances s"
    "block_no t = block_no s"
proof -
  have keys: "\<exists>ws. Assignments s (work, rnd) = Some ws \<and> w \<in> set ws" if "AssignmentKeys s (work, rnd, w) \<noteq> None" for w
    using assms(1) that unfolding assign_inv_def by blast
  show "AssignmentKeys t (a, r, w) = (if (a, r) = (work, rnd) then None else AssignmentKeys s (a, r, w))"
    using keys [of w]
    by (cases "Assignments s (work, rnd)"; cases "AssignmentKeys s (work, rnd, w)") (auto simp: assms(3) clear_assignment_def clear_fold)
  show "Votes t (a, r, w) = (if (a, r) = (work, rnd) then None else Votes s (a, r, w))"
    using voting_vote(1) [OF assms(2), of work rnd w]
    by (cases "Assignments s (work, rnd)"; cases "Votes s (work, rnd, w)") (auto simp: assms(3) clear_assignment_def clear_fold)
  show "registry_inv E t = registry_inv E s"
    by (rule registry_frame)
      (cases "Assignments s (work, rnd)", simp_all add: assms(3) clear_assignment_def clear_fold)+
qed (cases "Assignments s (work, rnd)", simp_all add: assms(3) clear_assignment_def clear_fold fun_upd_idem)+

lemma inv_clear:
  assumes "workers_inv E s" "VotingRounds s (work, rnd) = None" "t = clear_assignment work rnd s"
  shows "workers_inv E t"
proof -
  have asg: "assign_inv E s" and vot: "voting_inv E s" using assms(1) by blast+
  note f = clear_assignment_fields [OF asg vot assms(3)]
  have "assign_inv E t"
  proof (rule assign_invI)
    fix a r us
    assume "Assignments t (a, r) = Some us"
    then have us: "(a, r) \<noteq> (work, rnd)" "Assignments s (a, r) = Some us" by (auto simp: f(1) split: if_splits)
    from assign_invD(1) [OF asg us(2)] us(1)
    show "distinct us \<and> length us = unat (WorkersPerWork E)
        \<and> (\<forall>w\<in>set us. worker_of t w \<noteq> None \<and> AssignmentKeys t (a, r, w) \<noteq> None)
        \<and> AssignmentEpochs t (a, r) \<noteq> None"
      by (auto simp: f)
  next
    fix a r w
    assume "AssignmentKeys t (a, r, w) \<noteq> None"
    then have "(a, r) \<noteq> (work, rnd)" "AssignmentKeys s (a, r, w) \<noteq> None" by (auto simp: f split: if_splits)
    with assign_invD(2) [OF asg, of a r w] show "\<exists>ws. Assignments t (a, r) = Some ws \<and> w \<in> set ws"
      by (simp add: f)
  qed (use assign_invD(3,4) [OF asg] in \<open>simp_all add: f\<close>)
  moreover have "voting_inv E t"
  proof (rule voting_invI)
    fix a r g
    assume "VotingRounds t (a, r) = Some g"
    then have g: "VotingRounds s (a, r) = Some g" "(a, r) \<noteq> (work, rnd)" using assms(2) by (auto simp: f)
    have "round_ok E t a r ws g = round_ok E s a r ws g" for ws
      using g(2) by (auto simp: round_ok_def tally_def f)
    then show "RoundResults t (a, r) = None \<and> (\<exists>ws. Assignments t (a, r) = Some ws \<and> round_ok E t a r ws g)"
      using voting_round [OF vot g(1)] g(2) by (auto simp: f)
  next
    fix a r x
    assume "Votes t (a, r, x) \<noteq> None"
    then have "Votes s (a, r, x) \<noteq> None" "(a, r) \<noteq> (work, rnd)" by (auto simp: f split: if_splits)
    then show "(\<exists>ws. Assignments t (a, r) = Some ws \<and> x \<in> set ws)
        \<and> (VotingRounds t (a, r) \<noteq> None \<or> RoundResults t (a, r) \<noteq> None)"
      using voting_vote [OF vot] by (simp add: f)
  qed (use vot in \<open>simp_all add: f voting_inv_def\<close>)
  ultimately show ?thesis
    using assms(1) f(11) by (simp add: workers_inv_def)
qed

section \<open>Block initialisation\<close>

lemma inv_finalize_due:
  assumes "finalize_due E block k s = Ok t" "workers_inv E s"
  shows "workers_inv E t"
  using assms finalize_keeps [of E "fst k" "snd k" s]
  by (cases k) (auto simp: finalize_due_def workers_inv_def split: option.splits if_splits outcome.splits)

lemma inv_finalize_due_list:
  "finalize_due_list E block ks s = Ok t \<Longrightarrow> workers_inv E s \<Longrightarrow> workers_inv E t"
  by (induction ks arbitrary: s) (auto simp: res_simps dest: inv_finalize_due)

text \<open>Pending updates and releases touch registry, balances and events only, and forget no worker.\<close>

definition registry_only :: "'c workers_state \<Rightarrow> 'c workers_state \<Rightarrow> bool" where
  "registry_only s t \<longleftrightarrow>
     t = s\<lparr>Workers := Workers t, PendingUpdates := PendingUpdates t, Unbonding := Unbonding t,
           balances := balances t, w_events := w_events t\<rparr>
     \<and> (\<forall>w. worker_of s w \<noteq> None \<longrightarrow> worker_of t w \<noteq> None)"

lemma registry_only_refl: "registry_only s s"
  by (simp add: registry_only_def)

lemma registry_only_trans: "registry_only s t \<Longrightarrow> registry_only t u \<Longrightarrow> registry_only s u"
  by (cases s; cases t; cases u) (simp add: registry_only_def)

lemma registry_only_eqs:
  assumes "registry_only s t"
  shows "Assignments t = Assignments s" "AssignmentKeys t = AssignmentKeys s"
    "AssignmentEpochs t = AssignmentEpochs s" "DutyCounts t = DutyCounts s"
    "AssignedWorkCount t = AssignedWorkCount s" "VotingRounds t = VotingRounds s"
    "OpenVoteRounds t = OpenVoteRounds s" "Votes t = Votes s" "RoundResults t = RoundResults s"
    "Equivocations t = Equivocations s" "CurrentEpoch t = CurrentEpoch s" "block_no t = block_no s"
  by (subst conjunct1 [OF assms [unfolded registry_only_def]], simp)+

lemma registry_only_apply_update: "registry_only s (apply_update epoch e s)"
  by (cases e; cases s)
    (auto simp: registry_only_def apply_update_def insert_worker_def deposit_event_def Let_def split: option.split)

lemma registry_only_release_chunk: "registry_only s (release_chunk E epoch e s)"
  by (cases e; cases s)
    (auto simp: registry_only_def release_chunk_def deposit_event_def split: option.split)

lemma registry_only_epoch:
  "registry_only s (release_mature_unbonding E epoch (apply_pending_updates E epoch s))"
proof -
  have "registry_only s (fold (apply_update epoch) us s)" for us s
    by (induction us arbitrary: s)
      (auto intro: registry_only_refl registry_only_trans registry_only_apply_update)
  moreover have "registry_only s (fold (release_chunk E epoch) us s)" for us s
    by (induction us arbitrary: s)
      (auto intro: registry_only_refl registry_only_trans registry_only_release_chunk)
  ultimately show ?thesis
    unfolding apply_pending_updates_def release_mature_unbonding_def by (blast intro: registry_only_trans)
qed

definition eligible_worker :: "epoch_index \<Rightarrow> worker_id \<times> worker \<Rightarrow> bool" where
  "eligible_worker epoch e \<longleftrightarrow> w_effective_epoch (snd e) \<le> epoch \<and> w_suspended_until (snd e) \<le> epoch"

definition stake_entry :: "worker_id \<times> worker \<Rightarrow> worker_id \<times> balance" where
  "stake_entry e = (fst e, w_active_stake (snd e))"

lemma push_eligible_fold:
  "length acc + length xs \<le> unat (MaxCandidates E) \<Longrightarrow>
     fold (push_eligible E epoch) xs acc = acc @ map stake_entry (filter (eligible_worker epoch) xs)"
  by (induction xs arbitrary: acc)
    (auto simp: push_eligible_def try_push_def eligible_worker_def stake_entry_def)

interpretation snapshot: ranked stake_order fst
  by unfold_locales (simp add: stake_order_def)

lemma epoch_snapshot_eq:
  assumes "registry_inv E s" "iter_law E"
  shows "epoch_snapshot E epoch s =
    map fst (select stake_order (unat (TopWorkers E))
      (map stake_entry (filter (eligible_worker epoch) (Workers s))))"
proof -
  let ?it = "iter_entries E (Workers s)"
  have dw: "distinct (map fst (Workers s))" and lw: "length (Workers s) \<le> unat (MaxCandidates E)"
    using assms(1) by (simp_all add: registry_inv_def)
  have ms: "mset ?it = mset (Workers s)"
    using assms(2) dw by (rule mset_iter_entries)
  have "length ?it \<le> unat (MaxCandidates E)"
    using lw mset_eq_length [OF ms] by simp
  then have "epoch_snapshot E epoch s = map fst (select stake_order (unat (TopWorkers E))
      (map stake_entry (filter (eligible_worker epoch) ?it)))"
    by (simp add: epoch_snapshot_def select_def push_eligible_fold)
  also have "select stake_order (unat (TopWorkers E)) (map stake_entry (filter (eligible_worker epoch) ?it)) =
      select stake_order (unat (TopWorkers E)) (map stake_entry (filter (eligible_worker epoch) (Workers s)))"
  proof (rule snapshot.select_perm)
    show "mset (map stake_entry (filter (eligible_worker epoch) ?it)) =
        mset (map stake_entry (filter (eligible_worker epoch) (Workers s)))"
      using ms by simp
    have "distinct (map fst ?it)"
      using mset_eq_imp_distinct_iff [of "map fst ?it" "map fst (Workers s)"] ms dw by simp
    then show "distinct (map fst (map stake_entry (filter (eligible_worker epoch) ?it)))"
      by (simp add: stake_entry_def comp_def distinct_map_filter)
  qed
  finally show ?thesis .
qed

lemma epoch_snapshot_props:
  assumes "registry_inv E s" "iter_law E"
  shows "distinct (epoch_snapshot E epoch s)" "length (epoch_snapshot E epoch s) \<le> unat (TopWorkers E)"
    "w \<in> set (epoch_snapshot E epoch s) \<Longrightarrow> worker_of s w \<noteq> None"
proof -
  have "distinct (map fst (map stake_entry (filter (eligible_worker epoch) (Workers s))))"
    using assms(1) by (simp add: registry_inv_def stake_entry_def comp_def distinct_map_filter)
  from snapshot.distinct_select [OF this] show "distinct (epoch_snapshot E epoch s)"
    unfolding epoch_snapshot_eq [OF assms] .
  show "length (epoch_snapshot E epoch s) \<le> unat (TopWorkers E)"
    unfolding epoch_snapshot_eq [OF assms] by simp
  show "worker_of s w \<noteq> None" if "w \<in> set (epoch_snapshot E epoch s)"
  proof -
    have "w \<in> fst ` set (map stake_entry (filter (eligible_worker epoch) (Workers s)))"
      using that set_select unfolding epoch_snapshot_eq [OF assms] by fastforce
    then have "w \<in> fst ` set (Workers s)"
      by (force simp: stake_entry_def)
    then show ?thesis by (simp add: alist_get_None)
  qed
qed

text \<open>The state after an epoch boundary.\<close>

definition epoch_state :: "'c workers_env \<Rightarrow> 'c workers_state \<Rightarrow> 'c workers_state" where
  "epoch_state E s =
     (let epoch = saturating_add (CurrentEpoch s) 1
      in release_mature_unbonding E epoch (apply_pending_updates E epoch s))"

lemma workers_on_initialize_cases:
  assumes "workers_on_initialize E block s = Ok t"
  obtains u where "finalize_due_votes E block s = Ok u"
    "t = u \<or> (EpochLength E \<noteq> 0 \<and> block \<noteq> 0 \<and> (ucast block :: u64) mod ucast (EpochLength E) = 0
      \<and> length (epoch_snapshot E (saturating_add (CurrentEpoch u) 1) (epoch_state E u)) \<le> unat (TopWorkers E)
      \<and> t = deposit_event (EpochSnapshot (saturating_add (CurrentEpoch u) 1)
               (epoch_snapshot E (saturating_add (CurrentEpoch u) 1) (epoch_state E u)))
             ((epoch_state E u)\<lparr>CurrentEpoch := saturating_add (CurrentEpoch u) 1,
                ActiveWorkers := epoch_snapshot E (saturating_add (CurrentEpoch u) 1) (epoch_state E u)\<rparr>))"
  using assms
  by (auto simp: workers_on_initialize_def res_simps Let_def epoch_state_def try_bounded_def split: if_splits)

lemma registry_epoch: "registry_inv E s \<Longrightarrow> registry_inv E (epoch_state E s)"
  by (simp add: epoch_state_def Let_def registry_apply_pending registry_release)

lemma inv_on_initialize:
  assumes "workers_on_initialize E block s = Ok t" "workers_inv E s" "iter_law E"
  shows "workers_inv E t"
  using assms(1)
proof (rule workers_on_initialize_cases)
  fix u
  let ?e = "saturating_add (CurrentEpoch u) 1" and ?u = "epoch_state E u"
  assume u: "finalize_due_votes E block s = Ok u"
    and t: "t = u \<or> (EpochLength E \<noteq> 0 \<and> block \<noteq> 0 \<and> (ucast block :: u64) mod ucast (EpochLength E) = 0
      \<and> length (epoch_snapshot E ?e ?u) \<le> unat (TopWorkers E)
      \<and> t = deposit_event (EpochSnapshot ?e (epoch_snapshot E ?e ?u))
             (?u\<lparr>CurrentEpoch := ?e, ActiveWorkers := epoch_snapshot E ?e ?u\<rparr>))"
  have inv: "workers_inv E u"
    using u assms(2) unfolding finalize_due_votes_def by (rule inv_finalize_due_list)
  have ro: "registry_only u ?u"
    unfolding epoch_state_def Let_def by (rule registry_only_epoch)
  have reg: "registry_inv E ?u" using inv registry_epoch by blast
  have new: "registry_inv E (?u\<lparr>CurrentEpoch := ?e, ActiveWorkers := epoch_snapshot E ?e ?u\<rparr>)"
    using reg epoch_snapshot_props [OF reg assms(3)] unfolding registry_inv_def by simp
  have "workers_inv E (deposit_event (EpochSnapshot ?e (epoch_snapshot E ?e ?u))
      (?u\<lparr>CurrentEpoch := ?e, ActiveWorkers := epoch_snapshot E ?e ?u\<rparr>))"
    by (rule workers_inv_registry [OF inv])
      (use new ro registry_only_eqs [OF ro] in \<open>auto simp: registry_only_def\<close>)
  with t inv show ?thesis by blast
qed

section \<open>Steps\<close>

text \<open>
  The steps of the pallet inside the chain: its own calls, the functions the main pallet calls,
  block initialisation, a new block, and balance changes by other pallets.  The main pallet
  clears an assignment only when the round is not being voted on.
\<close>

inductive workers_step :: "'c workers_env \<Rightarrow> 'c workers_state \<Rightarrow> 'c workers_state \<Rightarrow> bool" for E where
  ws_call: "workers_dispatch E origin call s = Ok t \<Longrightarrow> workers_step E s t"
| ws_assign: "assign_work E work rnd s = Ok (ws, t) \<Longrightarrow> workers_step E s t"
| ws_open: "open_voting E work rnd h d s = Ok t \<Longrightarrow> workers_step E s t"
| ws_clear: "VotingRounds s (work, rnd) = None \<Longrightarrow> workers_step E s (clear_assignment work rnd s)"
| ws_init: "workers_on_initialize E block s = Ok t \<Longrightarrow> workers_step E s t"
| ws_block: "workers_step E s (s\<lparr>block_no := n, block_hash := f\<rparr>)"
| ws_balances: "workers_step E s (s\<lparr>balances := c\<rparr>)"

lemma inv_dispatch: "workers_dispatch E origin call s = Ok t \<Longrightarrow> workers_inv E s \<Longrightarrow> workers_inv E t"
  by (cases call) (auto intro: inv_register inv_schedule inv_submit_vote inv_equivocation)

lemma inv_workers_step:
  assumes "workers_step E s t" "workers_inv E s" "iter_law E"
  shows "workers_inv E t"
  using assms
proof (induction rule: workers_step.induct)
  case (ws_block s f n)
  have "registry_inv E (s\<lparr>block_no := n, block_hash := f\<rparr>) = registry_inv E s"
    by (rule registry_frame) simp_all
  with ws_block show ?case
    by (intro workers_inv_registry [OF ws_block(1)]) auto
next
  case (ws_balances s c)
  then show ?case by (intro workers_inv_registry [OF ws_balances(1)]) auto
qed (auto intro: inv_dispatch inv_assign_work inv_open_voting inv_clear inv_on_initialize)

end
