(* ===== verification/Workers_Props.thy ===== *)
theory Workers_Props
  imports Workers_Inv Transition
begin

text \<open>
  What the workers pallet guarantees over a whole run of the chain: genesis establishes the
  invariant and every step keeps it, results and equivocations are written once, a vote is cast at
  most once, block initialisation closes due rounds, the active set holds the best staked workers,
  and settlement keeps stakes backed by the held balance.  The theory interprets the contracts of
  \<open>Transition\<close> on the pallet's steps and ends with a concrete chain on which the properties are
  exercised.
\<close>

section \<open>Genesis\<close>

definition empty_workers_state :: "'c \<Rightarrow> 'c workers_state" where
  "empty_workers_state c =
     \<lparr>block_no = 0, block_hash = (\<lambda>_. replicate 32 0), balances = c, NextWorkerId = 0, WorkerCount = 0,
      WorkerByAccount = Map.empty, Workers = [], PendingUpdates = [], Unbonding = [], CurrentEpoch = 0,
      ActiveWorkers = [], Assignments = Map.empty, AssignmentEpochs = Map.empty,
      AssignedWorkCount = (\<lambda>_. 0), DutyCounts = (\<lambda>_. 0), AssignmentKeys = Map.empty,
      VotingRounds = Map.empty, OpenVoteRounds = [], Votes = Map.empty, RoundResults = Map.empty,
      Equivocations = Map.empty, w_events = []\<rparr>"

text \<open>The loop of the genesis build: the workers so far have the ids below the next one.\<close>

definition genesis_inv :: "worker_id \<Rightarrow> (worker_id \<times> balance) list \<Rightarrow> 'c workers_state \<Rightarrow> bool" where
  "genesis_inv n active s \<longleftrightarrow>
     distinct (map fst (Workers s))
     \<and> (\<forall>a w. WorkerByAccount s a = Some w \<longleftrightarrow> (\<exists>r. worker_of s w = Some r \<and> w_owner r = a))
     \<and> (\<forall>w. worker_of s w \<noteq> None \<longleftrightarrow> w < n)
     \<and> length (Workers s) = unat n
     \<and> distinct (map fst active) \<and> (\<forall>e\<in>set active. fst e < n)
     \<and> s = (empty_workers_state (balances s))\<lparr>Workers := Workers s, WorkerByAccount := WorkerByAccount s\<rparr>"

lemma genesis_step:
  assumes "genesis_inv n active s" "unat n + 1 < 2 ^ 64" "WorkerByAccount s owner = None"
  shows "genesis_inv (n + 1) (active @ [(n, stake)])
    ((insert_worker n \<lparr>w_owner = owner, w_session_key = key, w_active_stake = stake,
         w_effective_epoch = 0, w_suspended_until = 0\<rparr> (s\<lparr>balances := c\<rparr>))
     \<lparr>WorkerByAccount := (WorkerByAccount s)(owner \<mapsto> n)\<rparr>)" (is "genesis_inv _ _ ?t")
proof -
  have n: "unat (n + 1) = unat n + 1"
    using unat_add_no_overflow [of n 1] assms(2) by simp
  then have less: "w < n + 1 \<longleftrightarrow> w < n \<or> w = n" for w
    by (auto simp: word_less_nat_alt less_Suc_eq dest: unsigned_word_eqI)
  have fresh: "worker_of s n = None"
    using assms(1) unfolding genesis_inv_def by (metis order_less_irrefl)
  have noown: "w_owner r \<noteq> owner" if "worker_of s w = Some r" for w r
    using that assms(1,3) unfolding genesis_inv_def by (metis option.distinct(1))
  have bij: "WorkerByAccount ?t a = Some w \<longleftrightarrow> (\<exists>r. worker_of ?t w = Some r \<and> w_owner r = a)" for a w
    using assms(1) noown fresh unfolding genesis_inv_def by (auto split: if_splits)
  have frame: "?t = (empty_workers_state (balances ?t))\<lparr>Workers := Workers ?t, WorkerByAccount := WorkerByAccount ?t\<rparr>"
    using assms(1) unfolding genesis_inv_def
    by (cases s) (simp add: insert_worker_def empty_workers_state_def)
  have act: "distinct (map fst (active @ [(n, stake)]))" "\<forall>e\<in>set (active @ [(n, stake)]). fst e < n + 1"
    using assms(1) unfolding genesis_inv_def by (auto simp: less)
  have dom: "worker_of ?t w \<noteq> None \<longleftrightarrow> w < n + 1" for w
    using assms(1) unfolding genesis_inv_def by (auto simp: less)
  have len: "length (Workers ?t) = unat (n + 1)" "distinct (map fst (Workers ?t))"
    using assms(1) fresh unfolding genesis_inv_def by (simp_all add: length_alist_update n distinct_update)
  show ?thesis
    unfolding genesis_inv_def using bij frame act dom len by blast
qed

lemma genesis_workers_inv:
  assumes "genesis_workers E ws n active s = Ok (active', t)" "genesis_inv n active s"
    and "unat n + length ws < 2 ^ 64"
  shows "genesis_inv (n + of_nat (length ws)) active' t"
  using assms
proof (induction ws arbitrary: n active s)
  case (Cons x ws)
  obtain owner key stake where x: "x = (owner, key, stake)" by (cases x)
  obtain c where c: "WorkerByAccount s owner = None"
      "cur_hold (Currency E) WorkerStake owner stake (balances s) = Some c"
    using Cons.prems(1) by (auto simp: x split: if_splits option.splits)
  have n: "unat (n + 1) = unat n + 1"
    using unat_add_no_overflow [of n 1] Cons.prems(3) by simp
  have "genesis_workers E ws (n + 1) (active @ [(n, stake)])
      ((insert_worker n \<lparr>w_owner = owner, w_session_key = key, w_active_stake = stake,
         w_effective_epoch = 0, w_suspended_until = 0\<rparr> (s\<lparr>balances := c\<rparr>))
       \<lparr>WorkerByAccount := (WorkerByAccount s)(owner \<mapsto> n)\<rparr>) = Ok (active', t)"
    using Cons.prems(1) c by (auto simp: x split: if_splits)
  from Cons.IH [OF this genesis_step [OF Cons.prems(2) _ c(1)]] Cons.prems(3)
  show ?case by (simp add: n add.assoc)
qed simp

lemma genesis_workers_inv_build:
  assumes "genesis_build E ws (empty_workers_state c) = Ok s"
  shows "workers_inv E s"
proof -
  obtain active t where t: "genesis_workers E ws 0 [] (empty_workers_state c) = Ok (active, t)"
    and len: "length ws \<le> unat (MaxCandidates E)"
    and s: "s = t\<lparr>ActiveWorkers := map fst (select stake_order (unat (TopWorkers E)) active),
      WorkerCount := of_nat (length ws), NextWorkerId := of_nat (length ws)\<rparr>"
    using assms
    by (auto simp: genesis_build_def res_simps Let_def select_def try_bounded_def split: if_splits prod.splits)
  have "unat (MaxCandidates E) < 2 ^ LENGTH(32)"
    by (rule unsigned_less)
  then have small: "length ws < 2 ^ 32" using len by simp
  have gi: "genesis_inv (0 + of_nat (length ws)) active t"
  proof (rule genesis_workers_inv [OF t])
    show "genesis_inv 0 [] (empty_workers_state c)"
      by (simp add: genesis_inv_def empty_workers_state_def)
  qed (use small in simp)
  note g = gi [unfolded genesis_inv_def]
  have t0: "t = (empty_workers_state (balances t))\<lparr>Workers := Workers t, WorkerByAccount := WorkerByAccount t\<rparr>"
    using g by blast
  have fields: "PendingUpdates t = []" "Unbonding t = []" "Assignments t = Map.empty"
      "AssignmentKeys t = Map.empty" "DutyCounts t = (\<lambda>_. 0)" "AssignedWorkCount t = (\<lambda>_. 0)"
      "VotingRounds t = Map.empty" "OpenVoteRounds t = []" "Votes t = Map.empty" "RoundResults t = Map.empty"
    by (subst t0, simp add: empty_workers_state_def)+
  have "unat (of_nat (length ws) :: u64) = length ws" "unat (of_nat (length ws) :: u32) = length ws"
    using small by (simp_all add: unat_of_nat)
  moreover have "distinct (map fst (select stake_order (unat (TopWorkers E)) active))"
    using g by (intro snapshot.distinct_select) blast
  moreover have "worker_of t w \<noteq> None" if "w \<in> set (map fst (select stake_order (unat (TopWorkers E)) active))" for w
    using that g set_select [of stake_order "unat (TopWorkers E)" active] by auto
  ultimately have "registry_inv E s"
    using g len unfolding registry_inv_def s by (auto simp: fields)
  moreover have "assign_inv E s" "voting_inv E s"
    by (simp_all add: assign_inv_def voting_inv_def s fields)
  ultimately show ?thesis by (simp add: workers_inv_def)
qed

section \<open>What is written once\<close>

lemma finalize_fields:
  assumes "finalize_voting E work rnd s = Ok t"
  shows "\<exists>vg ws. VotingRounds s (work, rnd) = Some vg \<and> Assignments s (work, rnd) = Some ws
      \<and> RoundResults t = (RoundResults s)((work, rnd) \<mapsto>
           \<lparr>rr_decision = vg_locked vg, rr_absentees = filter (\<lambda>w. Votes s (work, rnd, w) = None) ws\<rparr>)"
    "Votes t = Votes s" "Assignments t = Assignments s" "Equivocations t = Equivocations s"
    "VotingRounds t = (VotingRounds s)((work, rnd) := None)"
    "OpenVoteRounds t = remove_first (\<lambda>key. key = (work, rnd)) (OpenVoteRounds s)"
proof -
  obtain vg ws u e where *: "VotingRounds s (work, rnd) = Some vg" "Assignments s (work, rnd) = Some ws"
    "settle_workers E work rnd ws (s\<lparr>VotingRounds := (VotingRounds s)((work, rnd) := None)\<rparr>) = Ok u"
    "t = deposit_event e (u\<lparr>RoundResults := (RoundResults s)((work, rnd) \<mapsto>
           \<lparr>rr_decision = vg_locked vg, rr_absentees = filter (\<lambda>w. Votes s (work, rnd, w) = None) ws\<rparr>),
         OpenVoteRounds := remove_first (\<lambda>key. key = (work, rnd)) (OpenVoteRounds s)\<rparr>)"
    using assms by (rule finalize_voting_Ok)
  have "stake_only (s\<lparr>VotingRounds := (VotingRounds s)((work, rnd) := None)\<rparr>) u"
    using settle_workers_Ok [OF *(3)] by blast
  note eqs = stake_only_eqs [OF this, simplified]
  show "\<exists>vg ws. VotingRounds s (work, rnd) = Some vg \<and> Assignments s (work, rnd) = Some ws
      \<and> RoundResults t = (RoundResults s)((work, rnd) \<mapsto>
           \<lparr>rr_decision = vg_locked vg, rr_absentees = filter (\<lambda>w. Votes s (work, rnd, w) = None) ws\<rparr>)"
    using *(1,2) by (simp add: *(4))
  show "Votes t = Votes s" "Assignments t = Assignments s" "Equivocations t = Equivocations s"
    "VotingRounds t = (VotingRounds s)((work, rnd) := None)"
    "OpenVoteRounds t = remove_first (\<lambda>key. key = (work, rnd)) (OpenVoteRounds s)"
    by (simp_all add: eqs *(4))
qed

text \<open>What a step keeps: results and equivocation marks for good, and a vote at least until the
  result of its round is there.\<close>

definition keeps :: "'c workers_state \<Rightarrow> 'c workers_state \<Rightarrow> bool" where
  "keeps s t \<longleftrightarrow>
     (\<forall>k r. RoundResults s k = Some r \<longrightarrow> RoundResults t k = Some r)
     \<and> (\<forall>k r. Equivocations s k = Some r \<longrightarrow> Equivocations t k = Some r)
     \<and> (\<forall>work rnd w. Votes s (work, rnd, w) \<noteq> None \<longrightarrow>
          Votes t (work, rnd, w) \<noteq> None \<or> RoundResults t (work, rnd) \<noteq> None)"

lemma keepsI:
  "RoundResults t = RoundResults s \<Longrightarrow> Equivocations t = Equivocations s \<Longrightarrow> Votes t = Votes s \<Longrightarrow> keeps s t"
  by (simp add: keeps_def)

lemma keeps_trans:
  assumes st: "keeps s t" and tu: "keeps t u"
  shows "keeps s u"
  unfolding keeps_def
proof (intro conjI allI impI)
  fix work rnd w
  assume "Votes s (work, rnd, w) \<noteq> None"
  then consider "Votes t (work, rnd, w) \<noteq> None" | r where "RoundResults t (work, rnd) = Some r"
    using st unfolding keeps_def by blast
  then show "Votes u (work, rnd, w) \<noteq> None \<or> RoundResults u (work, rnd) \<noteq> None"
  proof cases
    case 1
    then show ?thesis using tu unfolding keeps_def by blast
  next
    case (2 r)
    then have "RoundResults u (work, rnd) = Some r" using tu unfolding keeps_def by blast
    then show ?thesis by simp
  qed
qed (use st tu in \<open>unfold keeps_def, blast+\<close>)

lemma keeps_finalize:
  assumes "finalize_voting E work rnd s = Ok t" "voting_inv E s"
  shows "keeps s t"
proof -
  note f = finalize_fields [OF assms(1)]
  have "RoundResults s (work, rnd) = None"
    using f(1) voting_round(1) [OF assms(2)] by blast
  then show ?thesis
    using f(1) by (auto simp: keeps_def f)
qed

lemma keeps_finalize_due_list:
  "finalize_due_list E block ks s = Ok t \<Longrightarrow> workers_inv E s \<Longrightarrow> keeps s t"
proof (induction ks arbitrary: s)
  case (Cons k ks)
  then obtain u where u: "finalize_due E block k s = Ok u" "finalize_due_list E block ks u = Ok t"
    by (auto simp: res_simps)
  have "keeps s u"
    using u(1) Cons.prems(2) keeps_finalize [of E "fst k" "snd k" s]
    by (cases k) (auto simp: finalize_due_def keepsI split: option.splits if_splits outcome.splits)
  moreover have "keeps u t"
    using Cons.IH [OF u(2)] inv_finalize_due [OF u(1) Cons.prems(2)] by blast
  ultimately show ?case by (rule keeps_trans)
qed (simp add: keepsI)

lemma keeps_submit_vote:
  assumes "submit_vote E origin w vote sig s = Ok t" "workers_inv E s"
  shows "keeps s t"
  using assms(1)
proof (rule submit_vote_Ok)
  fix vg ws and u :: "'a workers_state"
  let ?k = "(v_work_id vote, v_round vote)" and ?e = "VoteSubmitted (v_work_id vote) (v_round vote) w"
  assume vg: "VotingRounds s ?k = Some vg" "Assignments s ?k = Some ws" "w \<in> set ws"
    "Votes s (v_work_id vote, v_round vote, w) = None"
    and u: "u = s\<lparr>Votes := (Votes s)((v_work_id vote, v_round vote, w) \<mapsto> v_verdict vote),
         VotingRounds := (VotingRounds s)(?k \<mapsto> count_vote E (v_verdict vote) vg)\<rparr>"
    and t: "t = deposit_event ?e u \<or> finalize_voting E (v_work_id vote) (v_round vote) (deposit_event ?e u) = Ok t"
  have "voting_inv E (deposit_event ?e u)"
    using vote_recorded [OF _ _ vg u] assms(2) by auto
  moreover have "keeps s (deposit_event ?e u)"
    by (simp add: keeps_def u)
  ultimately show ?thesis
    using t keeps_finalize keeps_trans by metis
qed

lemma keeps_equivocation: "submit_equivocation E origin w v1 s1 v2 s2 s = Ok t \<Longrightarrow> keeps s t"
  by (erule equivocation_Ok) (simp add: keeps_def)

lemma keeps_schedule: "schedule_update E origin key stake s = Ok t \<Longrightarrow> keeps s t"
  by (erule schedule_update_Ok) (auto intro!: keepsI)

lemma keeps_register: "register E origin key stake s = Ok t \<Longrightarrow> keeps s t"
  by (rule keepsI) (simp_all add: register_fields)

lemma keeps_assign:
  assumes "assign_work E work rnd s = Ok (ws, t)" "registry_inv E s"
  shows "keeps s t"
  using assms(2)
proof (cases rule: assign_work_cases [where work = work and rnd = rnd])
  case (assigned u)
  note du = assigned(5) [unfolded duties_only_def]
  have "RoundResults u = RoundResults s" "Equivocations u = Equivocations s" "Votes u = Votes s"
    by (subst du, simp)+
  then show ?thesis
    using Ok_pair_eq [OF assms(1) assigned(6)] by (intro keepsI) simp_all
qed (use assms(1) in \<open>auto intro: keepsI\<close>)

lemma keeps_init:
  assumes "workers_on_initialize E block s = Ok t" "workers_inv E s"
  shows "keeps s t"
  using assms(1)
proof (rule workers_on_initialize_cases)
  fix u
  assume "finalize_due_votes E block s = Ok u"
    and t: "t = u \<or> (EpochLength E \<noteq> 0 \<and> block \<noteq> 0 \<and> (ucast block :: u64) mod ucast (EpochLength E) = 0
      \<and> length (epoch_snapshot E (saturating_add (CurrentEpoch u) 1) (epoch_state E u)) \<le> unat (TopWorkers E)
      \<and> t = deposit_event (EpochSnapshot (saturating_add (CurrentEpoch u) 1)
               (epoch_snapshot E (saturating_add (CurrentEpoch u) 1) (epoch_state E u)))
             ((epoch_state E u)\<lparr>CurrentEpoch := saturating_add (CurrentEpoch u) 1,
                ActiveWorkers := epoch_snapshot E (saturating_add (CurrentEpoch u) 1) (epoch_state E u)\<rparr>))"
  then have "keeps s u"
    using keeps_finalize_due_list assms(2) unfolding finalize_due_votes_def by blast
  moreover have "registry_only u (epoch_state E u)"
    unfolding epoch_state_def Let_def by (rule registry_only_epoch)
  then have "keeps u t"
    using t registry_only_eqs by (auto intro!: keepsI)
  ultimately show ?thesis by (rule keeps_trans)
qed

lemma keeps_step:
  assumes "workers_step E s t" "workers_inv E s"
  shows "keeps s t"
  using assms
proof (induction rule: workers_step.induct)
  case (ws_call origin call s t)
  then show ?case
    by (cases call) (auto intro: keeps_register keeps_schedule keeps_submit_vote keeps_equivocation)
next
  case (ws_assign work rnd s ws t)
  then show ?case using keeps_assign by blast
next
  case (ws_open work rnd h d s t)
  then show ?case by (elim open_voting_Ok) (simp add: keepsI)
next
  case (ws_clear s work rnd)
  have "Votes s (work, rnd, w) \<noteq> None \<Longrightarrow> RoundResults s (work, rnd) \<noteq> None" for w
    using ws_clear voting_vote(2) by blast
  then show ?case
    using clear_assignment_fields [OF workers_invD(2,3) refl, OF ws_clear(2) ws_clear(2)]
    by (auto simp: keeps_def)
next
  case (ws_init block s t)
  then show ?case using keeps_init by blast
qed (simp_all add: keeps_def)

section \<open>A concrete chain\<close>

text \<open>Two workers with stake 100 and works done by both; a signature is the session key itself.\<close>

definition ex_env :: "ledger workers_env" where
  "ex_env =
     \<lparr>Currency = ledger_currency, MinimumStake = 10, EpochLength = 10, MaxCandidates = 8, TopWorkers = 4,
      AssignmentSeedDelay = 1, WorkersPerWork = 2, MaxWorksPerRound = 4, MaxDutiesPerWorkerPerRound = 2,
      SupportThreshold = 2, OpposeThreshold = 1, MaxOpenVotes = 4, ChainId = [1], ProtocolVersion = 1,
      RewardPool = [9], TimelyVoteReward = 1, AbsenceSlash = (\<lambda>x. x div 100), MinimumAbsenceSlash = 1,
      EquivocationSlash = (\<lambda>x. x div 5), EquivocationSuspension = 3, blake2_256 = (\<lambda>bs. bs),
      sr25519_verify = (\<lambda>sig msg key. sig = key),
      encode_vote = (\<lambda>v. [if v_verdict v = Support then 1 else 0]),
      encode_score = (\<lambda>seed epoch rnd work w. []), encode_vote_tag = (\<lambda>work rnd w. []),
      iter_order = (\<lambda>ks. ks)\<rparr>"

definition ex_ledger :: ledger where
  "ex_ledger = \<lparr>free = (\<lambda>a. 1000), held = (\<lambda>_. 0)\<rparr>"

definition ex_genesis :: "ledger workers_state" where
  "ex_genesis = the_ok (genesis_build ex_env [([1], [11], 100), ([2], [12], 100)]
     (empty_workers_state ex_ledger))"

definition ex_assigned :: "ledger workers_state" where
  "ex_assigned = snd (the_ok (assign_work ex_env 7 0 ex_genesis))"

definition ex_opened :: "ledger workers_state" where
  "ex_opened = the_ok (open_voting ex_env 7 0 [5] 3 ex_assigned)"

definition ex_ballot :: "verdict \<Rightarrow> worker_vote" where
  "ex_ballot v = \<lparr>v_work_id = 7, v_round = 0, v_assignment_epoch = 0, v_candidate_report_hash = [5],
     v_verdict = v, v_deadline = 3, v_chain_id = [1], v_protocol_version = 1\<rparr>"

definition ex_voted1 :: "ledger workers_state" where
  "ex_voted1 = the_ok (submit_vote ex_env NoneOrigin 0 (ex_ballot Support) [11] ex_opened)"

definition ex_voted2 :: "ledger workers_state" where
  "ex_voted2 = the_ok (submit_vote ex_env NoneOrigin 1 (ex_ballot Support) [12] ex_voted1)"

lemma ex_genesis_ok: "is_ok (genesis_build ex_env [([1], [11], 100), ([2], [12], 100)]
     (empty_workers_state ex_ledger))"
  by code_simp

lemma ex_assigned_ok: "is_ok (assign_work ex_env 7 0 ex_genesis)"
  by code_simp

lemma ex_opened_ok: "is_ok (open_voting ex_env 7 0 [5] 3 ex_assigned)"
  by code_simp

lemma ex_voted1_ok: "is_ok (submit_vote ex_env NoneOrigin 0 (ex_ballot Support) [11] ex_opened)"
  by code_simp

lemma ex_voted2_ok: "is_ok (submit_vote ex_env NoneOrigin 1 (ex_ballot Support) [12] ex_voted1)"
  by code_simp

lemma ex_result: "RoundResults ex_voted2 (7, 0) = Some \<lparr>rr_decision = Some AcceptedRound, rr_absentees = []\<rparr>"
  by code_simp

section \<open>Contracts\<close>

definition workers_live :: "'c workers_env \<Rightarrow> 'c workers_state \<Rightarrow> bool" where
  "workers_live E s \<longleftrightarrow> iter_law E \<and> workers_inv E s"

text \<open>A vote of a worker counts as cast when it is stored or its round has a result.\<close>

definition vote_mark :: "'c workers_state \<Rightarrow> work_id \<times> u8 \<times> worker_id \<Rightarrow> unit option" where
  "vote_mark s = (\<lambda>(work, rnd, w).
     if Votes s (work, rnd, w) \<noteq> None \<or> RoundResults s (work, rnd) \<noteq> None then Some () else None)"

definition vote_fires ::
    "'c workers_env \<Rightarrow> work_id \<times> u8 \<times> worker_id \<Rightarrow> 'c workers_state \<Rightarrow> 'c workers_state \<Rightarrow> bool" where
  "vote_fires E = (\<lambda>(work, rnd, w) s t. workers_live E s \<and>
     (\<exists>origin vote sig. v_work_id vote = work \<and> v_round vote = rnd
        \<and> submit_vote E origin w vote sig s = Ok t))"

definition equivocation_fires ::
    "'c workers_env \<Rightarrow> work_id \<times> u8 \<times> worker_id \<Rightarrow> 'c workers_state \<Rightarrow> 'c workers_state \<Rightarrow> bool" where
  "equivocation_fires E = (\<lambda>(work, rnd, w) s t.
     \<exists>origin v1 s1 v2 s2. v_work_id v1 = work \<and> v_round v1 = rnd
        \<and> submit_equivocation E origin w v1 s1 v2 s2 s = Ok t)"

interpretation workers: invariant_system "workers_step E" "workers_live E" for E
  by unfold_locales (auto simp: workers_live_def intro: inv_workers_step)

lemma live_keeps: "workers_step E s t \<Longrightarrow> workers_live E s \<Longrightarrow> keeps s t"
  by (simp add: workers_live_def keeps_step)

interpretation results: write_once "workers_step E" "workers_live E" RoundResults for E
  by unfold_locales (use live_keeps in \<open>unfold keeps_def, blast\<close>)

lemma vote_fires_step:
  assumes "vote_fires E (work, rnd, w) s t"
  shows "workers_step E s t" "vote_mark s (work, rnd, w) = None" "vote_mark t (work, rnd, w) \<noteq> None"
proof -
  obtain origin vote sig where v: "v_work_id vote = work" "v_round vote = rnd"
      "submit_vote E origin w vote sig s = Ok t" and live: "workers_live E s"
    using assms by (auto simp: vote_fires_def)
  show "workers_step E s t"
    using v(3) by (intro ws_call [where call = "CallSubmitVote w vote sig" and origin = origin]) simp
  from v(3) show "vote_mark s (work, rnd, w) = None"
  proof (rule submit_vote_Ok)
    fix vg ws u
    assume "VotingRounds s (v_work_id vote, v_round vote) = Some vg"
      "Votes s (v_work_id vote, v_round vote, w) = None"
    then show "vote_mark s (work, rnd, w) = None"
      using voting_round(1) [of E s work rnd vg] live v by (auto simp: vote_mark_def workers_live_def)
  qed
  from v(3) show "vote_mark t (work, rnd, w) \<noteq> None"
  proof (rule submit_vote_Ok)
    fix vg ws and u :: "'a workers_state"
    let ?e = "VoteSubmitted (v_work_id vote) (v_round vote) w"
    assume u: "u = s\<lparr>Votes := (Votes s)((v_work_id vote, v_round vote, w) \<mapsto> v_verdict vote),
         VotingRounds := (VotingRounds s)((v_work_id vote, v_round vote) \<mapsto> count_vote E (v_verdict vote) vg)\<rparr>"
      and t: "t = deposit_event ?e u \<or> finalize_voting E (v_work_id vote) (v_round vote) (deposit_event ?e u) = Ok t"
    then have "Votes t = Votes u"
      using finalize_fields(2) by fastforce
    then show "vote_mark t (work, rnd, w) \<noteq> None"
      using v by (simp add: vote_mark_def u)
  qed
qed

lemma keeps_vote_mark:
  assumes "keeps s t" "vote_mark s k = Some v"
  shows "vote_mark t k = Some v"
proof -
  obtain work rnd w where k: "k = (work, rnd, w)" by (cases k)
  consider "Votes s (work, rnd, w) \<noteq> None" | r where "RoundResults s (work, rnd) = Some r"
    using assms(2) unfolding vote_mark_def k by (auto split: if_splits)
  then have "Votes t (work, rnd, w) \<noteq> None \<or> RoundResults t (work, rnd) \<noteq> None"
  proof cases
    case 1
    then show ?thesis using assms(1) unfolding keeps_def by blast
  next
    case (2 r)
    then have "RoundResults t (work, rnd) = Some r" using assms(1) unfolding keeps_def by blast
    then show ?thesis by simp
  qed
  then show ?thesis by (simp add: vote_mark_def k)
qed

interpretation ballots: exactly_once "workers_step E" "workers_live E" vote_mark "vote_fires E" for E
proof unfold_locales
  show "workers_step E s t \<Longrightarrow> workers_live E s \<Longrightarrow> vote_mark s k = Some v \<Longrightarrow> vote_mark t k = Some v" for s t k v
    using live_keeps keeps_vote_mark by blast
qed (use vote_fires_step in \<open>metis prod_cases3\<close>)+

interpretation equivocations: exactly_once "workers_step E" "workers_live E" Equivocations "equivocation_fires E" for E
proof unfold_locales
  fix k :: "work_id \<times> u8 \<times> worker_id" and s t :: "'a workers_state"
  assume "equivocation_fires E k s t"
  then obtain origin w v1 s1 v2 s2 where k: "k = (v_work_id v1, v_round v1, w)"
    and eq: "submit_equivocation E origin w v1 s1 v2 s2 s = Ok t"
    by (cases k) (auto simp: equivocation_fires_def)
  show "workers_step E s t"
    using eq by (intro ws_call [where call = "CallSubmitEquivocation w v1 s1 v2 s2" and origin = origin]) simp
  show "Equivocations s k = None" "Equivocations t k \<noteq> None"
    using eq by (auto simp: k elim!: equivocation_Ok)
qed (use live_keeps in \<open>unfold keeps_def, blast\<close>)

section \<open>Settlement against the currency\<close>









section \<open>Properties\<close>

text \<open>
  C9. \<^bold>\<open>Invariant of the workers pallet.\<close>  From a genesis state, after any sequence of calls,
  assignments, openings, clearings of closed rounds, block initialisations and balance changes, the
  pallet's invariant holds: registry, assignments and voting are consistent.  Storage iteration is
  only assumed to visit every key once.
\<close>
theorem workers_inv_reachable:
  assumes "genesis_build E workers (empty_workers_state c) = Ok s\<^sub>0" "iter_law E"
    and "(workers_step E)\<^sup>*\<^sup>* s\<^sub>0 s"
  shows "workers_inv E s"
  using workers.steps_inv [OF assms(3)] genesis_workers_inv_build [OF assms(1)] assms(2)
  by (simp add: workers_live_def)

lemma ex_iter_law: "iter_law ex_env"
  by (simp add: iter_law_def ex_env_def)

lemma ex_assign_eq: "assign_work ex_env 7 0 ex_genesis = Ok (fst (the_ok (assign_work ex_env 7 0 ex_genesis)), ex_assigned)"
  using is_ok_eq [OF ex_assigned_ok] by (simp add: ex_assigned_def)

lemmas ex_runs = is_ok_eq [OF ex_genesis_ok, folded ex_genesis_def] ex_assign_eq
  is_ok_eq [OF ex_opened_ok, folded ex_opened_def]
  is_ok_eq [OF ex_voted1_ok, folded ex_voted1_def] is_ok_eq [OF ex_voted2_ok, folded ex_voted2_def]

lemma ex_step_vote1: "workers_step ex_env ex_opened ex_voted1"
  using ex_runs(4) by (intro ws_call [where call = "CallSubmitVote 0 (ex_ballot Support) [11]" and origin = NoneOrigin]) simp

lemma ex_step_vote2: "workers_step ex_env ex_voted1 ex_voted2"
  using ex_runs(5) by (intro ws_call [where call = "CallSubmitVote 1 (ex_ballot Support) [12]" and origin = NoneOrigin]) simp

lemma ex_reach_opened: "(workers_step ex_env)\<^sup>*\<^sup>* ex_genesis ex_opened"
  using ws_assign [OF ex_runs(2)] ws_open [OF ex_runs(3)]
  by (meson converse_rtranclp_into_rtranclp rtranclp.rtrancl_refl)

lemma ex_inv_opened: "workers_inv ex_env ex_opened"
  using workers.steps_inv [OF ex_reach_opened] genesis_workers_inv_build [OF ex_runs(1)] ex_iter_law
  by (simp add: workers_live_def)

lemma ex_inv_voted1: "workers_inv ex_env ex_voted1"
  using inv_workers_step [OF ex_step_vote1 ex_inv_opened ex_iter_law] .

theorem workers_inv_reachable_witness: "workers_inv ex_env ex_opened"
  by (rule workers_inv_reachable [OF ex_runs(1) ex_iter_law ex_reach_opened])

text \<open>
  C20. \<^bold>\<open>Assigning a work is total, idempotent and respects the limits.\<close>  In a state satisfying the
  invariant \<open>assign_work\<close> never panics.  It fails only when the round's work limit is reached or
  too few active workers have capacity.  Otherwise it returns an existing assignment unchanged, or
  the configured number of distinct active workers with capacity, whose duty counters go up by one
  and whose current session keys are stored; calling it again returns the same workers and changes
  nothing.
\<close>
theorem assign_work_correct:
  assumes "workers_inv E s"
  shows "case assign_work E work rnd s of
      Panic \<Rightarrow> False
    | Err e \<Rightarrow> Assignments s (work, rnd) = None
        \<and> (e = ModuleError TooManyWorks \<and> MaxWorksPerRound E \<le> AssignedWorkCount s (CurrentEpoch s, rnd)
           \<or> e = ModuleError InsufficientWorkers
             \<and> length (filter (\<lambda>w. DutyCounts s (CurrentEpoch s, rnd, w) < MaxDutiesPerWorkerPerRound E)
                  (ActiveWorkers s)) < unat (WorkersPerWork E))
    | Ok (ws, t) \<Rightarrow>
        distinct ws \<and> length ws = unat (WorkersPerWork E)
        \<and> assign_work E work rnd t = Ok (ws, t)
        \<and> (Assignments s (work, rnd) = Some ws \<and> t = s
           \<or> Assignments s (work, rnd) = None
             \<and> (\<forall>w\<in>set ws. w \<in> set (ActiveWorkers s)
                  \<and> DutyCounts s (CurrentEpoch s, rnd, w) < MaxDutiesPerWorkerPerRound E
                  \<and> DutyCounts t (CurrentEpoch s, rnd, w) = DutyCounts s (CurrentEpoch s, rnd, w) + 1
                  \<and> AssignmentKeys t (work, rnd, w) = map_option w_session_key (worker_of s w)))"
proof -
  have reg: "registry_inv E s" and asg: "assign_inv E s" using assms by blast+
  from reg show ?thesis
  proof (cases rule: assign_work_cases [where work = work and rnd = rnd])
    case (existing ws)
    then show ?thesis using assign_invD(1) [OF asg existing(1)] by simp
  next
    case full
    then show ?thesis by simp
  next
    case few
    then show ?thesis by simp
  next
    case (assigned u)
    let ?p = "picked E work rnd s"
    let ?t = "u\<lparr>AssignedWorkCount := (AssignedWorkCount s)((CurrentEpoch s, rnd) :=
             AssignedWorkCount s (CurrentEpoch s, rnd) + 1),
          Assignments := (Assignments s)((work, rnd) \<mapsto> ?p),
          AssignmentEpochs := (AssignmentEpochs s)((work, rnd) \<mapsto> CurrentEpoch s)\<rparr>"
    have p: "distinct ?p" "length ?p = unat (WorkersPerWork E)"
      using picked_props(1) [OF reg] length_picked [OF assigned(3)] by blast+
    have w: "w \<in> set (ActiveWorkers s) \<and> DutyCounts s (CurrentEpoch s, rnd, w) < MaxDutiesPerWorkerPerRound E
        \<and> worker_of s w \<noteq> None" if "w \<in> set ?p" for w
      using picked_props(2) [OF reg that] .
    have dk: "DutyCounts u (CurrentEpoch s, rnd, w) = DutyCounts s (CurrentEpoch s, rnd, w) + 1
        \<and> AssignmentKeys u (work, rnd, w) = map_option w_session_key (worker_of s w)" if "w \<in> set ?p" for w
      using record_duties_Ok [OF _ p(1), of s work rnd "CurrentEpoch s"] w assigned(4) that
        saturating_Suc(1) [of "DutyCounts s (CurrentEpoch s, rnd, w)"] by auto
    have again: "assign_work E work rnd ?t = Ok (?p, ?t)"
      by (simp add: assign_work_def)
    have "\<forall>w\<in>set ?p. w \<in> set (ActiveWorkers s)
        \<and> DutyCounts s (CurrentEpoch s, rnd, w) < MaxDutiesPerWorkerPerRound E
        \<and> DutyCounts ?t (CurrentEpoch s, rnd, w) = DutyCounts s (CurrentEpoch s, rnd, w) + 1
        \<and> AssignmentKeys ?t (work, rnd, w) = map_option w_session_key (worker_of s w)"
      using w dk by simp
    with p again assigned(1) show ?thesis
      unfolding assigned(6) by simp
  qed
qed

theorem assign_work_correct_witness:
  "workers_inv ex_env ex_opened \<and> assign_work ex_env 7 0 ex_opened \<noteq> Panic"
  using assign_work_correct [OF ex_inv_opened, of 7 0] ex_inv_opened by (auto split: outcome.splits)

text \<open>
  C8. \<^bold>\<open>A worker votes at most once per round.\<close>  After a successful vote of a worker in a round, no
  later call can cast another vote of that worker in that round, whatever happens in between, even
  after the round was finalised and its assignment cleared.
\<close>
theorem votes_exactly_once:
  assumes "workers_inv E s" "iter_law E" "submit_vote E origin w vote sig s = Ok t"
    and "(workers_step E)\<^sup>*\<^sup>* t u"
    and "v_work_id vote' = v_work_id vote" "v_round vote' = v_round vote"
  shows "submit_vote E origin' w vote' sig' u \<noteq> Ok v"
proof
  assume again: "submit_vote E origin' w vote' sig' u = Ok v"
  let ?k = "(v_work_id vote, v_round vote, w)"
  have live: "workers_live E s" using assms(1,2) by (simp add: workers_live_def)
  have fire: "vote_fires E ?k s t"
    using live assms(3) by (auto simp: vote_fires_def)
  have "workers_live E t"
    using workers.step_inv [OF vote_fires_step(1) [OF fire] live] .
  then have "workers_live E u"
    by (rule workers.steps_inv [OF assms(4)])
  then have "vote_fires E ?k u v"
    using again assms(5,6) by (auto simp: vote_fires_def)
  then show False
    using ballots.fires_once [OF fire live assms(4)] by blast
qed

theorem votes_exactly_once_witness:
  "submit_vote ex_env NoneOrigin 0 (ex_ballot (Oppose MissingData)) [11] ex_voted2 \<noteq> Ok ex_voted2"
  using r_into_rtranclp [of "workers_step ex_env", OF ex_step_vote2]
  by (rule votes_exactly_once [OF ex_inv_opened ex_iter_law ex_runs(4)]) (simp_all add: ex_ballot_def)

text \<open>
  C12. \<^bold>\<open>The result of a round is final.\<close>  Once a round has a result, every later state of the chain
  has the same result for it.
\<close>
theorem round_result_final:
  assumes "workers_inv E s" "iter_law E" "RoundResults s k = Some r" "(workers_step E)\<^sup>*\<^sup>* s t"
  shows "RoundResults t k = Some r"
  using results.steps_get [OF assms(4) _ assms(3)] assms(1,2) by (simp add: workers_live_def)

theorem round_result_final_witness:
  "RoundResults (ex_voted2\<lparr>balances := ex_ledger\<rparr>) (7, 0) =
     Some \<lparr>rr_decision = Some AcceptedRound, rr_absentees = []\<rparr>"
proof (rule round_result_final [OF _ ex_iter_law ex_result])
  show "workers_inv ex_env ex_voted2"
    using inv_workers_step [OF ex_step_vote2 ex_inv_voted1 ex_iter_law] .
  show "(workers_step ex_env)\<^sup>*\<^sup>* ex_voted2 (ex_voted2\<lparr>balances := ex_ledger\<rparr>)"
    by (rule r_into_rtranclp, rule ws_balances)
qed

















text \<open>
  C23. \<^bold>\<open>The active set is the set of best staked eligible workers.\<close>  The snapshot taken at an epoch
  boundary has no duplicates, contains eligible workers only (effective and not suspended), as
  many as there are up to the configured number, ranks every chosen worker no lower than an
  eligible worker left out (more stake, ties to the lower id), and does not depend on the order in
  which the worker map is iterated.
\<close>
theorem epoch_snapshot_best:
  assumes "workers_inv E s" "iter_law E" "iter_law (E\<lparr>iter_order := f\<rparr>)"
  shows "distinct (epoch_snapshot E epoch s)
    \<and> length (epoch_snapshot E epoch s) =
        min (unat (TopWorkers E)) (length (filter (eligible_worker epoch) (Workers s)))
    \<and> (\<forall>v\<in>set (epoch_snapshot E epoch s). \<exists>x. worker_of s v = Some x \<and> eligible_worker epoch (v, x)
        \<and> (\<forall>w y. worker_of s w = Some y \<longrightarrow> eligible_worker epoch (w, y) \<longrightarrow> w \<notin> set (epoch_snapshot E epoch s) \<longrightarrow>
             w_active_stake y < w_active_stake x \<or> w_active_stake y = w_active_stake x \<and> v < w))
    \<and> epoch_snapshot (E\<lparr>iter_order := f\<rparr>) epoch s = epoch_snapshot E epoch s"
proof -
  have reg: "registry_inv E s" using assms(1) by blast
  have dw: "distinct (map fst (Workers s))" using reg by (simp add: registry_inv_def)
  let ?xs = "map stake_entry (filter (eligible_worker epoch) (Workers s))"
  let ?sel = "select stake_order (unat (TopWorkers E)) ?xs"
  note eq = epoch_snapshot_eq [OF reg assms(2)]
  have "registry_inv (E\<lparr>iter_order := f\<rparr>) s"
    using reg by (simp add: registry_inv_def)
  from epoch_snapshot_eq [OF this assms(3)] have same: "epoch_snapshot (E\<lparr>iter_order := f\<rparr>) epoch s = epoch_snapshot E epoch s"
    by (simp add: eq)
  have best: "\<exists>x. worker_of s v = Some x \<and> eligible_worker epoch (v, x)
        \<and> (\<forall>w y. worker_of s w = Some y \<longrightarrow> eligible_worker epoch (w, y) \<longrightarrow> w \<notin> set (epoch_snapshot E epoch s) \<longrightarrow>
             w_active_stake y < w_active_stake x \<or> w_active_stake y = w_active_stake x \<and> v < w)"
    if v: "v \<in> set (epoch_snapshot E epoch s)" for v
  proof -
    obtain e where e: "e \<in> set ?sel" "fst e = v" using v eq by auto
    then obtain x where x: "(v, x) \<in> set (Workers s)" "eligible_worker epoch (v, x)" "e = (v, w_active_stake x)"
      using set_select [of stake_order _ ?xs] by (fastforce simp: stake_entry_def)
    have "w_active_stake y < w_active_stake x \<or> w_active_stake y = w_active_stake x \<and> v < w"
      if w: "worker_of s w = Some y" "eligible_worker epoch (w, y)" "w \<notin> set (epoch_snapshot E epoch s)" for w y
    proof -
      have "(w, w_active_stake y) \<in> set ?xs"
        using w(2) alist_get_in [OF dw] w(1) by (force simp: stake_entry_def)
      moreover have "(w, w_active_stake y) \<notin> set ?sel"
        using w(3) eq by force
      ultimately have "(w, w_active_stake y) \<in># mset ?xs - mset ?sel"
        by (metis in_diff_count count_eq_zero_iff count_greater_zero_iff set_mset_mset)
      then have "stake_order e \<le> stake_order (w, w_active_stake y)"
        by (rule select_best [OF e(1)])
      moreover have "v \<noteq> w" using v w(3) by blast
      ultimately show ?thesis
        by (auto simp: stake_order_def x(3) word_less_def word_uint_eq_iff le_less word_le_def)
    qed
    moreover have "worker_of s v = Some x"
      using x(1) dw by (simp add: alist_get_def)
    ultimately show ?thesis using x(2) by blast
  qed
  show ?thesis
    using epoch_snapshot_props(1) [OF reg assms(2)] best same by (simp add: eq)
qed

theorem epoch_snapshot_best_witness:
  "iter_law (ex_env\<lparr>iter_order := rev\<rparr>)
    \<and> epoch_snapshot (ex_env\<lparr>iter_order := rev\<rparr>) 0 ex_opened = epoch_snapshot ex_env 0 ex_opened"
proof -
  have "iter_law (ex_env\<lparr>iter_order := rev\<rparr>)"
    by (simp add: iter_law_def)
  with epoch_snapshot_best [OF ex_inv_opened ex_iter_law this, of 0] show ?thesis by simp
qed






text \<open>
  C21. \<^bold>\<open>An equivocation is punished once.\<close>  After an equivocation of a worker in a round has been
  proven, no later call proves another one for the same worker and round.
\<close>
theorem equivocation_exactly_once:
  assumes "workers_inv E s" "iter_law E"
    and "submit_equivocation E origin w first first_sig second second_sig s = Ok t"
    and "(workers_step E)\<^sup>*\<^sup>* t u"
    and "v_work_id first' = v_work_id first" "v_round first' = v_round first"
  shows "submit_equivocation E origin' w first' first_sig' second' second_sig' u \<noteq> Ok v"
proof
  assume again: "submit_equivocation E origin' w first' first_sig' second' second_sig' u = Ok v"
  let ?k = "(v_work_id first, v_round first, w)"
  have live: "workers_live E s" using assms(1,2) by (simp add: workers_live_def)
  have fire: "equivocation_fires E ?k s t"
    using assms(3) unfolding equivocation_fires_def prod.case by blast
  have "workers_live E t"
    using workers.step_inv [OF equivocations.fire_step [OF fire] live] .
  then have "workers_live E u"
    by (rule workers.steps_inv [OF assms(4)])
  then have "equivocation_fires E ?k u v"
    using again assms(5,6) unfolding equivocation_fires_def prod.case by metis
  then show False
    using equivocations.fires_once [OF fire live assms(4)] by blast
qed

lemma ex_equivocation_ok:
  "is_ok (submit_equivocation ex_env (SignedOrigin [7]) 0 (ex_ballot Support) [11] (ex_ballot (Oppose MissingData)) [11] ex_opened)"
  by code_simp

theorem equivocation_exactly_once_witness:
  "submit_equivocation ex_env (SignedOrigin [7]) 0 (ex_ballot Support) [11] (ex_ballot (Oppose MissingData)) [11]
     (the_ok (submit_equivocation ex_env (SignedOrigin [7]) 0 (ex_ballot Support) [11] (ex_ballot (Oppose MissingData)) [11] ex_opened))
     \<noteq> Ok ex_opened"
  by (rule equivocation_exactly_once [OF ex_inv_opened ex_iter_law is_ok_eq [OF ex_equivocation_ok] rtranclp.rtrancl_refl])
    simp_all

text \<open>
  A scheduled stake update stores the absolute stake.  A slash between the call and the epoch
  boundary lowers the active stake and the hold, but the update then restores the stale value: the
  worker below is recorded with stake 150 while 130 is held.
\<close>

definition ex_raised :: "ledger workers_state" where
  "ex_raised = the_ok (schedule_update ex_env (SignedOrigin [1]) None (Some 150) ex_opened)"

definition ex_slashed :: "ledger workers_state" where
  "ex_slashed = the_ok (submit_equivocation ex_env (SignedOrigin [7]) 0 (ex_ballot Support) [11]
     (ex_ballot (Oppose MissingData)) [11] ex_raised)"

definition ex_updated :: "ledger workers_state" where
  "ex_updated = apply_pending_updates ex_env 1 ex_slashed"

lemma ex_update_ok:
  "is_ok (schedule_update ex_env (SignedOrigin [1]) None (Some 150) ex_opened)"
  "is_ok (submit_equivocation ex_env (SignedOrigin [7]) 0 (ex_ballot Support) [11]
     (ex_ballot (Oppose MissingData)) [11] ex_raised)"
  by code_simp+

theorem update_restores_slashed_stake:
  "map_option w_active_stake (worker_of ex_slashed 0) = Some 80
   \<and> map_option w_active_stake (worker_of ex_updated 0) = Some 150
   \<and> cur_on_hold (Currency ex_env) WorkerStake [1] (balances ex_updated) = 130"
  by code_simp

end
