(* ===== verification/MiniJam_Inv.thy ===== *)
theory MiniJam_Inv
  imports MiniJam_Pallet Workers_Props
begin

text \<open>
  The invariant of \<open>pallets/minijam\<close> together with the workers pallet: every work record agrees
  with the queue of pending works, its candidates, its voting round and its execution receipt; the
  queues and their key sets agree; the allocations are pending or processed.  Every operation
  keeps it, and every operation acts on the workers pallet by steps of that pallet only.
\<close>

section \<open>The works and their rounds\<close>

definition open_status :: "work_status \<Rightarrow> bool" where
  "open_status st \<longleftrightarrow> st = StInsufficientWorkers \<or> st = StAwaitingCandidate \<or> st = StVoting"

text \<open>A round that has got its candidate; earlier rounds are over, later ones have not begun.\<close>

definition begun :: "work_record \<Rightarrow> u8 \<Rightarrow> bool" where
  "begun w r \<longleftrightarrow> r < wr_round w
     \<or> r = wr_round w \<and> wr_status w \<noteq> StInsufficientWorkers \<and> wr_status w \<noteq> StAwaitingCandidate"

text \<open>How a work record agrees with the other storage items and with the workers pallet.\<close>

definition work_ok :: "'c minijam_state \<Rightarrow> work_id \<Rightarrow> work_record \<Rightarrow> bool" where
  "work_ok m i w \<longleftrightarrow>
     i < NextWorkId m
     \<and> (i \<in> set (PendingWorks m) \<longleftrightarrow> open_status (wr_status w))
     \<and> (wr_status w \<in> {StVoting, StAccepted, StImported} \<longrightarrow> Candidates m (i, wr_round w) \<noteq> None)
     \<and> (wr_status w = StAwaitingCandidate \<longrightarrow> Assignments (wk m) (i, wr_round w) \<noteq> None)
     \<and> (ExecutionReceipts m i \<noteq> None \<longleftrightarrow> wr_status w = StImported)
     \<and> (i \<in> ei_work_id ` set (ExecutionQueue m) \<longrightarrow> wr_status w = StAccepted)
     \<and> (wr_status w = StVoting \<longrightarrow>
          VotingRounds (wk m) (i, wr_round w) \<noteq> None \<or> RoundResults (wk m) (i, wr_round w) \<noteq> None)
     \<and> (\<forall>r. VotingRounds (wk m) (i, r) \<noteq> None \<longrightarrow> r = wr_round w \<and> wr_status w = StVoting)
     \<and> (\<forall>r. RoundResults (wk m) (i, r) \<noteq> None \<or> Candidates m (i, r) \<noteq> None \<longrightarrow> begun w r)"

text \<open>Nothing is stored for a work that does not exist.\<close>

definition no_work :: "'c minijam_state \<Rightarrow> work_id \<Rightarrow> bool" where
  "no_work m i \<longleftrightarrow>
     i \<notin> set (PendingWorks m) \<and> ExecutionReceipts m i = None \<and> i \<notin> ei_work_id ` set (ExecutionQueue m)
     \<and> (\<forall>r. Candidates m (i, r) = None \<and> VotingRounds (wk m) (i, r) = None \<and> RoundResults (wk m) (i, r) = None)"

definition work_at :: "'c minijam_state \<Rightarrow> work_id \<Rightarrow> bool" where
  "work_at m i \<longleftrightarrow> (case Works m i of None \<Rightarrow> no_work m i | Some w \<Rightarrow> work_ok m i w)"

definition works_inv :: "'c minijam_env \<Rightarrow> 'c minijam_state \<Rightarrow> bool" where
  "works_inv M m \<longleftrightarrow>
     distinct (PendingWorks m) \<and> length (PendingWorks m) \<le> unat (MaxPendingWorks M)
     \<and> distinct (map ei_work_id (ExecutionQueue m)) \<and> length (ExecutionQueue m) \<le> unat (MaxPendingWorks M)
     \<and> (\<forall>h i. WorkByPackageHash m h = Some i \<longleftrightarrow> (\<exists>w. Works m i = Some w \<and> wr_package_hash w = h))
     \<and> (\<forall>i. work_at m i)"

text \<open>What the invariant reads of a work other than its own record.\<close>

definition same_at :: "'c minijam_state \<Rightarrow> 'c minijam_state \<Rightarrow> work_id \<Rightarrow> bool" where
  "same_at m t i \<longleftrightarrow>
     Works t i = Works m i \<and> ExecutionReceipts t i = ExecutionReceipts m i
     \<and> (i \<in> set (PendingWorks t) \<longleftrightarrow> i \<in> set (PendingWorks m))
     \<and> (i \<in> ei_work_id ` set (ExecutionQueue t) \<longrightarrow> i \<in> ei_work_id ` set (ExecutionQueue m))
     \<and> (\<forall>r. Candidates t (i, r) = Candidates m (i, r)
          \<and> Assignments (wk t) (i, r) = Assignments (wk m) (i, r)
          \<and> VotingRounds (wk t) (i, r) = VotingRounds (wk m) (i, r)
          \<and> RoundResults (wk t) (i, r) = RoundResults (wk m) (i, r))"

lemma work_at_same:
  assumes "work_at m i" "same_at m t i" "NextWorkId m \<le> NextWorkId t"
  shows "work_at t i"
proof (cases "Works m i")
  case None
  then show ?thesis
    using assms unfolding work_at_def no_work_def same_at_def by auto
next
  case (Some w)
  then have "work_ok m i w" "Works t i = Some w"
    using assms unfolding work_at_def same_at_def by auto
  then have "work_ok t i w"
    using assms(2,3) unfolding work_ok_def same_at_def by (auto intro: order_less_le_trans)
  then show ?thesis
    using \<open>Works t i = Some w\<close> by (simp add: work_at_def)
qed

text \<open>A change that concerns one work.\<close>

lemma works_inv_one:
  assumes "works_inv M m" "\<And>j. j \<noteq> i \<Longrightarrow> same_at m t j" "NextWorkId m \<le> NextWorkId t"
    and "distinct (PendingWorks t)" "length (PendingWorks t) \<le> unat (MaxPendingWorks M)"
    and "distinct (map ei_work_id (ExecutionQueue t))" "length (ExecutionQueue t) \<le> unat (MaxPendingWorks M)"
    and "Works t i = Some w" "work_ok t i w"
    and "case Works m i of
           Some v \<Rightarrow> wr_package_hash v = wr_package_hash w \<and> WorkByPackageHash t = WorkByPackageHash m
         | None \<Rightarrow> WorkByPackageHash m (wr_package_hash w) = None
             \<and> WorkByPackageHash t = (WorkByPackageHash m)(wr_package_hash w \<mapsto> i)"
  shows "works_inv M t"
proof -
  have old: "WorkByPackageHash m h = Some j \<longleftrightarrow> (\<exists>w. Works m j = Some w \<and> wr_package_hash w = h)" for h j
    using assms(1) by (simp add: works_inv_def)
  have same: "Works t j = Works m j" if "j \<noteq> i" for j
    using assms(2) [OF that] by (simp add: same_at_def)
  have "WorkByPackageHash t h = Some j \<longleftrightarrow> (\<exists>w. Works t j = Some w \<and> wr_package_hash w = h)" for h j
  proof (cases "Works m i")
    case None
    then show ?thesis
      using assms(8,10) old [of h j] old [of h i] same [of j] by (cases "j = i") auto
  next
    case (Some v)
    then show ?thesis
      using assms(8,10) old [of h j] same [of j] by (cases "j = i") auto
  qed
  moreover have "work_at t j" for j
    using assms(1,3,8,9) work_at_same [of m j t] assms(2) [of j]
    by (cases "j = i") (auto simp: works_inv_def work_at_def)
  ultimately show ?thesis
    using assms(4-7) by (simp add: works_inv_def)
qed

lemma works_frame:
  assumes "Works t = Works m" "NextWorkId t = NextWorkId m" "WorkByPackageHash t = WorkByPackageHash m"
    "Candidates t = Candidates m" "PendingWorks t = PendingWorks m" "ExecutionQueue t = ExecutionQueue m"
    "ExecutionReceipts t = ExecutionReceipts m" "Assignments (wk t) = Assignments (wk m)"
    "VotingRounds (wk t) = VotingRounds (wk m)" "RoundResults (wk t) = RoundResults (wk m)"
  shows "works_inv M t = works_inv M m"
  unfolding works_inv_def work_at_def work_ok_def no_work_def assms ..

text \<open>The steps of the workers pallet on its own: rounds may get their result, nothing else changes.\<close>

definition rounds_only :: "'c workers_state \<Rightarrow> 'c workers_state \<Rightarrow> bool" where
  "rounds_only s t \<longleftrightarrow> Assignments t = Assignments s
     \<and> (\<forall>k. (VotingRounds t k \<noteq> None \<longrightarrow> VotingRounds s k \<noteq> None)
          \<and> (RoundResults s k \<noteq> None \<longrightarrow> RoundResults t k \<noteq> None)
          \<and> (RoundResults t k \<noteq> None \<longrightarrow> RoundResults s k \<noteq> None \<or> VotingRounds s k \<noteq> None)
          \<and> (VotingRounds s k \<noteq> None \<longrightarrow> VotingRounds t k \<noteq> None \<or> RoundResults t k \<noteq> None))"

lemma rounds_only_refl [simp]: "rounds_only s s"
  by (simp add: rounds_only_def)

lemma rounds_only_trans:
  assumes "rounds_only s t" "rounds_only t u"
  shows "rounds_only s u"
  using assms unfolding rounds_only_def by metis

lemma rounds_onlyI:
  "Assignments t = Assignments s \<Longrightarrow> VotingRounds t = VotingRounds s \<Longrightarrow> RoundResults t = RoundResults s
    \<Longrightarrow> rounds_only s t"
  by (simp add: rounds_only_def)

lemma work_at_rounds:
  assumes "work_at m i" "rounds_only (wk m) s"
  shows "work_at (m\<lparr>wk := s\<rparr>) i"
proof -
  have asg: "Assignments s = Assignments (wk m)"
    and r: "\<And>k. VotingRounds s k \<noteq> None \<Longrightarrow> VotingRounds (wk m) k \<noteq> None"
      "\<And>k. RoundResults s k \<noteq> None \<Longrightarrow> RoundResults (wk m) k \<noteq> None \<or> VotingRounds (wk m) k \<noteq> None"
      "\<And>k. VotingRounds (wk m) k \<noteq> None \<or> RoundResults (wk m) k \<noteq> None \<Longrightarrow>
        VotingRounds s k \<noteq> None \<or> RoundResults s k \<noteq> None"
    using assms(2) unfolding rounds_only_def by blast+
  show ?thesis
  proof (cases "Works m i")
    case None
    then have no: "no_work m i" using assms(1) by (simp add: work_at_def)
    then have "VotingRounds s (i, r) = None \<and> RoundResults s (i, r) = None" for r
      using r(1) [of "(i, r)"] r(2) [of "(i, r)"] by (auto simp: no_work_def)
    with no have "no_work (m\<lparr>wk := s\<rparr>) i"
      by (simp add: no_work_def)
    with None show ?thesis by (simp add: work_at_def)
  next
    case (Some w)
    then have ok: "work_ok m i w" using assms(1) by (simp add: work_at_def)
    have b: "begun w (wr_round w)" if "wr_status w = StVoting"
      using that by (simp add: begun_def)
    have v: "r = wr_round w \<and> wr_status w = StVoting" if "VotingRounds (wk m) (i, r) \<noteq> None" for r
      using ok that unfolding work_ok_def by blast
    have "RoundResults s (i, r) \<noteq> None \<or> Candidates m (i, r) \<noteq> None \<Longrightarrow> begun w r" for r
      using ok r(2) [of "(i, r)"] v [of r] b unfolding work_ok_def by metis
    moreover have "VotingRounds s (i, r) \<noteq> None \<Longrightarrow> r = wr_round w \<and> wr_status w = StVoting" for r
      using r(1) [of "(i, r)"] v [of r] by blast
    ultimately have "work_ok (m\<lparr>wk := s\<rparr>) i w"
      using ok r(3) [of "(i, wr_round w)"] asg unfolding work_ok_def by simp
    with Some show ?thesis by (simp add: work_at_def)
  qed
qed

lemma works_inv_rounds:
  assumes "works_inv M m" "rounds_only (wk m) s"
  shows "works_inv M (m\<lparr>wk := s\<rparr>)"
  using assms(1) work_at_rounds [OF _ assms(2)] by (simp add: works_inv_def)

section \<open>Operations on works\<close>

lemma jam_event_simps [simp, store_simps]:
  "wk (jam_event e m) = wk m" "Works (jam_event e m) = Works m" "NextWorkId (jam_event e m) = NextWorkId m"
  "WorkByPackageHash (jam_event e m) = WorkByPackageHash m" "Candidates (jam_event e m) = Candidates m"
  "PendingWorks (jam_event e m) = PendingWorks m" "ExecutionQueue (jam_event e m) = ExecutionQueue m"
  "QuarantinedExecutionQueue (jam_event e m) = QuarantinedExecutionQueue m"
  "ProtocolState (jam_event e m) = ProtocolState m" "ExecutionReceipts (jam_event e m) = ExecutionReceipts m"
  "LastExecutionReceipt (jam_event e m) = LastExecutionReceipt m"
  "IngressRelayer (jam_event e m) = IngressRelayer m" "AllocationRelayer (jam_event e m) = AllocationRelayer m"
  "ReportImportPaused (jam_event e m) = ReportImportPaused m"
  "PreimageImportPaused (jam_event e m) = PreimageImportPaused m" "SystemOpsPaused (jam_event e m) = SystemOpsPaused m"
  "PendingPreimages (jam_event e m) = PendingPreimages m" "PendingPreimageKeys (jam_event e m) = PendingPreimageKeys m"
  "QuarantinedPreimages (jam_event e m) = QuarantinedPreimages m"
  "PendingSystemOps (jam_event e m) = PendingSystemOps m" "PendingSystemOpKeys (jam_event e m) = PendingSystemOpKeys m"
  "QuarantinedSystemOps (jam_event e m) = QuarantinedSystemOps m" "SystemOpNonces (jam_event e m) = SystemOpNonces m"
  "PendingAllocations (jam_event e m) = PendingAllocations m"
  "ProcessedAllocations (jam_event e m) = ProcessedAllocations m"
  "AllocationReceipts (jam_event e m) = AllocationReceipts m"
  "PendingAllocationCount (jam_event e m) = PendingAllocationCount m"
  "ServiceFuelAccounts (jam_event e m) = ServiceFuelAccounts m" "TotalServiceFuel (jam_event e m) = TotalServiceFuel m"
  "WorkFuelSettlements (jam_event e m) = WorkFuelSettlements m"
  by (simp_all add: jam_event_def)

lemma works_event [simp]: "works_inv M (jam_event e m) = works_inv M m"
  by (rule works_frame) simp_all

lemma works_balances [simp]: "works_inv M (put_balances c m) = works_inv M m"
  by (rule works_frame) (simp_all add: put_balances_def)

lemma assign_work_view:
  assumes "assign_work E i r s = Ok (ws, t)" "registry_inv E s"
  shows "Assignments t (i, r) \<noteq> None" "k \<noteq> (i, r) \<Longrightarrow> Assignments t k = Assignments s k"
    "VotingRounds t = VotingRounds s" "RoundResults t = RoundResults s" "block_no t = block_no s"
proof -
  have "Assignments t (i, r) \<noteq> None \<and> (\<forall>k. k \<noteq> (i, r) \<longrightarrow> Assignments t k = Assignments s k)
      \<and> VotingRounds t = VotingRounds s \<and> RoundResults t = RoundResults s \<and> block_no t = block_no s"
    using assms(2)
  proof (cases rule: assign_work_cases [where work = i and rnd = r])
    case (assigned u)
    have "t = u\<lparr>AssignedWorkCount := (AssignedWorkCount s)((CurrentEpoch s, r) :=
             AssignedWorkCount s (CurrentEpoch s, r) + 1),
          Assignments := (Assignments s)((i, r) \<mapsto> picked E i r s),
          AssignmentEpochs := (AssignmentEpochs s)((i, r) \<mapsto> CurrentEpoch s)\<rparr>"
      using Ok_pair_eq [OF assigned(6) assms(1)] by blast
    moreover have u: "u = s\<lparr>DutyCounts := DutyCounts u, AssignmentKeys := AssignmentKeys u\<rparr>"
      using assigned(5) by (simp add: duties_only_def)
    have "VotingRounds u = VotingRounds s" "RoundResults u = RoundResults s" "block_no u = block_no s"
      using arg_cong [OF u, of VotingRounds] arg_cong [OF u, of RoundResults] arg_cong [OF u, of block_no]
      by simp_all
    ultimately show ?thesis by simp
  qed (use assms(1) in auto)
  then show "Assignments t (i, r) \<noteq> None" "k \<noteq> (i, r) \<Longrightarrow> Assignments t k = Assignments s k"
    "VotingRounds t = VotingRounds s" "RoundResults t = RoundResults s" "block_no t = block_no s"
    by blast+
qed

lemma works_invD:
  assumes "works_inv M m"
  shows "Works m i = Some w \<Longrightarrow> work_ok m i w" "Works m i = None \<Longrightarrow> no_work m i"
    "distinct (PendingWorks m)" "length (PendingWorks m) \<le> unat (MaxPendingWorks M)"
    "distinct (map ei_work_id (ExecutionQueue m))" "length (ExecutionQueue m) \<le> unat (MaxPendingWorks M)"
    "WorkByPackageHash m h = Some i \<longleftrightarrow> (\<exists>w. Works m i = Some w \<and> wr_package_hash w = h)"
proof -
  have "work_at m i" using assms by (simp add: works_inv_def)
  then show "Works m i = Some w \<Longrightarrow> work_ok m i w" "Works m i = None \<Longrightarrow> no_work m i"
    by (simp_all add: work_at_def)
qed (use assms in \<open>simp_all add: works_inv_def\<close>)

text \<open>Replacing the record of one existing work.\<close>

lemma works_inv_put:
  assumes "works_inv M m" "Works m i = Some v" "wr_package_hash w = wr_package_hash v"
    and "Works t = (Works m)(i \<mapsto> w)" "work_ok t i w" "\<And>j. j \<noteq> i \<Longrightarrow> same_at m t j"
    and "NextWorkId t = NextWorkId m" "WorkByPackageHash t = WorkByPackageHash m"
    and "PendingWorks t = PendingWorks m \<or> PendingWorks t = remove_first (\<lambda>j. j = i) (PendingWorks m)"
    and "distinct (map ei_work_id (ExecutionQueue t))" "length (ExecutionQueue t) \<le> unat (MaxPendingWorks M)"
  shows "works_inv M t"
proof (rule works_inv_one [OF assms(1,6)])
  show "distinct (PendingWorks t)" "length (PendingWorks t) \<le> unat (MaxPendingWorks M)"
    using assms(9) works_invD(3,4) [OF assms(1)] length_remove_first [of "\<lambda>j. j = i" "PendingWorks m"]
      remove_first_distinct(1) [of "PendingWorks m" i] by auto
qed (use assms in auto)

lemma prepare_round_Ok:
  assumes "prepare_round M i m = Ok t"
  obtains w ws s where "Works m i = Some w" "assign_work (wenv M) i (wr_round w) (wk m) = Ok (ws, s)"
      "t = jam_event (WorkRoundAdvanced i (wr_round w) StAwaitingCandidate)
        (put_work i (w\<lparr>wr_status := StAwaitingCandidate,
           wr_candidate_deadline := saturating_add (block_number_of m) (ReportSubmissionDeadline M)\<rparr>) (m\<lparr>wk := s\<rparr>))"
  | w e where "Works m i = Some w" "assign_work (wenv M) i (wr_round w) (wk m) = Err e"
      "t = jam_event (WorkRoundAdvanced i (wr_round w) StInsufficientWorkers)
        (put_work i (w\<lparr>wr_status := StInsufficientWorkers\<rparr>) m)"
proof -
  obtain w where w: "Works m i = Some w"
    using assms by (auto simp: prepare_round_def res_simps)
  show thesis
  proof (cases "assign_work (wenv M) i (wr_round w) (wk m)")
    case (Ok p)
    then show thesis using that(1) [OF w] assms w by (cases p) (simp add: prepare_round_def)
  next
    case (Err e)
    then show thesis using that(2) [OF w Err] assms w by (simp add: prepare_round_def)
  next
    case Panic
    then show thesis using assms w by (simp add: prepare_round_def)
  qed
qed

text \<open>The invariant of the two pallets together.\<close>

definition jam_works_inv :: "'c minijam_env \<Rightarrow> 'c minijam_state \<Rightarrow> bool" where
  "jam_works_inv M m \<longleftrightarrow> workers_inv (wenv M) (wk m) \<and> works_inv M m"

lemma jam_works_invD:
  assumes "jam_works_inv M m"
  shows "workers_inv (wenv M) (wk m)" "works_inv M m"
  using assms by (simp_all add: jam_works_inv_def)

lemma prepare_round_inv:
  assumes "prepare_round M i m = Ok t" "jam_works_inv M m" "Works m i = Some w"
    "wr_status w = StInsufficientWorkers"
  shows "jam_works_inv M t" "(workers_step (wenv M))\<^sup>*\<^sup>* (wk m) (wk t)"
proof -
  note wi = jam_works_invD [OF assms(2)]
  have ok: "work_ok m i w" using works_invD(1) [OF wi(2) assms(3)] .
  have reg: "registry_inv (wenv M) (wk m)" using wi(1) by blast
  have "jam_works_inv M t \<and> (workers_step (wenv M))\<^sup>*\<^sup>* (wk m) (wk t)"
    using assms(1)
  proof (cases rule: prepare_round_Ok)
    case (1 w' ws s)
    have w': "w' = w" using 1(1) assms(3) by simp
    note v = assign_work_view [OF 1(2) reg]
    let ?w = "w\<lparr>wr_status := StAwaitingCandidate,
        wr_candidate_deadline := saturating_add (block_number_of m) (ReportSubmissionDeadline M)\<rparr>"
    have "work_ok t i ?w"
      using ok v assms(4) by (auto simp: work_ok_def 1(3) w' put_work_def open_status_def begun_def)
    then have "works_inv M t"
      by (rule works_inv_put [OF wi(2) assms(3), rotated 2])
        (use v works_invD(5,6) [OF wi(2)] in \<open>auto simp: 1(3) w' put_work_def same_at_def\<close>)
    moreover have "workers_step (wenv M) (wk m) (wk t)"
      using ws_assign [OF 1(2)] by (simp add: 1(3) put_work_def)
    moreover have "workers_inv (wenv M) (wk t)"
      using inv_assign_work [OF 1(2) wi(1)] by (simp add: 1(3) put_work_def)
    ultimately show ?thesis by (simp add: jam_works_inv_def)
  next
    case (2 w' e)
    have w': "w' = w" using 2(1) assms(3) by simp
    have "work_ok t i w"
      using ok by (simp add: work_ok_def 2(3) put_work_def)
    then have "works_inv M t"
      by (rule works_inv_put [OF wi(2) assms(3), rotated 2])
        (use works_invD(5,6) [OF wi(2)] assms(4) in \<open>auto simp: 2(3) w' put_work_def same_at_def\<close>)
    then show ?thesis using wi(1) by (simp add: jam_works_inv_def 2(3) put_work_def)
  qed
  then show "jam_works_inv M t" "(workers_step (wenv M))\<^sup>*\<^sup>* (wk m) (wk t)" by blast+
qed

lemma settle_rejected_candidate_Ok:
  assumes "settle_rejected_candidate M i r m = Ok t"
  obtains c where "t = put_balances c m" "Candidates m (i, r) \<noteq> None"
  using assms by (auto simp: settle_rejected_candidate_def jam_currency_def res_simps Let_def split_beta)

lemma fail_work_Ok:
  assumes "fail_work M i w m = Ok t"
  obtains c where "t = jam_event (WorkFailed i) (jam_clear_assignment i (wr_round w)
      (remove_pending i (put_work i (w\<lparr>wr_status := StFailed\<rparr>) (put_balances c m))))"
  using assms by (auto simp: fail_work_def res_simps Let_def split_beta)

text \<open>The round of a work is over: it is not being voted on.\<close>

definition round_over :: "'c minijam_state \<Rightarrow> work_id \<Rightarrow> work_record \<Rightarrow> bool" where
  "round_over m i w \<longleftrightarrow> Works m i = Some w \<and> open_status (wr_status w)
     \<and> VotingRounds (wk m) (i, wr_round w) = None"

lemma saturating_Suc_u8:
  assumes "\<not> saturating_add r 1 \<ge> (k :: u8)"
  shows "saturating_add r 1 = r + 1" "r < r + 1"
proof -
  have "saturating_add r 1 \<noteq> (- 1 :: u8)"
    using assms by (metis word_n1_ge)
  then have "unat r + 1 < 2 ^ LENGTH(8)"
    by (auto simp: saturating_add_def Let_def split: if_splits)
  then show "saturating_add r 1 = r + 1" "r < r + 1"
    by (simp_all add: saturating_add_def word_less_nat_alt unat_word_ariths)
qed

lemma clear_steps:
  assumes "workers_inv E s" "VotingRounds s (i, r) = None"
  shows "workers_step E (s\<lparr>balances := c\<rparr>) (clear_assignment i r (s\<lparr>balances := c\<rparr>))"
  using assms ws_clear by force

lemma clear_view:
  assumes "workers_inv E s"
  shows "Assignments (clear_assignment i r s) = (Assignments s)((i, r) := None)"
    "VotingRounds (clear_assignment i r s) = VotingRounds s" "RoundResults (clear_assignment i r s) = RoundResults s"
    "block_no (clear_assignment i r s) = block_no s" "balances (clear_assignment i r s) = balances s"
  using clear_assignment_fields [OF workers_invD(2) workers_invD(3), OF assms assms refl] by simp_all

text \<open>Clearing the assignment of a round that is over keeps both invariants of everything but the
  work itself.\<close>

lemma inv_put_balances:
  assumes "workers_inv E s"
  shows "workers_inv E (s\<lparr>balances := c\<rparr>)"
  using assms by (intro workers_inv_registry [OF assms]) auto

lemma advance_step:
  assumes "jam_works_inv M m" "round_over m i w" "\<not> saturating_add (wr_round w) 1 \<ge> MaxCandidateRounds M"
    and t: "t = put_work i (w\<lparr>wr_round := saturating_add (wr_round w) 1, wr_status := StInsufficientWorkers\<rparr>)
          (jam_clear_assignment i (wr_round w) m)"
  shows "jam_works_inv M t"
proof -
  note wi = jam_works_invD [OF assms(1)]
  note sat = saturating_Suc_u8 [OF assms(3)]
  have w: "Works m i = Some w" "open_status (wr_status w)" and v: "VotingRounds (wk m) (i, wr_round w) = None"
    using assms(2) by (auto simp: round_over_def)
  have ok: "work_ok m i w" using works_invD(1) [OF wi(2) w(1)] .
  note cv = clear_view [OF wi(1)]
  have nv: "VotingRounds (wk m) (i, r) = None" for r
    using ok v unfolding work_ok_def by metis
  have bg: "r < wr_round w + 1" if "RoundResults (wk m) (i, r) \<noteq> None \<or> Candidates m (i, r) \<noteq> None" for r
    using ok that sat(2) unfolding work_ok_def begun_def by (metis order_less_trans)
  have base: "i < NextWorkId m" "i \<in> set (PendingWorks m)" "ExecutionReceipts m i = None"
    "i \<notin> ei_work_id ` set (ExecutionQueue m)"
    using ok w(2) unfolding work_ok_def open_status_def by auto
  have "work_ok t i (w\<lparr>wr_round := wr_round w + 1, wr_status := StInsufficientWorkers\<rparr>)"
    using base nv bg by (auto simp: work_ok_def t put_work_def jam_clear_assignment_def cv open_status_def begun_def)
  then have "works_inv M t"
    by (rule works_inv_put [OF wi(2) w(1), rotated 2])
      (use works_invD(5,6) [OF wi(2)] in \<open>auto simp: t sat(1) put_work_def jam_clear_assignment_def same_at_def cv\<close>)
  moreover have "workers_inv (wenv M) (wk t)"
    using inv_clear [OF wi(1) v refl] by (simp add: t put_work_def jam_clear_assignment_def)
  ultimately show ?thesis by (simp add: jam_works_inv_def)
qed

lemma close_step:
  assumes "jam_works_inv M m" "round_over m i w" "\<not> open_status st" "st \<noteq> StImported"
    and "st = StAccepted \<longrightarrow> wr_status w = StVoting"
    and q: "queue = (if st = StAccepted then ExecutionQueue m @ [\<lparr>ei_work_id = i, ei_execute_at = b\<rparr>] else ExecutionQueue m)"
      "length queue \<le> unat (MaxPendingWorks M)"
    and t: "t = jam_event e (jam_clear_assignment i (wr_round w)
         ((remove_pending i (put_work i (w\<lparr>wr_status := st\<rparr>) (put_balances c m)))\<lparr>ExecutionQueue := queue\<rparr>))"
  shows "jam_works_inv M t"
proof -
  note wi = jam_works_invD [OF assms(1)]
  have w: "Works m i = Some w" "open_status (wr_status w)" and v: "VotingRounds (wk m) (i, wr_round w) = None"
    using assms(2) by (auto simp: round_over_def)
  have ok: "work_ok m i w" using works_invD(1) [OF wi(2) w(1)] .
  note cv = clear_view [OF inv_put_balances [OF wi(1)]]
  have nv: "VotingRounds (wk m) (i, r) = None" for r
    using ok v unfolding work_ok_def by metis
  have bg: "begun (w\<lparr>wr_status := st\<rparr>) r" if "RoundResults (wk m) (i, r) \<noteq> None \<or> Candidates m (i, r) \<noteq> None" for r
  proof -
    have "begun w r" using ok that unfolding work_ok_def by blast
    then show ?thesis using assms(3) by (auto simp: begun_def open_status_def)
  qed
  have base: "i < NextWorkId m" "i \<in> set (PendingWorks m)" "ExecutionReceipts m i = None"
    "i \<notin> ei_work_id ` set (ExecutionQueue m)"
    using ok w(2) unfolding work_ok_def open_status_def by auto
  have cand: "st = StAccepted \<Longrightarrow> Candidates m (i, wr_round w) \<noteq> None"
    using ok assms(5) unfolding work_ok_def by blast
  note rd = remove_first_distinct [OF works_invD(3) [OF wi(2)], of i]
  have qd: "distinct (map ei_work_id queue)"
    using works_invD(5) [OF wi(2)] base(4) q(1) by auto
  have qi: "i \<in> ei_work_id ` set queue \<Longrightarrow> st = StAccepted"
    and qj: "j \<noteq> i \<Longrightarrow> j \<in> ei_work_id ` set queue \<Longrightarrow> j \<in> ei_work_id ` set (ExecutionQueue m)" for j
    using base(4) q(1) by (auto split: if_splits)
  have "st \<noteq> StInsufficientWorkers" "st \<noteq> StAwaitingCandidate" "st \<noteq> StVoting"
    using assms(3) by (auto simp: open_status_def)
  then have "work_ok t i (w\<lparr>wr_status := st\<rparr>)"
    using base(1,3) cand nv bg qi assms(3,4) rd(2)
    by (auto simp: work_ok_def t put_work_def jam_clear_assignment_def remove_pending_def put_balances_def cv)
  then have "works_inv M t"
    by (rule works_inv_put [OF wi(2) w(1), rotated 2])
      (use q(2) qd qj rd(2) in \<open>auto simp: t put_work_def jam_clear_assignment_def remove_pending_def
          put_balances_def same_at_def cv\<close>)
  moreover have "workers_inv (wenv M) (wk t)"
    using inv_clear [OF inv_put_balances [OF wi(1), of c] _ refl, of i "wr_round w"] v
    by (simp add: t put_work_def jam_clear_assignment_def remove_pending_def put_balances_def)
  ultimately show ?thesis by (simp add: jam_works_inv_def)
qed

lemma clear_balances:
  "clear_assignment i r (s\<lparr>balances := c\<rparr>) = (clear_assignment i r s)\<lparr>balances := c\<rparr>"
  by (cases "Assignments s (i, r)"; rule workers_state.equality)
    (simp_all add: clear_assignment_def clear_fold fun_eq_iff)

lemma clear_none:
  assumes "Assignments s (i, r) = None" "AssignmentEpochs s (i, r) = None"
  shows "clear_assignment i r s = s"
  using assms by (simp add: clear_assignment_def fun_upd_idem)

lemma clear_idem:
  "clear_assignment i r ((clear_assignment i r s)\<lparr>balances := c\<rparr>) = clear_assignment i r (s\<lparr>balances := c\<rparr>)"
proof -
  have "Assignments (clear_assignment i r s) (i, r) = None" "AssignmentEpochs (clear_assignment i r s) (i, r) = None"
    by (cases "Assignments s (i, r)"; simp add: clear_assignment_def clear_fold)+
  then show ?thesis
    by (simp add: clear_none clear_balances)
qed
lemma jam_inv_money [simp]: "jam_works_inv M (put_balances c m) = jam_works_inv M m"
proof -
  have "workers_inv (wenv M) (wk (put_balances c m)) = workers_inv (wenv M) (wk m)"
    using inv_put_balances [of "wenv M" "wk m" c] inv_put_balances [of "wenv M" "(wk m)\<lparr>balances := c\<rparr>" "balances (wk m)"]
    by (auto simp: put_balances_def)
  then show ?thesis by (simp add: jam_works_inv_def)
qed

lemma jam_inv_event [simp]: "jam_works_inv M (jam_event e m) = jam_works_inv M m"
  by (simp add: jam_works_inv_def)

lemma money_step: "workers_step E (wk m) (wk (put_balances c m))"
  by (simp add: put_balances_def ws_balances)

lemma clear_step:
  "VotingRounds (wk m) (i, r) = None \<Longrightarrow> workers_step E (wk m) (wk (jam_clear_assignment i r m))"
  by (simp add: jam_clear_assignment_def ws_clear)

lemma advance_or_fail_Ok:
  assumes "advance_or_fail M i rejected m = Ok t"
  obtains w c m1 where "Works m i = Some w"
    "m1 = (if rejected then jam_event (CandidateRejected i (wr_round w)) (put_balances c m) else m)"
    "if saturating_add (wr_round w) 1 \<ge> MaxCandidateRounds M
     then fail_work M i w (jam_clear_assignment i (wr_round w) m1) = Ok t
     else prepare_round M i (put_work i (w\<lparr>wr_round := saturating_add (wr_round w) 1,
            wr_status := StInsufficientWorkers\<rparr>) (jam_clear_assignment i (wr_round w) m1)) = Ok t"
proof -
  obtain w where w: "Works m i = Some w"
    using assms unfolding advance_or_fail_def ok_or_eq_Ok by blast
  obtain m1 where m1: "(if rejected then bind_res (settle_rejected_candidate M i (wr_round w) m) (\<lambda>m.
                    Ok (jam_event (CandidateRejected i (wr_round w)) m)) else Ok m) = Ok m1"
    and rest: "(let m = jam_clear_assignment i (wr_round w) m1 in
     if saturating_add (wr_round w) 1 \<ge> MaxCandidateRounds M
     then fail_work M i w m
     else prepare_round M i
            (put_work i (w\<lparr>wr_round := saturating_add (wr_round w) 1,
                                    wr_status := StInsufficientWorkers\<rparr>) m)) = Ok t"
    using assms unfolding advance_or_fail_def w ok_or_simps bind_res_eq_Ok by blast
  obtain c where "m1 = (if rejected then jam_event (CandidateRejected i (wr_round w)) (put_balances c m) else m)"
    using m1 by (auto simp: res_simps elim!: settle_rejected_candidate_Ok split: if_splits)
  from that [OF w this] rest show thesis
    by (simp add: Let_def split: if_split_asm)
qed

lemma advance_or_fail_inv:
  assumes "advance_or_fail M i rejected m = Ok t" "jam_works_inv M m" "round_over m i w"
  shows "jam_works_inv M t" "(workers_step (wenv M))\<^sup>*\<^sup>* (wk m) (wk t)"
proof -
  obtain w' c m1 where w': "Works m i = Some w'"
    and m1: "m1 = (if rejected then jam_event (CandidateRejected i (wr_round w')) (put_balances c m) else m)"
    and rest: "if saturating_add (wr_round w') 1 \<ge> MaxCandidateRounds M
     then fail_work M i w' (jam_clear_assignment i (wr_round w') m1) = Ok t
     else prepare_round M i (put_work i (w'\<lparr>wr_round := saturating_add (wr_round w') 1,
            wr_status := StInsufficientWorkers\<rparr>) (jam_clear_assignment i (wr_round w') m1)) = Ok t"
    using assms(1) by (rule advance_or_fail_Ok)
  have w: "w' = w" using w' assms(3) by (simp add: round_over_def)
  let ?cl = "jam_clear_assignment i (wr_round w) m1"
  have inv1: "jam_works_inv M m1" using assms(2) by (simp add: m1)
  have over1: "round_over m1 i w" using assms(3) by (simp add: m1 round_over_def put_balances_def)
  have st: "(workers_step (wenv M))\<^sup>*\<^sup>* (wk m) (wk ?cl)"
  proof -
    have "(workers_step (wenv M))\<^sup>*\<^sup>* (wk m) (wk m1)"
      using r_into_rtranclp [of "workers_step (wenv M)", OF money_step [of "wenv M" m c]] by (simp add: m1)
    then show ?thesis
      using clear_step [of m1 i "wr_round w"] over1
      by (auto simp: round_over_def intro: rtranclp.rtrancl_into_rtrancl)
  qed
  have v1: "Assignments (wk ?cl) = (Assignments (wk m1))((i, wr_round w) := None)"
    "VotingRounds (wk ?cl) = VotingRounds (wk m1)" "RoundResults (wk ?cl) = RoundResults (wk m1)"
    using clear_view [OF jam_works_invD(1) [OF inv1]] by (simp_all add: jam_clear_assignment_def)
  have "jam_works_inv M t \<and> (workers_step (wenv M))\<^sup>*\<^sup>* (wk m) (wk t)"
  proof (cases "saturating_add (wr_round w) 1 \<ge> MaxCandidateRounds M")
    case True
    then have "fail_work M i w ?cl = Ok t" using rest by (simp add: w)
    then obtain c' where t: "t = jam_event (WorkFailed i) (jam_clear_assignment i (wr_round w)
      (remove_pending i (put_work i (w\<lparr>wr_status := StFailed\<rparr>) (put_balances c' ?cl))))"
      by (rule fail_work_Ok)
    have t: "t = jam_event (WorkFailed i) (jam_clear_assignment i (wr_round w)
        ((remove_pending i (put_work i (w\<lparr>wr_status := StFailed\<rparr>) (put_balances c' m1)))\<lparr>ExecutionQueue := ExecutionQueue m1\<rparr>))"
      by (simp add: t jam_clear_assignment_def remove_pending_def put_work_def put_balances_def clear_idem)
    have "jam_works_inv M t"
      by (rule close_step [OF inv1 over1, where st = StFailed and queue = "ExecutionQueue m1" and c = c', OF _ _ _ _ _ t])
        (use works_invD(6) [OF jam_works_invD(2) [OF inv1]] in \<open>auto simp: open_status_def\<close>)
    moreover have "workers_step (wenv M) (wk ?cl) (wk (put_balances c' ?cl))"
      by (rule money_step)
    moreover have "wk t = wk (put_balances c' ?cl)"
      by (simp add: t jam_clear_assignment_def remove_pending_def put_work_def put_balances_def clear_balances)
    ultimately show ?thesis
      using st by (auto intro: rtranclp.rtrancl_into_rtrancl)
  next
    case False
    then have p: "prepare_round M i (put_work i (w\<lparr>wr_round := saturating_add (wr_round w) 1,
            wr_status := StInsufficientWorkers\<rparr>) ?cl) = Ok t"
      using rest by (simp add: w)
    note s = advance_step [OF inv1 over1 False refl]
    from prepare_round_inv [OF p s] st show ?thesis
      by (auto simp: put_work_def intro: rtranclp_trans)
  qed
  then show "jam_works_inv M t" "(workers_step (wenv M))\<^sup>*\<^sup>* (wk m) (wk t)" by blast+
qed

lemma remove_pending_queue:
  "remove_pending i (m\<lparr>ExecutionQueue := q\<rparr>) = (remove_pending i m)\<lparr>ExecutionQueue := q\<rparr>"
  by (rule minijam_state.equality) (simp_all add: remove_pending_def)

lemma accept_candidate_Ok:
  assumes "accept_candidate M i m = Ok t"
  obtains w cd c where "Works m i = Some w" "Candidates m (i, wr_round w) = Some cd"
    "validate_candidate_report M w (cd_envelope cd) = Ok ()"
    "length (ExecutionQueue m) < unat (MaxPendingWorks M)"
    "t = jam_event (CandidateAccepted i (wr_round w)) (jam_clear_assignment i (wr_round w)
         ((remove_pending i (put_work i (w\<lparr>wr_status := StAccepted\<rparr>) (put_balances c m)))
           \<lparr>ExecutionQueue := ExecutionQueue m @ [\<lparr>ei_work_id = i,
              ei_execute_at = saturating_add (block_number_of m) 1\<rparr>]\<rparr>))"
proof -
  obtain w where w: "Works m i = Some w"
    using assms unfolding accept_candidate_def Let_def ok_or_eq_Ok by blast
  obtain cd where cd: "Candidates m (i, wr_round w) = Some cd"
    using assms unfolding accept_candidate_def Let_def w ok_or_simps ok_or_eq_Ok by blast
  note a = assms [unfolded accept_candidate_def Let_def w cd ok_or_simps bind_res_eq_Ok jam_currency_def ok_or_eq_Ok try_push_Some]
  then obtain c1 c2 c3 where v: "validate_candidate_report M w (cd_envelope cd) = Ok ()"
    and len: "length (ExecutionQueue m) < unat (MaxPendingWorks M)"
    and t: "t = jam_event (CandidateAccepted i (wr_round w)) (jam_clear_assignment i (wr_round w)
         ((remove_pending i ((put_work i (w\<lparr>wr_status := StAccepted\<rparr>) (put_balances c3 (put_balances c2 (put_balances c1 m))))
           \<lparr>ExecutionQueue := ExecutionQueue m @ [\<lparr>ei_work_id = i,
              ei_execute_at = saturating_add (block_number_of m) 1\<rparr>]\<rparr>))))"
    by (auto simp: put_work_def put_balances_def)
  show thesis
    by (rule that [OF w cd v len, of c3]) (simp add: t remove_pending_queue, simp add: put_balances_def)
qed

lemma accept_candidate_inv:
  assumes "accept_candidate M i m = Ok t" "jam_works_inv M m" "round_over m i w" "wr_status w = StVoting"
  shows "jam_works_inv M t" "(workers_step (wenv M))\<^sup>*\<^sup>* (wk m) (wk t)"
proof -
  obtain w' cd c where w': "Works m i = Some w'"
    and len: "length (ExecutionQueue m) < unat (MaxPendingWorks M)"
    and t: "t = jam_event (CandidateAccepted i (wr_round w')) (jam_clear_assignment i (wr_round w')
         ((remove_pending i (put_work i (w'\<lparr>wr_status := StAccepted\<rparr>) (put_balances c m)))
           \<lparr>ExecutionQueue := ExecutionQueue m @ [\<lparr>ei_work_id = i,
              ei_execute_at = saturating_add (block_number_of m) 1\<rparr>]\<rparr>))"
    using assms(1) by (rule accept_candidate_Ok)
  have w: "w' = w" using w' assms(3) by (simp add: round_over_def)
  show "jam_works_inv M t"
    by (rule close_step [OF assms(2,3), where st = StAccepted and c = c, OF _ _ _ _ _ t [unfolded w]])
      (use len assms(4) in \<open>auto simp: open_status_def\<close>)
  have "workers_step (wenv M) (wk m) (wk (put_balances c m))"
    by (rule money_step)
  moreover have "workers_step (wenv M) (wk (put_balances c m)) (wk (jam_clear_assignment i (wr_round w) (put_balances c m)))"
    by (rule clear_step) (use assms(3) in \<open>simp add: round_over_def put_balances_def\<close>)
  moreover have "wk t = wk (jam_clear_assignment i (wr_round w) (put_balances c m))"
    by (simp add: t w jam_clear_assignment_def remove_pending_def put_work_def)
  ultimately show "(workers_step (wenv M))\<^sup>*\<^sup>* (wk m) (wk t)"
    by (metis rtranclp.rtrancl_into_rtrancl r_into_rtranclp)
qed

lemma submit_candidate_Ok:
  assumes "submit_candidate M origin env m = Ok t"
  obtains who w worker ws c s where "origin = SignedOrigin who" "Works m (env_work_id env) = Some w"
    "WorkerByAccount (wk m) who = Some worker"
    "Assignments (wk m) (env_work_id env, wr_round w) = Some ws" "min_opt ws = Some worker"
    "wr_status w = StAwaitingCandidate" "block_number_of m \<le> wr_candidate_deadline w"
    "Candidates m (env_work_id env, wr_round w) = None"
    "env_protocol_version env = PROTOCOL_VERSION_V1" "env_chain_id env = jam_ChainId M"
    "env_assignment_round env = wr_round w"
    "jam_hash M (env_canonical_report env) = env_canonical_report_hash env"
    "validate_candidate_report M w env = Ok ()"
    "cur_hold (Currency (wenv M)) CandidateBond who (CandidateBondAmount M) (balances (wk m)) = Some c"
    "open_voting (wenv M) (env_work_id env) (wr_round w) (env_canonical_report_hash env)
       (saturating_add (block_number_of m) (VoteWindow M)) ((wk m)\<lparr>balances := c\<rparr>) = Ok s"
    "t = jam_event (CandidateSubmitted (env_work_id env) (wr_round w) who (env_canonical_report_hash env))
          (put_work (env_work_id env) (w\<lparr>wr_status := StVoting\<rparr>)
            (m\<lparr>wk := s, Candidates := (Candidates m)((env_work_id env, wr_round w) \<mapsto>
                 \<lparr>cd_submitter = who, cd_envelope = env,
                  cd_vote_deadline = saturating_add (block_number_of m) (VoteWindow M)\<rparr>)\<rparr>))"
proof -
  obtain who where who: "origin = SignedOrigin who"
    using assms by (auto simp: submit_candidate_def ensure_signed_Ok)
  note a = assms [unfolded submit_candidate_def Let_def ensure_signed_Ok who origin.inject]
  from a show thesis
    by (auto simp: ok_or_eq_Ok ensure_eq_Ok bind_res_eq_Ok jam_currency_def put_balances_def
       map_err_eq_Ok computed_report_hash_def intro: that [OF who])
qed

lemma submit_candidate_inv:
  assumes "submit_candidate M origin env m = Ok t" "jam_works_inv M m"
  shows "jam_works_inv M t" "(workers_step (wenv M))\<^sup>*\<^sup>* (wk m) (wk t)"
proof -
  have "jam_works_inv M t \<and> (workers_step (wenv M))\<^sup>*\<^sup>* (wk m) (wk t)"
    using assms(1)
  proof (rule submit_candidate_Ok)
    fix who w worker ws c s
    let ?i = "env_work_id env"
    assume w: "Works m ?i = Some w" "wr_status w = StAwaitingCandidate"
      and asg: "Assignments (wk m) (?i, wr_round w) = Some ws"
      and ov: "open_voting (wenv M) ?i (wr_round w) (env_canonical_report_hash env)
         (saturating_add (block_number_of m) (VoteWindow M)) ((wk m)\<lparr>balances := c\<rparr>) = Ok s"
      and t: "t = jam_event (CandidateSubmitted ?i (wr_round w) who (env_canonical_report_hash env))
            (put_work ?i (w\<lparr>wr_status := StVoting\<rparr>)
              (m\<lparr>wk := s, Candidates := (Candidates m)((?i, wr_round w) \<mapsto>
                   \<lparr>cd_submitter = who, cd_envelope = env,
                    cd_vote_deadline = saturating_add (block_number_of m) (VoteWindow M)\<rparr>)\<rparr>))"
    note wi = jam_works_invD [OF assms(2)]
    have ok: "work_ok m ?i w" using works_invD(1) [OF wi(2) w(1)] .
    obtain vg where v: "Assignments s = Assignments (wk m)" "RoundResults s = RoundResults (wk m)"
      "VotingRounds s = (VotingRounds (wk m))((?i, wr_round w) \<mapsto> vg)"
      using ov by (auto elim!: open_voting_Ok)
    have nv: "VotingRounds (wk m) (?i, r) = None" for r
    proof (rule ccontr)
      assume "VotingRounds (wk m) (?i, r) \<noteq> None"
      then have "wr_status w = StVoting" using ok unfolding work_ok_def by blast
      then show False using w(2) by simp
    qed
    have bg: "r < wr_round w" if "RoundResults (wk m) (?i, r) \<noteq> None \<or> Candidates m (?i, r) \<noteq> None" for r
    proof -
      have "begun w r" using ok that unfolding work_ok_def by blast
      then show ?thesis using w(2) by (simp add: begun_def)
    qed
    have base: "?i < NextWorkId m" "?i \<in> set (PendingWorks m)" "ExecutionReceipts m ?i = None"
      "?i \<notin> ei_work_id ` set (ExecutionQueue m)"
      using ok w(2) unfolding work_ok_def open_status_def by auto
    have "work_ok t ?i (w\<lparr>wr_status := StVoting\<rparr>)"
      using base nv bg by (auto simp: work_ok_def t put_work_def v open_status_def begun_def)
    then have "works_inv M t"
      by (rule works_inv_put [OF wi(2) w(1), rotated 2])
        (use works_invD(5,6) [OF wi(2)] in \<open>auto simp: t put_work_def same_at_def v\<close>)
    moreover have "workers_inv (wenv M) (wk t)"
      using inv_open_voting [OF ov inv_put_balances [OF wi(1)]] by (simp add: t put_work_def)
    ultimately have I: "jam_works_inv M t" by (simp add: jam_works_inv_def)
    have S: "(workers_step (wenv M))\<^sup>*\<^sup>* (wk m) (wk t)"
      using ws_balances [of "wenv M" "wk m" c] ws_open [OF ov]
      by (simp add: t put_work_def converse_rtranclp_into_rtranclp)
    from I S show ?thesis ..
  qed
  then show "jam_works_inv M t" "(workers_step (wenv M))\<^sup>*\<^sup>* (wk m) (wk t)" by blast+
qed

lemma put_balances_simps [simp]:
  "WorkByPackageHash (put_balances c m) = WorkByPackageHash m" "Works (put_balances c m) = Works m"
  "wk (put_balances c m) = (wk m)\<lparr>balances := c\<rparr>" "ExecutionQueue (put_balances c m) = ExecutionQueue m"
  by (simp_all add: put_balances_def)

lemma checked_add_Suc: "checked_add n 1 = Some k \<Longrightarrow> n < n + (1 :: 'a::len word)"
  by (auto simp: checked_add_def word_less_nat_alt unat_word_ariths split: if_splits)

lemma submit_work_Ok:
  assumes "submit_work M origin canonical bundle m = Ok t"
  obtains who c m1 m2 where "origin = SignedOrigin who" "IngressRelayer m = Some who"
    "WorkByPackageHash m (jam_hash M canonical) = None" "NextWorkId m < NextWorkId m + 1"
    "length (PendingWorks m) < unat (MaxPendingWorks M)"
    "cur_hold (Currency (wenv M)) WorkDeposit who (WorkDepositAmount M) (balances (wk m)) = Some c"
    "m1 = (put_work (NextWorkId m)
              \<lparr>wr_owner = who, wr_package_hash = jam_hash M canonical, wr_canonical_work_package = canonical,
               wr_bundle_ref = bundle, wr_fuel_reservation = [], wr_round = 0,
               wr_status = StInsufficientWorkers, wr_candidate_deadline = 0\<rparr>
              (put_balances c (m\<lparr>PendingWorks := PendingWorks m @ [NextWorkId m]\<rparr>)))
            \<lparr>WorkByPackageHash := (WorkByPackageHash m)(jam_hash M canonical \<mapsto> NextWorkId m),
             NextWorkId := NextWorkId m + 1\<rparr>"
    "prepare_round M (NextWorkId m) m1 = Ok m2"
    "\<exists>st. t = jam_event (WorkSubmitted (NextWorkId m) who (jam_hash M canonical) bundle st) m2"
proof -
  let ?i = "NextWorkId m" and ?h = "jam_hash M canonical"
  obtain who where who: "origin = SignedOrigin who" "IngressRelayer m = Some who"
    using assms by (auto simp: submit_work_def ensure_ingress_relayer_def res_simps)
  let ?m1 = "\<lambda>c n. (put_work ?i
              \<lparr>wr_owner = who, wr_package_hash = ?h, wr_canonical_work_package = canonical,
               wr_bundle_ref = bundle, wr_fuel_reservation = [], wr_round = 0,
               wr_status = StInsufficientWorkers, wr_candidate_deadline = 0\<rparr>
              (put_balances c (m\<lparr>PendingWorks := PendingWorks m @ [?i]\<rparr>)))
            \<lparr>WorkByPackageHash := (WorkByPackageHash m)(?h \<mapsto> ?i), NextWorkId := n\<rparr>"
  obtain c n m2 st where fresh: "WorkByPackageHash m ?h = None" and nxt: "checked_add ?i 1 = Some n"
    and len: "length (PendingWorks m) < unat (MaxPendingWorks M)"
    and hold: "cur_hold (Currency (wenv M)) WorkDeposit who (WorkDepositAmount M) (balances (wk m)) = Some c"
    and pr: "ignore_err (prepare_round M ?i (?m1 c n)) (?m1 c n) = (Ok m2 :: 'a minijam_state jam_res)"
    and t: "t = jam_event (WorkSubmitted ?i who ?h bundle st) m2"
  proof -
    from assms show ?thesis
      by (auto simp: submit_work_def ensure_ingress_relayer_def who res_simps Let_def jam_currency_def
          try_push_Some intro: that)
  qed
  have n: "n = ?i + 1" "?i < ?i + 1"
    using nxt checked_add_Suc [OF nxt] by (auto simp: checked_add_Some)
  have "prepare_round M ?i (?m1 c n) = Ok m2"
    using pr by (auto simp: ignore_err_def prepare_round_def put_work_def split: outcome.splits)
  then show thesis
    using that [OF who fresh n(2) len hold refl] t n(1) by blast
qed

lemma submit_work_inv:
  assumes "submit_work M origin canonical bundle m = Ok t" "jam_works_inv M m"
  shows "jam_works_inv M t" "(workers_step (wenv M))\<^sup>*\<^sup>* (wk m) (wk t)"
proof -
  have "jam_works_inv M t \<and> (workers_step (wenv M))\<^sup>*\<^sup>* (wk m) (wk t)"
    using assms(1)
  proof (rule submit_work_Ok)
    fix who c m1 m2
    let ?i = "NextWorkId m" and ?h = "jam_hash M canonical"
    assume fresh: "WorkByPackageHash m ?h = None" and nxt: "?i < ?i + 1"
      and len: "length (PendingWorks m) < unat (MaxPendingWorks M)"
      and m1: "m1 = (put_work ?i
                \<lparr>wr_owner = who, wr_package_hash = ?h, wr_canonical_work_package = canonical,
                 wr_bundle_ref = bundle, wr_fuel_reservation = [], wr_round = 0,
                 wr_status = StInsufficientWorkers, wr_candidate_deadline = 0\<rparr>
                (put_balances c (m\<lparr>PendingWorks := PendingWorks m @ [?i]\<rparr>)))
              \<lparr>WorkByPackageHash := (WorkByPackageHash m)(?h \<mapsto> ?i), NextWorkId := ?i + 1\<rparr>"
      and pr: "prepare_round M ?i m1 = Ok m2"
      and "\<exists>st. t = jam_event (WorkSubmitted ?i who ?h bundle st) m2"
    then obtain st where t: "t = jam_event (WorkSubmitted ?i who ?h bundle st) m2" by blast
    note wi = jam_works_invD [OF assms(2)]
    have none: "Works m ?i = None"
    proof (rule ccontr)
      assume "Works m ?i \<noteq> None"
      then obtain w where "work_ok m ?i w" using works_invD(1) [OF wi(2)] by blast
      then show False by (simp add: work_ok_def)
    qed
    then have no: "no_work m ?i" by (rule works_invD(2) [OF wi(2)])
    let ?w = "\<lparr>wr_owner = who, wr_package_hash = ?h, wr_canonical_work_package = canonical,
                 wr_bundle_ref = bundle, wr_fuel_reservation = [], wr_round = 0,
                 wr_status = StInsufficientWorkers, wr_candidate_deadline = 0\<rparr>"
    have "work_ok m1 ?i ?w"
      using no nxt by (auto simp: work_ok_def no_work_def m1 put_work_def put_balances_def open_status_def)
    then have "works_inv M m1"
      using none no nxt fresh len works_invD(3,5,6) [OF wi(2)]
      by (intro works_inv_one [OF wi(2), where i = ?i and w = ?w])
        (auto simp: m1 put_work_def put_balances_def same_at_def no_work_def)
    then have inv1: "jam_works_inv M m1"
      using inv_put_balances [OF wi(1)] by (simp add: jam_works_inv_def m1 put_work_def put_balances_def)
    note p = prepare_round_inv [OF pr inv1, where w = ?w]
    have I: "jam_works_inv M t"
      using p(1) by (simp add: t m1 put_work_def)
    have "workers_step (wenv M) (wk m) (wk m1)"
      using ws_balances by (simp add: m1 put_work_def put_balances_def)
    then have S: "(workers_step (wenv M))\<^sup>*\<^sup>* (wk m) (wk t)"
      using p(2) by (simp add: t m1 put_work_def converse_rtranclp_into_rtranclp)
    from I S show ?thesis ..
  qed
  then show "jam_works_inv M t" "(workers_step (wenv M))\<^sup>*\<^sup>* (wk m) (wk t)" by blast+
qed

section \<open>The workers pallet on its own\<close>

lemma rounds_finalize: "finalize_voting E work rnd s = Ok t \<Longrightarrow> rounds_only s t"
  using finalize_fields [of E work rnd s t] by (auto simp: rounds_only_def)

lemma rounds_finalize_due_list: "finalize_due_list E block ks s = Ok t \<Longrightarrow> rounds_only s t"
proof (induction ks arbitrary: s)
  case (Cons k ks)
  then obtain u where u: "finalize_due E block k s = Ok u" "finalize_due_list E block ks u = Ok t"
    by (auto simp: res_simps)
  have "rounds_only s u"
    using u(1) rounds_finalize [of E "fst k" "snd k" s]
    by (cases k) (auto simp: finalize_due_def split: option.splits if_splits outcome.splits)
  then show ?case using Cons.IH [OF u(2)] rounds_only_trans by blast
qed simp

lemma rounds_submit_vote:
  assumes "submit_vote E origin w vote sig s = Ok t"
  shows "rounds_only s t"
  using assms
proof (rule submit_vote_Ok)
  fix vg ws and u :: "'a workers_state"
  let ?k = "(v_work_id vote, v_round vote)" and ?e = "VoteSubmitted (v_work_id vote) (v_round vote) w"
  assume vg: "VotingRounds s ?k = Some vg"
    and u: "u = s\<lparr>Votes := (Votes s)((v_work_id vote, v_round vote, w) \<mapsto> v_verdict vote),
         VotingRounds := (VotingRounds s)(?k \<mapsto> count_vote E (v_verdict vote) vg)\<rparr>"
    and t: "t = deposit_event ?e u \<or> finalize_voting E (v_work_id vote) (v_round vote) (deposit_event ?e u) = Ok t"
  have "rounds_only s (deposit_event ?e u)"
    using vg by (auto simp: rounds_only_def u)
  then show ?thesis
    using t rounds_finalize rounds_only_trans by blast
qed

lemma rounds_dispatch:
  assumes "workers_dispatch E origin call s = Ok t"
  shows "rounds_only s t"
proof (cases call)
  case (CallRegister key stake)
  then show ?thesis using assms by (auto intro!: rounds_onlyI simp: register_fields)
next
  case (CallScheduleUpdate key stake)
  then show ?thesis using assms by (auto elim!: schedule_update_Ok intro!: rounds_onlyI)
next
  case (CallSubmitVote w vote sig)
  then show ?thesis using assms rounds_submit_vote by simp
next
  case (CallSubmitEquivocation w v1 s1 v2 s2)
  then show ?thesis using assms by (auto elim!: equivocation_Ok intro!: rounds_onlyI)
qed

lemma rounds_init:
  assumes "workers_on_initialize E block s = Ok t"
  shows "rounds_only s t"
  using assms
proof (rule workers_on_initialize_cases)
  fix u :: "'a workers_state"
  let ?e = "saturating_add (CurrentEpoch u) 1"
  assume "finalize_due_votes E block s = Ok u"
    and t: "t = u \<or> (EpochLength E \<noteq> 0 \<and> block \<noteq> 0 \<and> (ucast block :: u64) mod ucast (EpochLength E) = 0
      \<and> length (epoch_snapshot E ?e (epoch_state E u)) \<le> unat (TopWorkers E)
      \<and> t = deposit_event (EpochSnapshot ?e (epoch_snapshot E ?e (epoch_state E u)))
             ((epoch_state E u)\<lparr>CurrentEpoch := ?e, ActiveWorkers := epoch_snapshot E ?e (epoch_state E u)\<rparr>))"
  then have "rounds_only s u"
    using rounds_finalize_due_list unfolding finalize_due_votes_def by blast
  moreover have "registry_only u (epoch_state E u)"
    unfolding epoch_state_def Let_def by (rule registry_only_epoch)
  then have "rounds_only u t"
    using t registry_only_eqs by (auto intro!: rounds_onlyI)
  ultimately show ?thesis by (rule rounds_only_trans)
qed

section \<open>The hook of the works\<close>

lemma ignore_err_Ok: "ignore_err r s = Ok t \<longleftrightarrow> r = Ok t \<or> (\<exists>e. r = Err e) \<and> t = s"
  by (auto simp: ignore_err_def split: outcome.splits)

lemma work_on_initialize_inv:
  assumes "work_on_initialize M block i m = Ok t" "jam_works_inv M m"
  shows "jam_works_inv M t \<and> (workers_step (wenv M))\<^sup>*\<^sup>* (wk m) (wk t)"
proof (cases "Works m i")
  case None
  then show ?thesis using assms by (simp add: work_on_initialize_def)
next
  case (Some w)
  note wi = jam_works_invD [OF assms(2)]
  have ok: "work_ok m i w" using works_invD(1) [OF wi(2) Some] .
  have over: "round_over m i w" if "wr_status w = StAwaitingCandidate"
    using ok that Some unfolding work_ok_def round_over_def open_status_def by auto
  have over': "round_over m i w" if "wr_status w = StVoting" "RoundResults (wk m) (i, wr_round w) = Some r" for r
  proof -
    have "VotingRounds (wk m) (i, wr_round w) = None"
      using voting_round(1) [OF workers_invD(3) [OF wi(1)]] that(2) by force
    then show ?thesis using Some that(1) by (simp add: round_over_def open_status_def)
  qed
  note step = assms(1) [unfolded work_on_initialize_def Some option.case]
  show ?thesis
  proof (cases "wr_status w")
    case StInsufficientWorkers
    then show ?thesis
      using step prepare_round_inv [OF _ assms(2) Some] assms(2) by (auto simp: ignore_err_Ok)
  next
    case StAwaitingCandidate
    then show ?thesis
      using step advance_or_fail_inv [OF _ assms(2) over] assms(2) by (auto simp: ignore_err_Ok split: if_splits)
  next
    case StVoting
    then show ?thesis
      using step advance_or_fail_inv [OF _ assms(2) over'] accept_candidate_inv [OF _ assms(2) over'] assms(2)
      by (auto simp: ignore_err_Ok split: option.splits round_decision.splits)
  qed (use step assms(2) in auto)
qed

lemma works_on_initialize_inv:
  "works_on_initialize M block is m = Ok t \<Longrightarrow> jam_works_inv M m \<Longrightarrow>
    jam_works_inv M t \<and> (workers_step (wenv M))\<^sup>*\<^sup>* (wk m) (wk t)"
proof (induction "is" arbitrary: m)
  case (Cons i "is")
  then obtain u where u: "work_on_initialize M block i m = Ok u" "works_on_initialize M block is u = Ok t"
    by (auto simp: res_simps)
  show ?case
    using work_on_initialize_inv [OF u(1) Cons.prems(2)] Cons.IH [OF u(2)] by (meson rtranclp_trans)
qed simp

end
