(* ===== verification/MiniJam_Queue_Inv.thy ===== *)
theory MiniJam_Queue_Inv
  imports MiniJam_Inv
begin

text \<open>
  The request queues of the MiniJAM pallet and its block transition.

  Preimages, system operations and allocations each have a queue and a map of
  the keys queued, and the pallet keeps the two in step through submission,
  consumption, quarantine and retry.  An allocation is also priced and counted
  against its asset, and once processed its message id is never queued again.
  The last sections take the block transition of \<open>pallets/minijam/src/lib.rs\<close>
  (\<open>execute_block_stf\<close>) apart: what is due, what is gathered, what the
  validated delta changes and which works it marks imported.
\<close>

section \<open>Queues with a set of keys\<close>

text \<open>A queue and the storage map that marks the keys of its entries.\<close>

definition keyed :: "('e \<Rightarrow> 'k) \<Rightarrow> 'e list \<Rightarrow> ('k \<rightharpoonup> unit) \<Rightarrow> bool" where
  "keyed key xs ks \<longleftrightarrow> distinct (map key xs) \<and> dom ks = key ` set xs"

lemma keyed_Nil [simp]: "keyed key [] ks \<longleftrightarrow> ks = Map.empty"
  by (auto simp: keyed_def)

lemma keyed_push: "keyed key xs ks \<Longrightarrow> ks k = None \<Longrightarrow> k = key x \<Longrightarrow> keyed key (xs @ [x]) (ks(k \<mapsto> ()))"
  by (auto simp: keyed_def)

lemma fold_unmark: "fold (\<lambda>x ks. ks(key x := None)) xs ks = (\<lambda>k. if k \<in> key ` set xs then None else ks k)"
  by (induction xs arbitrary: ks) (auto simp: fun_eq_iff)

lemma keyed_unmark_all: "keyed key xs ks \<Longrightarrow> fold (\<lambda>x ks. ks(key x := None)) xs ks = Map.empty"
  by (auto simp: fold_unmark keyed_def fun_eq_iff dom_def)

lemma keyed_retain:
  assumes "keyed key xs ks" "mset removed = mset (filter P xs)"
  shows "keyed key (fst (swap_retain P eff 0 xs s)) (fold (\<lambda>x ks. ks(key x := None)) removed ks)"
proof -
  have d: "distinct (map key xs)" and dom: "dom ks = key ` set xs" using assms(1) by (auto simp: keyed_def)
  have rem: "set removed = {x \<in> set xs. P x}"
    using assms(2) by (metis set_filter set_mset_mset)
  have inj: "inj_on key (set xs)" using d by (simp add: distinct_map)
  have "dom (fold (\<lambda>x ks. ks(key x := None)) removed ks) = key ` set xs - key ` {x \<in> set xs. P x}"
    using dom by (auto simp: fold_unmark rem split: if_splits)
  also have "\<dots> = key ` {x \<in> set xs. \<not> P x}"
    using inj by (auto simp: inj_on_eq_iff)
  finally show ?thesis
    using distinct_map_swap_retain [OF d] by (simp add: keyed_def set_swap_retain)
qed

section \<open>What the queue operations leave alone\<close>

definition works_same :: "'c minijam_state \<Rightarrow> 'c minijam_state \<Rightarrow> bool" where
  "works_same m t \<longleftrightarrow> wk t = wk m \<and> Works t = Works m \<and> NextWorkId t = NextWorkId m
     \<and> WorkByPackageHash t = WorkByPackageHash m \<and> Candidates t = Candidates m
     \<and> PendingWorks t = PendingWorks m \<and> ExecutionQueue t = ExecutionQueue m
     \<and> ExecutionReceipts t = ExecutionReceipts m"

definition queues_same :: "'c minijam_state \<Rightarrow> 'c minijam_state \<Rightarrow> bool" where
  "queues_same m t \<longleftrightarrow> PendingPreimages t = PendingPreimages m \<and> PendingPreimageKeys t = PendingPreimageKeys m
     \<and> PendingSystemOps t = PendingSystemOps m \<and> PendingSystemOpKeys t = PendingSystemOpKeys m"

definition allocs_same :: "'c minijam_state \<Rightarrow> 'c minijam_state \<Rightarrow> bool" where
  "allocs_same m t \<longleftrightarrow> PendingAllocations t = PendingAllocations m
     \<and> ProcessedAllocations t = ProcessedAllocations m \<and> AllocationReceipts t = AllocationReceipts m
     \<and> PendingAllocationCount t = PendingAllocationCount m"

lemma same_refl [simp]: "works_same m m" "queues_same m m" "allocs_same m m"
  by (simp_all add: works_same_def queues_same_def allocs_same_def)

lemma same_trans:
  "works_same m t \<Longrightarrow> works_same t u \<Longrightarrow> works_same m u"
  "queues_same m t \<Longrightarrow> queues_same t u \<Longrightarrow> queues_same m u"
  "allocs_same m t \<Longrightarrow> allocs_same t u \<Longrightarrow> allocs_same m u"
  by (simp_all add: works_same_def queues_same_def allocs_same_def)

lemmas same_defs = works_same_def queues_same_def allocs_same_def

lemma works_same_inv:
  assumes "works_same m t"
  shows "jam_works_inv M t = jam_works_inv M m" "works_inv M t = works_inv M m"
proof -
  have "works_inv M t = works_inv M m"
    by (rule works_frame) (use assms in \<open>simp_all add: works_same_def\<close>)
  then show "jam_works_inv M t = jam_works_inv M m" "works_inv M t = works_inv M m"
    using assms by (simp_all add: jam_works_inv_def works_same_def)
qed

section \<open>Invariants of the queues\<close>

abbreviation preimage_key_at :: "pending_preimage \<Rightarrow> preimage_key" where
  "preimage_key_at p \<equiv> preimage_key_of (pp_metadata p)"

abbreviation request_id_at :: "pending_system_op \<Rightarrow> hash" where
  "request_id_at p \<equiv> op_request_id (ps_op p)"

definition queues_inv :: "'c minijam_env \<Rightarrow> 'c minijam_state \<Rightarrow> bool" where
  "queues_inv M m \<longleftrightarrow>
     keyed preimage_key_at (PendingPreimages m) (PendingPreimageKeys m)
     \<and> length (PendingPreimages m) \<le> unat (MaxPendingPreimages M)
     \<and> keyed request_id_at (PendingSystemOps m) (PendingSystemOpKeys m)
     \<and> length (PendingSystemOps m) \<le> unat (MaxPendingSystemOps M)"

definition alloc_ok :: "'c minijam_state \<Rightarrow> u64 \<Rightarrow> pending_allocation \<Rightarrow> bool" where
  "alloc_ok m k p \<longleftrightarrow> al_allocation_id (pa_allocation p) = k \<and> ProcessedAllocations m k = None
     \<and> AllocationReceipts m k = Some \<lparr>ar_allocation = pa_allocation p, ar_status = AllocationPending\<rparr>
     \<and> al_amount (pa_allocation p) \<noteq> 0 \<and> ucast (saturated_u64 (al_amount (pa_allocation p))) = al_amount (pa_allocation p)"

definition allocs_inv :: "'c minijam_env \<Rightarrow> 'c minijam_state \<Rightarrow> bool" where
  "allocs_inv M m \<longleftrightarrow>
     distinct (map fst (PendingAllocations m))
     \<and> unat (PendingAllocationCount m) = length (PendingAllocations m)
     \<and> length (PendingAllocations m) \<le> unat (MaxPendingAllocations M)
     \<and> (\<forall>k p. allocation_of m k = Some p \<longrightarrow> alloc_ok m k p)
     \<and> (\<forall>k. ProcessedAllocations m k \<noteq> None \<longrightarrow>
          (\<exists>r. AllocationReceipts m k = Some r \<and> ar_status r = AllocationDone))"

lemma queues_same_inv: "queues_same m t \<Longrightarrow> queues_inv M t = queues_inv M m"
  by (simp add: queues_same_def queues_inv_def)

lemma allocs_same_inv: "allocs_same m t \<Longrightarrow> allocs_inv M t = allocs_inv M m"
  by (simp add: allocs_same_def allocs_inv_def alloc_ok_def)

section \<open>Submission\<close>

lemma submit_preimage_inv:
  assumes "submit_preimage M origin canonical m = Ok t" "queues_inv M m"
  shows "queues_inv M t" "works_same m t" "allocs_same m t"
  using assms
  by (auto simp: submit_preimage_def ensure_ingress_relayer_def res_simps Let_def try_push_Some queues_inv_def
      same_defs intro!: keyed_push)

lemma submit_system_op_inv:
  assumes "submit_system_op M origin command m = Ok t" "queues_inv M m"
  shows "queues_inv M t" "works_same m t" "allocs_same m t"
  using assms
  by (auto simp: submit_system_op_def ensure_ingress_relayer_def res_simps Let_def try_push_Some queues_inv_def
      same_defs intro!: keyed_push)

lemma retry_inv:
  assumes "retry_quarantined_system_op M origin rid m = Ok t" "queues_inv M m"
  shows "queues_inv M t" "works_same m t" "allocs_same m t"
proof -
  obtain i where i: "position (\<lambda>q. op_request_id (qs_op q) = rid) (QuarantinedSystemOps m) = Some i"
    and fresh: "PendingSystemOpKeys m rid = None"
    and len: "length (PendingSystemOps m) < unat (MaxPendingSystemOps M)"
    and t: "t = jam_event (SystemOpRetried rid)
         (m\<lparr>QuarantinedSystemOps := swap_remove i (QuarantinedSystemOps m),
            PendingSystemOps := PendingSystemOps m @ [\<lparr>ps_submitter = qs_submitter (QuarantinedSystemOps m ! i),
               ps_op = qs_op (QuarantinedSystemOps m ! i)\<rparr>],
            PendingSystemOpKeys := (PendingSystemOpKeys m)(rid \<mapsto> ())\<rparr>)"
    using assms(1)
    by (auto simp: retry_quarantined_system_op_def res_simps Let_def try_push_Some split: option.splits)
  have rid: "op_request_id (qs_op (QuarantinedSystemOps m ! i)) = rid"
    using position_Some [OF i] by auto
  have "keyed request_id_at (PendingSystemOps t) (PendingSystemOpKeys t)"
    using assms(2) fresh rid by (auto simp: queues_inv_def t intro!: keyed_push)
  then show "queues_inv M t"
    using assms(2) len by (simp add: queues_inv_def t)
  show "works_same m t" "allocs_same m t"
    by (simp_all add: same_defs t)
qed

lemma submit_allocation_Ok:
  assumes "submit_allocation M origin al m = Ok t"
  obtains who where "origin = SignedOrigin who" "allocation_relayer_account m = Some who"
    "al_amount al \<noteq> 0" "ucast (saturated_u64 (al_amount al)) = al_amount al"
    "ProcessedAllocations m (al_allocation_id al) = None" "allocation_of m (al_allocation_id al) = None"
    "PendingAllocationCount m < MaxPendingAllocations M"
    "t = jam_event (AllocationQueued (al_allocation_id al) (al_target_service al) (al_amount al))
          (m\<lparr>PendingAllocations := AList.update (al_allocation_id al)
                \<lparr>pa_submitter = who, pa_allocation = al\<rparr> (PendingAllocations m),
             PendingAllocationCount := saturating_add (PendingAllocationCount m) 1,
             AllocationReceipts := (AllocationReceipts m)(al_allocation_id al \<mapsto>
                \<lparr>ar_allocation = al, ar_status = AllocationPending\<rparr>)\<rparr>)"
  using assms by (auto simp: submit_allocation_def ensure_allocation_relayer_def res_simps Let_def)

lemma submit_allocation_inv:
  assumes "submit_allocation M origin al m = Ok t" "allocs_inv M m"
  shows "allocs_inv M t" "works_same m t" "queues_same m t"
proof -
  obtain who where f: "al_amount al \<noteq> 0" "ucast (saturated_u64 (al_amount al)) = al_amount al"
    "ProcessedAllocations m (al_allocation_id al) = None" "allocation_of m (al_allocation_id al) = None"
    "PendingAllocationCount m < MaxPendingAllocations M"
    and t: "t = jam_event (AllocationQueued (al_allocation_id al) (al_target_service al) (al_amount al))
          (m\<lparr>PendingAllocations := AList.update (al_allocation_id al)
                \<lparr>pa_submitter = who, pa_allocation = al\<rparr> (PendingAllocations m),
             PendingAllocationCount := saturating_add (PendingAllocationCount m) 1,
             AllocationReceipts := (AllocationReceipts m)(al_allocation_id al \<mapsto>
                \<lparr>ar_allocation = al, ar_status = AllocationPending\<rparr>)\<rparr>)"
    using assms(1) by (rule submit_allocation_Ok)
  note s = saturating_Suc [OF f(5)]
  have "unat (saturating_add (PendingAllocationCount m) 1) = Suc (unat (PendingAllocationCount m))"
    "Suc (unat (PendingAllocationCount m)) \<le> unat (MaxPendingAllocations M)"
    using s unat_Suc_less [OF f(5)] f(5) by (simp_all add: word_less_nat_alt Suc_le_eq)
  then show "allocs_inv M t"
    using assms(2) f(1-4)
    by (auto simp: allocs_inv_def alloc_ok_def t distinct_update length_alist_update)
  show "works_same m t" "queues_same m t"
    by (simp_all add: same_defs t)
qed

section \<open>Consumption\<close>

lemma mark_processed_inv:
  assumes "allocs_inv M m" "allocation_of m k = Some p"
  shows "allocs_inv M (mark_processed p k m)"
proof -
  have d: "distinct (map fst (PendingAllocations m))" and n: "unat (PendingAllocationCount m) = length (PendingAllocations m)"
    using assms(1) by (simp_all add: allocs_inv_def)
  have len: "Suc (length (AList.delete k (PendingAllocations m))) = length (PendingAllocations m)"
    using length_alist_delete [OF d] assms(2) by simp
  then have "unat (saturating_sub (PendingAllocationCount m) 1) = length (AList.delete k (PendingAllocations m))"
    using n unat_sub [of 1 "PendingAllocationCount m"] by (simp add: saturating_sub_def word_le_nat_alt)
  then show ?thesis
    using assms(1) len distinct_alist_delete [OF d, of k]
    by (auto simp: allocs_inv_def alloc_ok_def mark_processed_def)
qed

lemma mark_processed_same: "works_same m (mark_processed p k m)" "queues_same m (mark_processed p k m)"
  by (simp_all add: same_defs mark_processed_def)

lemma consume_allocations_inv:
  "consume_allocations M changes ps m = Ok t \<Longrightarrow> allocs_inv M m \<Longrightarrow>
     allocs_inv M t \<and> works_same m t \<and> queues_same m t \<and> ProtocolState t = ProtocolState m
       \<and> (\<forall>k. ProcessedAllocations m k \<noteq> None \<longrightarrow> ProcessedAllocations t k \<noteq> None)"
proof (induction ps arbitrary: m)
  case (Cons p ps)
  let ?k = "al_allocation_id (pa_allocation p)"
  obtain u where u: "u = m \<or> consume_allocation_after_transition ?k m = Ok u"
    and t: "consume_allocations M changes ps u = Ok t"
    using Cons.prems(1) by (auto simp: res_simps Let_def split: option.splits if_splits)
  have "allocs_inv M u \<and> works_same m u \<and> queues_same m u \<and> ProtocolState u = ProtocolState m
       \<and> (\<forall>k. ProcessedAllocations m k \<noteq> None \<longrightarrow> ProcessedAllocations u k \<noteq> None)"
    using u Cons.prems(2) mark_processed_inv mark_processed_same
    by (auto simp: consume_allocation_after_transition_def res_simps mark_processed_def [of _ _ m] split: if_splits)
       (auto simp: mark_processed_def same_defs)
  with Cons.IH [OF t] show ?case
    using same_trans by metis
qed simp

lemma consume_preimages_inv:
  assumes "queues_inv M m"
  shows "queues_inv M (consume_preimages M hs m)" "works_same m (consume_preimages M hs m)"
    "allocs_same m (consume_preimages M hs m)" "ProtocolState (consume_preimages M hs m) = ProtocolState m"
proof -
  let ?P = "\<lambda>p. jam_hash M (pp_canonical p) \<in> set hs" and ?eff = "\<lambda>p keys. keys(preimage_key_at p := None)"
  let ?r = "swap_retain ?P ?eff 0 (PendingPreimages m) (PendingPreimageKeys m)"
  have eq: "consume_preimages M hs m = (if hs = [] then m
      else m\<lparr>PendingPreimages := fst ?r, PendingPreimageKeys := snd ?r\<rparr>)"
    by (simp add: consume_preimages_def split_beta)
  obtain removed where r: "mset removed = mset (filter ?P (PendingPreimages m))"
    "snd ?r = fold ?eff removed (PendingPreimageKeys m)"
    using snd_swap_retain [of ?P "PendingPreimages m" ?eff "PendingPreimageKeys m"] by blast
  have k: "keyed preimage_key_at (PendingPreimages m) (PendingPreimageKeys m)"
    using assms by (simp add: queues_inv_def)
  have "keyed preimage_key_at (fst ?r) (snd ?r)"
    unfolding r(2) by (rule keyed_retain [OF k r(1)])
  moreover have "length (fst ?r) \<le> length (PendingPreimages m)"
    by (rule length_swap_retain)
  ultimately show "queues_inv M (consume_preimages M hs m)"
    using assms by (auto simp: eq queues_inv_def)
  show "works_same m (consume_preimages M hs m)" "allocs_same m (consume_preimages M hs m)"
    "ProtocolState (consume_preimages M hs m) = ProtocolState m"
    by (simp_all add: eq same_defs)
qed

lemma fold_consumed:
  fixes m :: "'c minijam_state"
  defines "eff \<equiv> \<lambda>p m. jam_event (SystemOpConsumed (request_id_at p))
                  (m\<lparr>PendingSystemOpKeys := (PendingSystemOpKeys m)(request_id_at p := None)\<rparr> :: 'c minijam_state)"
  shows "PendingSystemOpKeys (fold eff ps m) = fold (\<lambda>p ks. ks(request_id_at p := None)) ps (PendingSystemOpKeys m)"
    "works_same m (fold eff ps m)" "allocs_same m (fold eff ps m)"
    "PendingPreimages (fold eff ps m) = PendingPreimages m" "PendingPreimageKeys (fold eff ps m) = PendingPreimageKeys m"
    "ProtocolState (fold eff ps m) = ProtocolState m"
  unfolding eff_def by (induction ps arbitrary: m) (simp_all add: same_defs)

lemma consume_system_ops_inv:
  assumes "queues_inv M m"
  shows "queues_inv M (consume_system_ops hs m)" "works_same m (consume_system_ops hs m)"
    "allocs_same m (consume_system_ops hs m)" "ProtocolState (consume_system_ops hs m) = ProtocolState m"
proof -
  let ?P = "\<lambda>p. request_id_at p \<in> set hs"
  let ?eff = "\<lambda>p m. jam_event (SystemOpConsumed (request_id_at p))
                  (m\<lparr>PendingSystemOpKeys := (PendingSystemOpKeys m)(request_id_at p := None)\<rparr>)"
  let ?r = "swap_retain ?P ?eff 0 (PendingSystemOps m) m"
  have eq: "consume_system_ops hs m = (if hs = [] then m else (snd ?r)\<lparr>PendingSystemOps := fst ?r\<rparr>)"
    by (simp add: consume_system_ops_def split_beta)
  obtain removed where r: "mset removed = mset (filter ?P (PendingSystemOps m))" "snd ?r = fold ?eff removed m"
    using snd_swap_retain [of ?P "PendingSystemOps m" ?eff m] by blast
  note f = fold_consumed [where m = m and ps = removed]
  have k: "keyed request_id_at (PendingSystemOps m) (PendingSystemOpKeys m)"
    using assms by (simp add: queues_inv_def)
  have "keyed request_id_at (fst ?r) (PendingSystemOpKeys (snd ?r))"
    unfolding r(2) f(1) by (rule keyed_retain [OF k r(1)])
  moreover have "length (fst ?r) \<le> length (PendingSystemOps m)"
    by (rule length_swap_retain)
  ultimately show "queues_inv M (consume_system_ops hs m)"
    using assms f(4,5) by (auto simp: eq queues_inv_def r(2))
  show "works_same m (consume_system_ops hs m)" "allocs_same m (consume_system_ops hs m)"
    "ProtocolState (consume_system_ops hs m) = ProtocolState m"
    using f(2,3,6) by (simp_all add: eq same_defs r(2))
qed

section \<open>Quarantine\<close>

lemma quarantine_preimages_fields:
  assumes "quarantine_preimages M code ps q ov m = (q', ov', t)"
  shows "PendingPreimageKeys t = fold (\<lambda>p ks. ks(preimage_key_at p := None)) ps (PendingPreimageKeys m)"
    "works_same m t" "allocs_same m t" "PendingSystemOps t = PendingSystemOps m"
    "PendingSystemOpKeys t = PendingSystemOpKeys m" "PendingPreimages t = PendingPreimages m"
    "ProtocolState t = ProtocolState m"
  using assms
  by (induction ps arbitrary: q ov m)
    (auto simp: Let_def same_defs try_push_def split: option.splits if_splits)

lemma quarantine_ops_fields:
  assumes "quarantine_ops M oc ps q ov m = (q', ov', t)"
  shows "PendingSystemOpKeys t = fold (\<lambda>p ks. ks(request_id_at p := None)) ps (PendingSystemOpKeys m)"
    "works_same m t" "allocs_same m t" "PendingPreimages t = PendingPreimages m"
    "PendingPreimageKeys t = PendingPreimageKeys m" "PendingSystemOps t = PendingSystemOps m"
    "ProtocolState t = ProtocolState m"
  using assms
  by (induction ps arbitrary: q ov m)
    (auto simp: Let_def same_defs try_push_def split: option.splits if_splits)

lemma quarantine_pending_preimages_inv:
  assumes "queues_inv M m"
  shows "queues_inv M (quarantine_pending_preimages M code m)"
    "works_same m (quarantine_pending_preimages M code m)" "allocs_same m (quarantine_pending_preimages M code m)"
    "ProtocolState (quarantine_pending_preimages M code m) = ProtocolState m"
proof -
  let ?m = "m\<lparr>PendingPreimages := []\<rparr>"
  obtain q ov t where q: "quarantine_preimages M code (PendingPreimages m) (QuarantinedPreimages m) False ?m = (q, ov, t)"
    by (metis prod_cases3)
  note f = quarantine_preimages_fields [OF q]
  have "PendingPreimageKeys t = Map.empty"
    using f(1) keyed_unmark_all [of preimage_key_at] assms by (simp add: queues_inv_def)
  then show "queues_inv M (quarantine_pending_preimages M code m)"
    using assms f(4-6) by (auto simp: quarantine_pending_preimages_def q Let_def queues_inv_def)
  show "works_same m (quarantine_pending_preimages M code m)" "allocs_same m (quarantine_pending_preimages M code m)"
    "ProtocolState (quarantine_pending_preimages M code m) = ProtocolState m"
    using f(2,3,7) by (auto simp: quarantine_pending_preimages_def q Let_def same_defs)
qed

lemma quarantine_pending_system_ops_inv:
  assumes "queues_inv M m"
  shows "queues_inv M (quarantine_pending_system_ops M oc m)"
    "works_same m (quarantine_pending_system_ops M oc m)" "allocs_same m (quarantine_pending_system_ops M oc m)"
    "ProtocolState (quarantine_pending_system_ops M oc m) = ProtocolState m"
proof -
  let ?m = "m\<lparr>PendingSystemOps := []\<rparr>"
  obtain q ov t where q: "quarantine_ops M oc (PendingSystemOps m) (QuarantinedSystemOps m) False ?m = (q, ov, t)"
    by (metis prod_cases3)
  note f = quarantine_ops_fields [OF q]
  have "PendingSystemOpKeys t = Map.empty"
    using f(1) keyed_unmark_all [of request_id_at] assms by (simp add: queues_inv_def)
  then show "queues_inv M (quarantine_pending_system_ops M oc m)"
    using assms f(4-6) by (auto simp: quarantine_pending_system_ops_def q Let_def queues_inv_def)
  show "works_same m (quarantine_pending_system_ops M oc m)" "allocs_same m (quarantine_pending_system_ops M oc m)"
    "ProtocolState (quarantine_pending_system_ops M oc m) = ProtocolState m"
    using f(2,3,7) by (auto simp: quarantine_pending_system_ops_def q Let_def same_defs)
qed

section \<open>The block state transition\<close>

lemma split_queue_spec:
  "split_queue paused block n items due0 ret0 = (due, ret) \<Longrightarrow>
     mset due + mset ret = mset due0 + mset ret0 + mset items
     \<and> length due \<le> max n (length due0)
     \<and> (\<forall>e\<in>set due. e \<in> set due0 \<or> \<not> paused \<and> ei_execute_at e \<le> block)"
proof (induction items arbitrary: due0 ret0)
  case (Cons a items)
  show ?case
  proof (cases "\<not> paused \<and> ei_execute_at a \<le> block \<and> length due0 < n")
    case True
    then show ?thesis
      using Cons.IH [of "due0 @ [a]" ret0] Cons.prems by auto
  next
    case False
    then have "split_queue paused block n items due0 (ret0 @ [a]) = (due, ret)"
      using Cons.prems by (simp only: split_queue.simps if_False)
    from Cons.IH [OF this] show ?thesis by simp
  qed
qed simp

lemma gather_reports_Ok:
  assumes "gather_reports m due = Ok reports"
  shows "length reports = length due"
    "\<forall>item\<in>set due. \<exists>w cd. Works m (ei_work_id item) = Some w \<and> wr_status w = StAccepted
       \<and> candidate_for_work m (ei_work_id item) = Some (wr_round w, cd)
       \<and> env_canonical_report (cd_envelope cd) \<in> set reports"
  using assms
  by (induction due arbitrary: reports) (auto simp: res_simps split_beta, fastforce)

text \<open>Importing does not look at the queue.\<close>

lemma import_event_queue:
  "(jam_event e m)\<lparr>ExecutionQueue := q\<rparr> = jam_event e (m\<lparr>ExecutionQueue := q\<rparr>)"
  by (simp add: jam_event_def)

lemma import_reports_queue:
  "import_reports consumed rh is m = Ok t \<Longrightarrow>
     import_reports consumed rh is (m\<lparr>ExecutionQueue := q\<rparr>) = Ok (t\<lparr>ExecutionQueue := q\<rparr>)"
proof (induction "is" arbitrary: m)
  case (Cons i "is")
  have cand: "candidate_for_work (m\<lparr>ExecutionQueue := q\<rparr>) i = candidate_for_work m i"
    by (simp add: candidate_for_work_def split: option.split)
  obtain r cd where c: "candidate_for_work m i = Some (r, cd)"
    using Cons.prems by (auto simp: res_simps)
  show ?case
  proof (cases "env_canonical_report_hash (cd_envelope cd) \<in> set consumed")
    case False
    then show ?thesis
      using Cons.prems Cons.IH [of m] by (simp add: cand c)
  next
    case True
    then obtain w where w: "Works m i = Some w" and rest: "import_reports consumed rh is
        (jam_event (ReportImported i rh) ((put_work i (w\<lparr>wr_status := StImported\<rparr>) m)
          \<lparr>ExecutionReceipts := (ExecutionReceipts m)(i \<mapsto> rh)\<rparr>)) = Ok t"
      using Cons.prems by (auto simp: c res_simps)
    have "(jam_event (ReportImported i rh) ((put_work i (w\<lparr>wr_status := StImported\<rparr>) m)
          \<lparr>ExecutionReceipts := (ExecutionReceipts m)(i \<mapsto> rh)\<rparr>))\<lparr>ExecutionQueue := q\<rparr> =
        jam_event (ReportImported i rh) ((put_work i (w\<lparr>wr_status := StImported\<rparr>) (m\<lparr>ExecutionQueue := q\<rparr>))
          \<lparr>ExecutionReceipts := (ExecutionReceipts m)(i \<mapsto> rh)\<rparr>)"
      by (rule minijam_state.equality) (simp_all add: jam_event_def put_work_def)
    then show ?thesis
      using True Cons.IH [OF rest] by (simp add: cand c w)
  qed
qed simp

text \<open>What importing does to the works, one by one.\<close>

definition imported :: "hash list \<Rightarrow> hash \<Rightarrow> work_id set \<Rightarrow> 'c minijam_state \<Rightarrow> 'c minijam_state \<Rightarrow> bool" where
  "imported consumed rh I m t \<longleftrightarrow>
     (\<forall>i. if i \<in> I \<and> (\<exists>r cd. candidate_for_work m i = Some (r, cd) \<and> env_canonical_report_hash (cd_envelope cd) \<in> set consumed)
          then Works t i = map_option (\<lambda>w. w\<lparr>wr_status := StImported\<rparr>) (Works m i) \<and> ExecutionReceipts t i = Some rh
          else Works t i = Works m i \<and> ExecutionReceipts t i = ExecutionReceipts m i)"

lemma import_reports_spec:
  "import_reports consumed rh is m = Ok t \<Longrightarrow> distinct is \<Longrightarrow>
     imported consumed rh (set is) m t \<and> queues_same m t \<and> allocs_same m t
       \<and> ProtocolState t = ProtocolState m \<and> wk t = wk m \<and> NextWorkId t = NextWorkId m
       \<and> WorkByPackageHash t = WorkByPackageHash m \<and> Candidates t = Candidates m
       \<and> PendingWorks t = PendingWorks m \<and> ExecutionQueue t = ExecutionQueue m"
proof (induction "is" arbitrary: m)
  case (Cons i "is")
  obtain r cd where c: "candidate_for_work m i = Some (r, cd)"
    using Cons.prems by (auto simp: res_simps)
  show ?case
  proof (cases "env_canonical_report_hash (cd_envelope cd) \<in> set consumed")
    case False
    then have "import_reports consumed rh is m = Ok t" using Cons.prems by (simp add: c)
    from Cons.IH [OF this] Cons.prems(2) show ?thesis
      using False c by (auto simp: imported_def)
  next
    case True
    then obtain w where w: "Works m i = Some w" and rest: "import_reports consumed rh is
        (jam_event (ReportImported i rh) ((put_work i (w\<lparr>wr_status := StImported\<rparr>) m)
          \<lparr>ExecutionReceipts := (ExecutionReceipts m)(i \<mapsto> rh)\<rparr>)) = Ok t"
      using Cons.prems by (auto simp: c res_simps)
    let ?u = "jam_event (ReportImported i rh) ((put_work i (w\<lparr>wr_status := StImported\<rparr>) m)
          \<lparr>ExecutionReceipts := (ExecutionReceipts m)(i \<mapsto> rh)\<rparr>)"
    have cu: "candidate_for_work ?u j = candidate_for_work m j" for j
      using w by (simp add: candidate_for_work_def put_work_def split: option.split)
    note ih = Cons.IH [OF rest]
    have "imported consumed rh (set (i # is)) m t"
      using ih Cons.prems(2) True c w unfolding imported_def cu
      by (auto simp: put_work_def split: if_splits)
    then show ?thesis
      using ih Cons.prems(2) by (simp add: same_defs put_work_def)
  qed
qed (simp add: imported_def)

lemma works_inv_queue:
  assumes "works_inv M m" "mset q \<subseteq># mset (ExecutionQueue m)"
  shows "works_inv M (m\<lparr>ExecutionQueue := q\<rparr>)"
proof -
  have sub: "mset (map ei_work_id q) \<subseteq># mset (map ei_work_id (ExecutionQueue m))"
    using assms(2) by (simp add: image_mset_subseteq_mono)
  have "distinct (map ei_work_id q)"
    using works_invD(5) [OF assms(1)] sub distinct_mset_subset by blast
  moreover have "length q \<le> length (ExecutionQueue m)"
    using size_mset_mono [OF assms(2)] by simp
  moreover have "set q \<subseteq> set (ExecutionQueue m)"
    using mset_subset_eqD [OF assms(2)] by auto
  moreover have "work_at (m\<lparr>ExecutionQueue := q\<rparr>) i" if "set q \<subseteq> set (ExecutionQueue m)" for i
  proof (cases "Works m i")
    case None
    have "work_at m i" using assms(1) by (simp add: works_inv_def)
    then have "no_work m i" using None by (simp add: work_at_def)
    then show ?thesis using None that by (auto simp: work_at_def no_work_def)
  next
    case (Some w)
    have "work_ok m i w" using works_invD(1) [OF assms(1) Some] .
    then have "work_ok (m\<lparr>ExecutionQueue := q\<rparr>) i w"
      using that unfolding work_ok_def by (simp add: image_iff) blast
    then show ?thesis using Some by (simp add: work_at_def)
  qed
  ultimately show ?thesis
    using assms(1) by (simp add: works_inv_def)
qed

lemma import_inv:
  assumes "works_inv M m" "imported consumed rh I m t"
    and "\<And>i. i \<in> I \<Longrightarrow> \<exists>w. Works m i = Some w \<and> wr_status w = StAccepted"
    and "\<And>i. i \<in> I \<Longrightarrow> i \<notin> ei_work_id ` set (ExecutionQueue m)"
    and same: "wk t = wk m" "NextWorkId t = NextWorkId m" "WorkByPackageHash t = WorkByPackageHash m"
      "Candidates t = Candidates m" "PendingWorks t = PendingWorks m" "ExecutionQueue t = ExecutionQueue m"
  shows "works_inv M t"
proof -
  have "work_at t i" for i
  proof (cases "Works t i = Works m i \<and> ExecutionReceipts t i = ExecutionReceipts m i")
    case True
    moreover have "work_at m i" using assms(1) by (simp add: works_inv_def)
    ultimately show ?thesis
      by (simp add: work_at_def work_ok_def no_work_def same split: option.splits)
  next
    case False
    then have i: "i \<in> I" "Works t i = map_option (\<lambda>w. w\<lparr>wr_status := StImported\<rparr>) (Works m i)"
      "ExecutionReceipts t i = Some rh"
      using assms(2) unfolding imported_def by metis+
    obtain w where w: "Works m i = Some w" "wr_status w = StAccepted" using assms(3) [OF i(1)] by blast
    have "work_ok m i w" using works_invD(1) [OF assms(1) w(1)] .
    then have "work_ok t i (w\<lparr>wr_status := StImported\<rparr>)"
      using i(3) w(2) assms(4) [OF i(1)] by (auto simp: work_ok_def same open_status_def begun_def)
    then show ?thesis using i(2) w(1) by (simp add: work_at_def)
  qed
  moreover have "(\<exists>w. Works t i = Some w \<and> wr_package_hash w = h) \<longleftrightarrow> (\<exists>w. Works m i = Some w \<and> wr_package_hash w = h)" for i h
  proof (cases "Works t i = Works m i")
    case False
    then have "Works t i = map_option (\<lambda>w. w\<lparr>wr_status := StImported\<rparr>) (Works m i)"
      using assms(2) unfolding imported_def by metis
    then show ?thesis by auto
  qed simp
  ultimately show ?thesis
    using assms(1) by (simp add: works_inv_def same)
qed

text \<open>The parts of a successful transition.\<close>

lemma stf_inner_Ok:
  assumes "execute_block_stf_inner M block due m = Ok (summary, t)"
  obtains input out changes m1 m2 t' where "stf_input M block due m = Ok input"
    "jx_execute M input (frame_state m) = Ok out"
    "validate_execution_output (jam_hash M) (encode_system_op M) (encoded_changes_size M)
       input out (frame_state m) = Ok changes"
    "apply_delta changes m = Ok m1" "consume_successful_allocations M changes m1 = Ok m2"
    "import_reports (out_consumed_reports out) (out_receipt_hash out) (map ei_work_id due)
       (consume_system_ops (out_consumed_system_ops out) (consume_preimages M (out_consumed_preimages out) m2)) = Ok t'"
    "t = t'\<lparr>LastExecutionReceipt := Some (out_receipt_hash out)\<rparr>"
    "bs_receipt_hash summary = out_receipt_hash out"
    "bs_report_count summary = of_nat (length (in_reports input))"
  using assms by (auto simp: execute_block_stf_inner_def Let_def bind_res_eq_Ok map_err_eq_Ok)

lemma stf_input_gathers:
  "stf_input M block due m = Ok input \<Longrightarrow> gather_reports m due = Ok (in_reports input)"
  by (auto simp: stf_input_def res_simps try_bounded_Some)

lemma apply_change_same:
  "apply_change c m = Ok t \<Longrightarrow> works_same m t \<and> queues_same m t \<and> allocs_same m t
     \<and> LastExecutionReceipt t = LastExecutionReceipt m"
  by (auto simp: apply_change_def same_defs res_simps split: state_operation.splits)

lemma apply_delta_same:
  "apply_delta cs m = Ok t \<Longrightarrow> works_same m t \<and> queues_same m t \<and> allocs_same m t
     \<and> LastExecutionReceipt t = LastExecutionReceipt m"
proof (induction cs arbitrary: m)
  case (Cons c cs)
  then obtain u where u: "apply_change c m = Ok u" "apply_delta cs u = Ok t"
    by (auto simp: res_simps)
  show ?case
    using apply_change_same [OF u(1)] Cons.IH [OF u(2)] same_trans by metis
qed simp

lemma execution_output_changes:
  assumes "validate_execution_output h e sz input out (frame_state m) = Ok changes"
  shows "changes = out_ordered_changes out" "delta_ok (ProtocolState m) changes"
    "out_gas_used out \<le> in_max_gas input" "out_input_hash out = compute_input_hash h e input"
    "compute_receipt_hash h out = out_receipt_hash out"
proof -
  have fs: "frame_state m = (\<lambda>k. Ok (ProtocolState m k))" by (simp add: frame_state_def fun_eq_iff)
  show "changes = out_ordered_changes out" "delta_ok (ProtocolState m) changes"
    "out_gas_used out \<le> in_max_gas input" "out_input_hash out = compute_input_hash h e input"
    "compute_receipt_hash h out = out_receipt_hash out"
    using assms unfolding fs validate_execution_output_def validate_common_Ok by auto
qed

end
