(* ===== verification/MiniJam_Chain.thy ===== *)
theory MiniJam_Chain
  imports MiniJam_Queue_Inv
begin

text \<open>
  The chain as a whole: the MiniJAM pallet over the workers pallet.

  \<open>minijam_step\<close> is the step relation of the runtime, with the calls and the
  hooks of both pallets.  Every step keeps the invariant of the chain, acts on
  the workers pallet by steps of that pallet, moves each work along the abstract
  machine \<open>work_moves\<close>, and never takes back a processed allocation, an execution
  receipt or the work of a package.  The contracts of \<open>Transition\<close> are
  interpreted on it.
\<close>

section \<open>The invariant of the chain\<close>

definition chain_inv :: "'c minijam_env \<Rightarrow> 'c minijam_state \<Rightarrow> bool" where
  "chain_inv M m \<longleftrightarrow> jam_works_inv M m \<and> queues_inv M m \<and> allocs_inv M m"

text \<open>What is written once: a processed allocation, an execution receipt, the work of a package.\<close>

definition jam_keeps :: "'c minijam_state \<Rightarrow> 'c minijam_state \<Rightarrow> bool" where
  "jam_keeps m t \<longleftrightarrow>
     (\<forall>k. ProcessedAllocations m k \<noteq> None \<longrightarrow> ProcessedAllocations t k \<noteq> None)
     \<and> (\<forall>i r. ExecutionReceipts m i = Some r \<longrightarrow> ExecutionReceipts t i = Some r)
     \<and> (\<forall>h i. WorkByPackageHash m h = Some i \<longrightarrow> WorkByPackageHash t h = Some i)"

lemma jam_keeps_refl [simp]: "jam_keeps m m"
  by (simp add: jam_keeps_def)

lemma jam_keeps_trans: "jam_keeps m t \<Longrightarrow> jam_keeps t u \<Longrightarrow> jam_keeps m u"
  by (simp add: jam_keeps_def)

lemma same_keeps: "works_same m t \<Longrightarrow> allocs_same m t \<Longrightarrow> jam_keeps m t"
  by (simp add: jam_keeps_def same_defs)

lemma chain_inv_same:
  "works_same m t \<Longrightarrow> queues_inv M t \<Longrightarrow> allocs_inv M t \<Longrightarrow> chain_inv M m \<Longrightarrow> chain_inv M t"
  by (simp add: chain_inv_def works_same_inv)

section \<open>The life of a work\<close>

text \<open>
  The abstract machine of a single work.  A work is absent, then submitted; it gets workers, gets a
  candidate, is voted on, and is accepted and imported, or goes to its next round, or fails when
  the rounds are used up.
\<close>

inductive work_moves :: "'c minijam_env \<Rightarrow> work_record option \<Rightarrow> work_record option \<Rightarrow> bool" for M where
  wm_submit: "wr_status w = StInsufficientWorkers \<Longrightarrow> wr_round w = 0 \<Longrightarrow> work_moves M None (Some w)"
| wm_assign: "wr_status w = StInsufficientWorkers \<Longrightarrow>
    work_moves M (Some w) (Some (w\<lparr>wr_status := StAwaitingCandidate, wr_candidate_deadline := d\<rparr>))"
| wm_candidate: "wr_status w = StAwaitingCandidate \<Longrightarrow> work_moves M (Some w) (Some (w\<lparr>wr_status := StVoting\<rparr>))"
| wm_accept: "wr_status w = StVoting \<Longrightarrow> work_moves M (Some w) (Some (w\<lparr>wr_status := StAccepted\<rparr>))"
| wm_import: "wr_status w = StAccepted \<Longrightarrow> work_moves M (Some w) (Some (w\<lparr>wr_status := StImported\<rparr>))"
| wm_advance: "wr_status w \<in> {StAwaitingCandidate, StVoting} \<Longrightarrow> saturating_add (wr_round w) 1 < MaxCandidateRounds M \<Longrightarrow>
    work_moves M (Some w) (Some (w\<lparr>wr_round := saturating_add (wr_round w) 1, wr_status := StInsufficientWorkers\<rparr>))"
| wm_fail: "wr_status w \<in> {StAwaitingCandidate, StVoting} \<Longrightarrow> \<not> saturating_add (wr_round w) 1 < MaxCandidateRounds M \<Longrightarrow>
    work_moves M (Some w) (Some (w\<lparr>wr_status := StFailed\<rparr>))"

inductive_cases work_movesE: "work_moves M a b"

section \<open>The state transition of a block\<close>

lemma stf_committed:
  assumes "execute_block_stf_inner M block due m = Ok (summary, t)" "queues_inv M m" "allocs_inv M m"
    "distinct (map ei_work_id due)"
  obtains input :: execution_input and out :: execution_output where
    "stf_input M block due m = Ok input" "jx_execute M input (frame_state m) = Ok out"
    "out_gas_used out \<le> in_max_gas input"
    "out_input_hash out = compute_input_hash (jam_hash M) (encode_system_op M) input"
    "compute_receipt_hash (jam_hash M) out = out_receipt_hash out"
    "imported (out_consumed_reports out) (out_receipt_hash out) (ei_work_id ` set due) m t"
    "queues_inv M t" "allocs_inv M t" "wk t = wk m" "NextWorkId t = NextWorkId m"
    "WorkByPackageHash t = WorkByPackageHash m" "Candidates t = Candidates m"
    "PendingWorks t = PendingWorks m" "ExecutionQueue t = ExecutionQueue m"
    "ProtocolState t = overlay (out_ordered_changes out) (ProtocolState m)"
    "delta_ok (ProtocolState m) (out_ordered_changes out)"
    "LastExecutionReceipt t = Some (out_receipt_hash out)"
    "\<forall>k. ProcessedAllocations m k \<noteq> None \<longrightarrow> ProcessedAllocations t k \<noteq> None"
    "\<forall>item\<in>set due. \<exists>w cd. Works m (ei_work_id item) = Some w \<and> wr_status w = StAccepted
       \<and> candidate_for_work m (ei_work_id item) = Some (wr_round w, cd)"
proof -
  obtain input out changes m1 m2 t' where inp: "stf_input M block due m = Ok input"
    and ex: "jx_execute M input (frame_state m) = Ok out"
    and v: "validate_execution_output (jam_hash M) (encode_system_op M) (encoded_changes_size M)
       input out (frame_state m) = Ok changes"
    and d: "apply_delta changes m = Ok m1" and a: "consume_successful_allocations M changes m1 = Ok m2"
    and imp: "import_reports (out_consumed_reports out) (out_receipt_hash out) (map ei_work_id due)
       (consume_system_ops (out_consumed_system_ops out) (consume_preimages M (out_consumed_preimages out) m2)) = Ok t'"
    and t: "t = t'\<lparr>LastExecutionReceipt := Some (out_receipt_hash out)\<rparr>"
    using assms(1) by (rule stf_inner_Ok)
  let ?p = "consume_preimages M (out_consumed_preimages out) m2"
  let ?s = "consume_system_ops (out_consumed_system_ops out) ?p"
  note out = execution_output_changes [OF v]
  note d1 = apply_delta_same [OF d]
  have st1: "ProtocolState m1 = overlay (out_ordered_changes out) (ProtocolState m)"
    using chain.apply_all_overlay [of m changes] d out by auto
  have q1: "queues_inv M m1" "allocs_inv M m1"
    using assms(2,3) d1 queues_same_inv [of m m1 M] allocs_same_inv [of m m1 M] by simp_all
  have a2: "allocs_inv M m2 \<and> works_same m1 m2 \<and> queues_same m1 m2 \<and> ProtocolState m2 = ProtocolState m1
       \<and> (\<forall>k. ProcessedAllocations m1 k \<noteq> None \<longrightarrow> ProcessedAllocations m2 k \<noteq> None)"
    using consume_allocations_inv [of M changes _ m1 m2] a q1 unfolding consume_successful_allocations_def by blast
  have q2: "queues_inv M m2" using a2 q1 queues_same_inv by metis
  note p = consume_preimages_inv [OF q2, of "out_consumed_preimages out"]
  note s = consume_system_ops_inv [OF p(1), of "out_consumed_system_ops out"]
  have ws: "works_same m ?s" using d1 a2 p(2) s(2) same_trans(1) by metis
  have al: "allocs_same m2 ?s" using p(3) s(3) same_trans(3) by metis
  have as: "allocs_inv M ?s" using al a2 allocs_same_inv [of m2 ?s M] by simp
  note i = import_reports_spec [OF imp assms(4)]
  have cand: "candidate_for_work ?s j = candidate_for_work m j" for j
    using ws by (simp add: candidate_for_work_def works_same_def split: option.split)
  have im: "imported (out_consumed_reports out) (out_receipt_hash out) (ei_work_id ` set due) m t"
    using i ws unfolding imported_def cand by (simp add: t works_same_def)
  show ?thesis
  proof (rule that [OF inp ex out(3-5) im])
    show "queues_inv M t" "allocs_inv M t"
      using i s(1) as queues_same_inv [of ?s t'] allocs_same_inv [of ?s t']
        queues_same_inv [of t' t] allocs_same_inv [of t' t] by (auto simp: t same_defs)
    show "wk t = wk m" "NextWorkId t = NextWorkId m"
      "WorkByPackageHash t = WorkByPackageHash m" "Candidates t = Candidates m"
      "PendingWorks t = PendingWorks m" "ExecutionQueue t = ExecutionQueue m"
      using i ws by (simp_all add: t works_same_def)
    show "ProtocolState t = overlay (out_ordered_changes out) (ProtocolState m)"
      using i s(4) p(4) a2 st1 by (simp add: t)
    show "delta_ok (ProtocolState m) (out_ordered_changes out)" using out by simp
    show "LastExecutionReceipt t = Some (out_receipt_hash out)" by (simp add: t)
    show "\<forall>k. ProcessedAllocations m k \<noteq> None \<longrightarrow> ProcessedAllocations t k \<noteq> None"
      using d1 a2 al i by (simp add: t allocs_same_def)
    show "\<forall>item\<in>set due. \<exists>w cd. Works m (ei_work_id item) = Some w \<and> wr_status w = StAccepted
       \<and> candidate_for_work m (ei_work_id item) = Some (wr_round w, cd)"
      using gather_reports_Ok(2) [OF stf_input_gathers [OF inp]] by blast
  qed
qed

lemma due_split:
  assumes "split_queue (ReportImportPaused m) block n (ExecutionQueue m) [] [] = (due, ret)"
    "works_inv M m" "due' = sort_key f due"
  shows "distinct (map ei_work_id due')" "mset ret \<subseteq># mset (ExecutionQueue m)"
    "ei_work_id ` set due' \<inter> ei_work_id ` set ret = {}" "length due' \<le> n"
    "set due' \<union> set ret = set (ExecutionQueue m)"
    "\<forall>e\<in>set due'. \<not> ReportImportPaused m \<and> ei_execute_at e \<le> block"
proof -
  note s = split_queue_spec [OF assms(1)]
  have ms: "mset due' + mset ret = mset (ExecutionQueue m)" using s assms(3) by simp
  then have "mset (map ei_work_id (due' @ ret)) = mset (map ei_work_id (ExecutionQueue m))"
    by (metis mset_append mset_map)
  then have dd: "distinct (map ei_work_id (due' @ ret))"
    using works_invD(5) [OF assms(2)] mset_eq_imp_distinct_iff by blast
  then show "distinct (map ei_work_id due')" "ei_work_id ` set due' \<inter> ei_work_id ` set ret = {}"
    by auto
  show "mset ret \<subseteq># mset (ExecutionQueue m)" using ms by (metis mset_subset_eq_add_right)
  show "set due' \<union> set ret = set (ExecutionQueue m)"
    using ms by (metis set_mset_mset set_mset_union)
  show "length due' \<le> n" "\<forall>e\<in>set due'. \<not> ReportImportPaused m \<and> ei_execute_at e \<le> block"
    using s assms(3) by auto
qed

lemma stf_inv:
  assumes "execute_block_stf M block m = Ok t" "chain_inv M m"
  shows "chain_inv M t \<and> wk t = wk m \<and> jam_keeps m t \<and> (\<forall>i. (work_moves M)\<^sup>*\<^sup>* (Works m i) (Works t i))"
proof -
  note ci = assms(2) [unfolded chain_inv_def]
  have wi: "works_inv M m" using ci jam_works_invD by blast
  obtain due ret where sp: "split_queue (ReportImportPaused m) block (unat (MaxExecutionReports M)) (ExecutionQueue m) [] [] = (due, ret)"
    by fastforce
  define due' where "due' = sort_key (due_order m) due"
  note ds = due_split [OF sp wi due'_def]
  show ?thesis
  proof (cases "execute_block_stf_inner M block due' m")
    case (Ok st)
    obtain summary u where st: "st = (summary, u)" by (cases st)
    have "length ret \<le> unat (MaxPendingWorks M)"
      using size_mset_mono [OF ds(2)] works_invD(6) [OF wi] by simp
    then have t: "t = jam_event (BlockStfExecuted block (bs_report_count summary)
                        (bs_preimage_count summary) (bs_system_op_count summary) (bs_receipt_hash summary))
                      (u\<lparr>ExecutionQueue := ret\<rparr>)"
      using assms(1) Ok st by (auto simp: execute_block_stf_def sp due'_def [symmetric] try_bounded_def split: if_splits)
    from Ok st obtain out :: execution_output where o: "imported (out_consumed_reports out) (out_receipt_hash out) (ei_work_id ` set due') m u"
      "queues_inv M u" "allocs_inv M u" "wk u = wk m" "NextWorkId u = NextWorkId m"
      "WorkByPackageHash u = WorkByPackageHash m" "Candidates u = Candidates m"
      "PendingWorks u = PendingWorks m" "ExecutionQueue u = ExecutionQueue m"
      "\<forall>k. ProcessedAllocations m k \<noteq> None \<longrightarrow> ProcessedAllocations u k \<noteq> None"
      and due: "\<forall>item\<in>set due'. \<exists>w cd. Works m (ei_work_id item) = Some w \<and> wr_status w = StAccepted
       \<and> candidate_for_work m (ei_work_id item) = Some (wr_round w, cd)"
      using stf_committed [OF _ _ _ ds(1)] ci by metis
    let ?m = "m\<lparr>ExecutionQueue := ret\<rparr>" and ?u = "u\<lparr>ExecutionQueue := ret\<rparr>"
    have "imported (out_consumed_reports out) (out_receipt_hash out) (ei_work_id ` set due') ?m ?u"
      using o(1) by (simp add: imported_def candidate_for_work_def split: option.split)
    then have "works_inv M ?u"
    proof (rule import_inv [OF works_inv_queue [OF wi ds(2)]])
      show "\<exists>w. Works ?m i = Some w \<and> wr_status w = StAccepted" if "i \<in> ei_work_id ` set due'" for i
        using due that by auto
      show "i \<notin> ei_work_id ` set (ExecutionQueue ?m)" if "i \<in> ei_work_id ` set due'" for i
        using ds(3) that by auto
    qed (use o in simp_all)
    then have ti: "works_inv M t" by (simp add: t works_event)
    have "queues_inv M t" "allocs_inv M t"
      using o(2,3) queues_same_inv [of u t M] allocs_same_inv [of u t M] by (auto simp: t same_defs)
    moreover have "ExecutionReceipts u i = Some r" if "ExecutionReceipts m i = Some r" for i r
    proof (cases "i \<in> ei_work_id ` set due'")
      case True
      then obtain w where "Works m i = Some w" "wr_status w = StAccepted" using due by auto
      then show ?thesis using works_invD(1) [OF wi, of i w] that by (auto simp: work_ok_def)
    next
      case False
      then show ?thesis using o(1) that unfolding imported_def by metis
    qed
    moreover have "(work_moves M)\<^sup>*\<^sup>* (Works m i) (Works u i)" for i
    proof (cases "Works u i = Works m i")
      case False
      then have i: "i \<in> ei_work_id ` set due'" "Works u i = map_option (\<lambda>w. w\<lparr>wr_status := StImported\<rparr>) (Works m i)"
        using o(1) unfolding imported_def by metis+
      then obtain w where "Works m i = Some w" "wr_status w = StAccepted" using due by auto
      then show ?thesis using i(2) wm_import [of w M] by auto
    qed simp
    ultimately show ?thesis
      using ti ci o by (auto simp: chain_inv_def jam_works_inv_def t jam_keeps_def)
  next
    case (Err e)
    show ?thesis
    proof (cases e)
      case (Yielded w oc)
      then have "t = jam_event (ExecutionYielded w oc) m"
        using assms(1) Err by (simp add: execute_block_stf_def sp due'_def [symmetric])
      then have "works_same m t" "queues_same m t" "allocs_same m t" by (simp_all add: same_defs)
      then show ?thesis
        using ci chain_inv_same [OF _ _ _ assms(2), of t] same_keeps [of m t] queues_same_inv [of m t M] allocs_same_inv [of m t M]
        by (simp add: works_same_def)
    next
      case (SystemOpsYielded oc)
      then have t: "t = quarantine_pending_system_ops M oc m"
        using assms(1) Err by (simp add: execute_block_stf_def sp due'_def [symmetric])
      note q = quarantine_pending_system_ops_inv [of M m oc, folded t]
      then show ?thesis
        using ci chain_inv_same [OF _ _ _ assms(2), of t] same_keeps [of m t] allocs_same_inv [of m t M]
        by (simp add: works_same_def)
    next
      case (PreimagesRejected code)
      then have t: "t = quarantine_pending_preimages M code m"
        using assms(1) Err by (simp add: execute_block_stf_def sp due'_def [symmetric])
      note q = quarantine_pending_preimages_inv [of M m code, folded t]
      then show ?thesis
        using ci chain_inv_same [OF _ _ _ assms(2), of t] same_keeps [of m t] allocs_same_inv [of m t M]
        by (simp add: works_same_def)
    next
      case Fatal
      then show ?thesis using assms(1) Err by (simp add: execute_block_stf_def sp due'_def [symmetric])
    qed
  next
    case Panic
    then show ?thesis using assms(1) by (simp add: execute_block_stf_def sp due'_def [symmetric])
  qed
qed

section \<open>The operations on works\<close>

text \<open>What the operations on works change, and what they leave alone.\<close>

definition works_only :: "'c minijam_env \<Rightarrow> 'c minijam_state \<Rightarrow> 'c minijam_state \<Rightarrow> bool" where
  "works_only M m t \<longleftrightarrow> queues_same m t \<and> allocs_same m t \<and> ExecutionReceipts t = ExecutionReceipts m
     \<and> WorkByPackageHash m \<subseteq>\<^sub>m WorkByPackageHash t \<and> (\<forall>i. (work_moves M)\<^sup>*\<^sup>* (Works m i) (Works t i))"

lemma works_only_refl [simp]: "works_only M m m"
  by (simp add: works_only_def)

lemma works_only_trans: "works_only M m t \<Longrightarrow> works_only M t u \<Longrightarrow> works_only M m u"
  unfolding works_only_def using same_trans map_le_trans by (metis rtranclp_trans)

lemma works_onlyI:
  assumes "queues_same m t" "allocs_same m t" "ExecutionReceipts t = ExecutionReceipts m"
    "WorkByPackageHash m \<subseteq>\<^sub>m WorkByPackageHash t" "\<And>i. Works t i \<noteq> Works m i \<Longrightarrow> work_moves M (Works m i) (Works t i)"
  shows "works_only M m t"
  unfolding works_only_def using assms by (metis r_into_rtranclp rtranclp.rtrancl_refl)

lemma works_only_keeps: "works_only M m t \<Longrightarrow> jam_keeps m t"
  by (auto simp: works_only_def jam_keeps_def allocs_same_def map_le_def dom_def)

lemma works_only_inv:
  "works_only M m t \<Longrightarrow> jam_works_inv M t \<Longrightarrow> chain_inv M m \<Longrightarrow> chain_inv M t"
  using queues_same_inv [of m t M] allocs_same_inv [of m t M] by (simp add: chain_inv_def works_only_def)

lemma prepare_round_only:
  assumes "prepare_round M i m = Ok t" "Works m i = Some w" "wr_status w = StInsufficientWorkers"
  shows "works_only M m t"
  using assms(1)
proof (rule prepare_round_Ok)
  fix w' ws s
  assume w': "Works m i = Some w'"
    and t: "t = jam_event (WorkRoundAdvanced i (wr_round w') StAwaitingCandidate)
        (put_work i (w'\<lparr>wr_status := StAwaitingCandidate,
           wr_candidate_deadline := saturating_add (block_number_of m) (ReportSubmissionDeadline M)\<rparr>) (m\<lparr>wk := s\<rparr>))"
  have "w' = w" using w' assms(2) by simp
  then show ?thesis
    using assms(2,3) by (auto intro!: works_onlyI wm_assign simp: t put_work_def same_defs split: if_splits)
next
  fix w' e
  assume w': "Works m i = Some w'"
    and t: "t = jam_event (WorkRoundAdvanced i (wr_round w') StInsufficientWorkers)
        (put_work i (w'\<lparr>wr_status := StInsufficientWorkers\<rparr>) m)"
  have w: "w' = w" using w' assms(2) by simp
  have "w\<lparr>wr_status := StInsufficientWorkers\<rparr> = w" by (rule work_record.equality) (simp_all add: assms(3))
  then show ?thesis
    using assms(2,3) by (auto intro!: works_onlyI simp: t w put_work_def same_defs split: if_splits)
qed

lemma advance_or_fail_only:
  assumes "advance_or_fail M i rejected m = Ok t" "Works m i = Some w"
    "wr_status w \<in> {StAwaitingCandidate, StVoting}"
  shows "works_only M m t"
proof -
  obtain w' c m1 where w': "Works m i = Some w'" and m1: "m1 = (if rejected then jam_event (CandidateRejected i (wr_round w')) (put_balances c m) else m)"
    and rest: "if saturating_add (wr_round w') 1 \<ge> MaxCandidateRounds M
     then fail_work M i w' (jam_clear_assignment i (wr_round w') m1) = Ok t
     else prepare_round M i (put_work i (w'\<lparr>wr_round := saturating_add (wr_round w') 1,
            wr_status := StInsufficientWorkers\<rparr>) (jam_clear_assignment i (wr_round w') m1)) = Ok t"
    using assms(1) by (rule advance_or_fail_Ok)
  have "w' = w" using w' assms(2) by simp
  note m1 = m1 [unfolded this] and rest = rest [unfolded this]
  show ?thesis
  proof (cases "saturating_add (wr_round w) 1 \<ge> MaxCandidateRounds M")
    case True
    then obtain c' where "t = jam_event (WorkFailed i) (jam_clear_assignment i (wr_round w)
      (remove_pending i (put_work i (w\<lparr>wr_status := StFailed\<rparr>) (put_balances c' (jam_clear_assignment i (wr_round w) m1)))))"
      using rest by (auto elim: fail_work_Ok)
    with True show ?thesis
      using assms(2,3)
      by (auto intro!: works_onlyI wm_fail simp: m1 put_work_def remove_pending_def jam_clear_assignment_def put_balances_def same_defs
          split: if_splits)
  next
    case False
    let ?m2 = "put_work i (w\<lparr>wr_round := saturating_add (wr_round w) 1,
            wr_status := StInsufficientWorkers\<rparr>) (jam_clear_assignment i (wr_round w) m1)"
    have "works_only M m ?m2"
      using assms(2,3) False
      by (auto intro!: works_onlyI wm_advance simp: m1 put_work_def jam_clear_assignment_def put_balances_def same_defs
          not_le split: if_splits)
    moreover have "works_only M ?m2 t"
      using rest False by (auto intro!: prepare_round_only simp: put_work_def)
    ultimately show ?thesis by (rule works_only_trans)
  qed
qed

lemma accept_candidate_only:
  assumes "accept_candidate M i m = Ok t" "Works m i = Some w" "wr_status w = StVoting"
  shows "works_only M m t"
  using assms(1)
proof (rule accept_candidate_Ok)
  fix w' cd c
  assume w': "Works m i = Some w'"
    and t: "t = jam_event (CandidateAccepted i (wr_round w')) (jam_clear_assignment i (wr_round w')
         ((remove_pending i (put_work i (w'\<lparr>wr_status := StAccepted\<rparr>) (put_balances c m)))
           \<lparr>ExecutionQueue := ExecutionQueue m @ [\<lparr>ei_work_id = i,
              ei_execute_at = saturating_add (block_number_of m) 1\<rparr>]\<rparr>))"
  have w: "w' = w" using w' assms(2) by simp
  show ?thesis
    using assms(2,3)
    by (auto intro!: works_onlyI wm_accept simp: t w put_work_def remove_pending_def jam_clear_assignment_def put_balances_def
        same_defs split: if_splits)
qed

lemma submit_candidate_only:
  assumes "submit_candidate M origin env m = Ok t"
  shows "works_only M m t"
  using assms
proof (rule submit_candidate_Ok)
  fix who w worker ws c s
  assume "Works m (env_work_id env) = Some w" "wr_status w = StAwaitingCandidate"
    "t = jam_event (CandidateSubmitted (env_work_id env) (wr_round w) who (env_canonical_report_hash env))
          (put_work (env_work_id env) (w\<lparr>wr_status := StVoting\<rparr>)
            (m\<lparr>wk := s, Candidates := (Candidates m)((env_work_id env, wr_round w) \<mapsto>
                 \<lparr>cd_submitter = who, cd_envelope = env,
                  cd_vote_deadline = saturating_add (block_number_of m) (VoteWindow M)\<rparr>)\<rparr>))"
  then show ?thesis
    by (auto intro!: works_onlyI wm_candidate simp: put_work_def same_defs split: if_splits)
qed

lemma submit_work_only:
  assumes "submit_work M origin canonical bundle m = Ok t" "jam_works_inv M m"
  shows "works_only M m t"
  using assms(1)
proof (rule submit_work_Ok)
  fix who c m1 m2
  let ?i = "NextWorkId m" and ?h = "jam_hash M canonical"
  assume fresh: "WorkByPackageHash m ?h = None"
    and m1: "m1 = (put_work ?i
              \<lparr>wr_owner = who, wr_package_hash = ?h, wr_canonical_work_package = canonical,
               wr_bundle_ref = bundle, wr_fuel_reservation = [], wr_round = 0,
               wr_status = StInsufficientWorkers, wr_candidate_deadline = 0\<rparr>
              (put_balances c (m\<lparr>PendingWorks := PendingWorks m @ [?i]\<rparr>)))
            \<lparr>WorkByPackageHash := (WorkByPackageHash m)(?h \<mapsto> ?i), NextWorkId := ?i + 1\<rparr>"
    and pr: "prepare_round M ?i m1 = Ok m2"
    and t: "\<exists>st. t = jam_event (WorkSubmitted ?i who ?h bundle st) m2"
  have none: "Works m ?i = None"
  proof (rule ccontr)
    assume "Works m ?i \<noteq> None"
    then obtain w where "Works m ?i = Some w" by blast
    from works_invD(1) [OF jam_works_invD(2) [OF assms(2)] this] show False by (simp add: work_ok_def)
  qed
  have "works_only M m m1"
    using fresh none
    by (auto intro!: works_onlyI wm_submit simp: m1 put_work_def put_balances_def same_defs map_le_def split: if_splits)
  moreover have "works_only M m1 m2"
    by (rule prepare_round_only [OF pr]) (auto simp: m1 put_work_def)
  moreover have "works_only M m2 t"
    using t by (auto intro!: works_onlyI simp: same_defs)
  ultimately show ?thesis using works_only_trans by blast
qed

lemma work_on_initialize_only:
  assumes "work_on_initialize M block i m = Ok t"
  shows "works_only M m t"
proof (cases "Works m i")
  case None
  then show ?thesis using assms by (simp add: work_on_initialize_def)
next
  case (Some w)
  show ?thesis
    using assms Some
    by (auto simp: work_on_initialize_def ignore_err_Ok split: work_status.splits if_splits option.splits round_decision.splits
        intro: prepare_round_only advance_or_fail_only accept_candidate_only)
qed

lemma works_on_initialize_only:
  "works_on_initialize M block is m = Ok t \<Longrightarrow> works_only M m t"
proof (induction "is" arbitrary: m)
  case (Cons i "is")
  then show ?case
    using work_on_initialize_only works_only_trans by (auto simp: res_simps) blast
qed simp

section \<open>Steps of the chain\<close>

text \<open>
  The runtime runs \<open>on_initialize\<close> of the workers pallet and then of the MiniJAM pallet, the calls
  of both, and \<open>on_finalize\<close>.  Between calls the block number and other accounts' balances change.
\<close>

inductive minijam_step :: "'c minijam_env \<Rightarrow> 'c minijam_state \<Rightarrow> 'c minijam_state \<Rightarrow> bool" for M where
  ms_call: "minijam_dispatch M origin call m = Ok t \<Longrightarrow> minijam_step M m t"
| ms_workers: "workers_dispatch (wenv M) origin call (wk m) = Ok s \<Longrightarrow> minijam_step M m (m\<lparr>wk := s\<rparr>)"
| ms_workers_init: "workers_on_initialize (wenv M) block (wk m) = Ok s \<Longrightarrow> minijam_step M m (m\<lparr>wk := s\<rparr>)"
| ms_init: "minijam_on_initialize M block m = Ok t \<Longrightarrow> minijam_step M m t"
| ms_finalize: "minijam_on_finalize M block m = Ok t \<Longrightarrow> minijam_step M m t"
| ms_block: "minijam_step M m (m\<lparr>wk := (wk m)\<lparr>block_no := n, block_hash := f\<rparr>\<rparr>)"
| ms_balances: "minijam_step M m (m\<lparr>wk := (wk m)\<lparr>balances := c\<rparr>\<rparr>)"
| ms_consume: "consume_allocation M k m = Ok t \<Longrightarrow> minijam_step M m t"

inductive_cases minijam_stepE: "minijam_step M m t"

definition step_ok :: "'c minijam_env \<Rightarrow> 'c minijam_state \<Rightarrow> 'c minijam_state \<Rightarrow> bool" where
  "step_ok M m t \<longleftrightarrow> chain_inv M t \<and> (workers_step (wenv M))\<^sup>*\<^sup>* (wk m) (wk t) \<and> jam_keeps m t
     \<and> (\<forall>i. (work_moves M)\<^sup>*\<^sup>* (Works m i) (Works t i))"

lemma step_ok_same:
  assumes "works_same m t" "queues_inv M t" "allocs_inv M t" "chain_inv M m"
    "\<And>k. ProcessedAllocations m k \<noteq> None \<Longrightarrow> ProcessedAllocations t k \<noteq> None"
  shows "step_ok M m t"
  using assms chain_inv_same [OF assms(1-4)] by (simp add: step_ok_def works_same_def jam_keeps_def)

lemma step_ok_works:
  assumes "works_only M m t" "jam_works_inv M t" "(workers_step (wenv M))\<^sup>*\<^sup>* (wk m) (wk t)" "chain_inv M m"
  shows "step_ok M m t"
  using assms works_only_inv [OF assms(1,2)] works_only_keeps [OF assms(1)] by (simp add: step_ok_def works_only_def)

text \<open>A change of the workers pallet that no MiniJAM code makes.\<close>

lemma step_ok_workers:
  assumes "workers_step (wenv M) (wk m) s" "workers_inv (wenv M) s" "rounds_only (wk m) s" "chain_inv M m"
  shows "step_ok M m (m\<lparr>wk := s\<rparr>)"
proof (rule step_ok_works)
  show "works_only M m (m\<lparr>wk := s\<rparr>)" by (simp add: works_only_def same_defs)
  show "jam_works_inv M (m\<lparr>wk := s\<rparr>)"
    using assms works_inv_rounds [OF _ assms(3)] by (simp add: jam_works_inv_def chain_inv_def)
qed (use assms in auto)

lemma admin_step:
  assumes "works_same m t" "queues_same m t" "allocs_same m t" "chain_inv M m"
  shows "step_ok M m t"
  using assms queues_same_inv [OF assms(2), of M] allocs_same_inv [OF assms(3), of M]
  by (intro step_ok_same) (auto simp: chain_inv_def allocs_same_def)

lemma money_step_ok:
  assumes "works_only M m t" "\<exists>c. wk t = (wk m)\<lparr>balances := c\<rparr>" "works_inv M t" "chain_inv M m"
  shows "step_ok M m t"
proof -
  obtain c where c: "wk t = (wk m)\<lparr>balances := c\<rparr>" using assms(2) by blast
  have "workers_inv (wenv M) (wk t)"
    using inv_put_balances [of "wenv M" "wk m" c] assms(4) by (simp add: c chain_inv_def jam_works_inv_def)
  then have "jam_works_inv M t" using assms(3) by (simp add: jam_works_inv_def)
  moreover have "workers_step (wenv M) (wk m) (wk t)" unfolding c by (rule ws_balances)
  ultimately show ?thesis using step_ok_works [OF assms(1) _ _ assms(4)] by blast
qed

lemma fund_service_ok:
  assumes "fund_service M origin service_id amount m = Ok t" "chain_inv M m"
  shows "step_ok M m t"
proof (rule money_step_ok [OF _ _ _ assms(2)])
  obtain c u where c: "t = jam_event u (m\<lparr>wk := (wk m)\<lparr>balances := c\<rparr>,
      ServiceFuelAccounts := ServiceFuelAccounts t, TotalServiceFuel := TotalServiceFuel t\<rparr>)"
    using assms(1)
    by (auto simp: fund_service_def res_simps ensure_signed_Ok Let_def jam_currency_def put_balances_def jam_event_def)
  show "\<exists>c. wk t = (wk m)\<lparr>balances := c\<rparr>" by (subst c) auto
  show "works_only M m t" by (subst c) (simp add: works_only_def same_defs)
  have "works_inv M (m\<lparr>wk := (wk m)\<lparr>balances := c\<rparr>, ServiceFuelAccounts := ServiceFuelAccounts t,
      TotalServiceFuel := TotalServiceFuel t\<rparr>) = works_inv M m"
    by (rule works_frame) simp_all
  then show "works_inv M t"
    using assms(2) by (subst c) (simp add: works_event chain_inv_def jam_works_inv_def)
qed

lemma quarantine_pending_ok:
  assumes "quarantine_pending origin m = Ok t" "chain_inv M m"
  shows "step_ok M m t"
proof -
  have t: "t = jam_event (ExecutionQueueQuarantined (of_nat (length (ExecutionQueue m))))
      (m\<lparr>ExecutionQueue := [], QuarantinedExecutionQueue := ExecutionQueue m\<rparr>)"
    using assms(1) by (auto simp: quarantine_pending_def ensure_root_Ok Let_def)
  have "works_inv M (m\<lparr>ExecutionQueue := [], QuarantinedExecutionQueue := ExecutionQueue m\<rparr>)
      = works_inv M (m\<lparr>ExecutionQueue := []\<rparr>)"
    by (rule works_frame) simp_all
  then have "jam_works_inv M t"
    using works_inv_queue [of M m "[]"] assms(2) by (simp add: t jam_works_inv_def works_event chain_inv_def)
  then show ?thesis
    by (intro step_ok_works) (simp_all add: t works_only_def same_defs assms(2))
qed

lemma dispatch_ok:
  assumes "minijam_dispatch M origin call m = Ok t" "chain_inv M m"
  shows "step_ok M m t"
proof -
  note ci = assms(2) [unfolded chain_inv_def]
  note call = assms(1)
  show ?thesis
  proof (cases call)
    case (CallSubmitWork canonical ref)
    then show ?thesis
      using call ci submit_work_only submit_work_inv by (intro step_ok_works [OF _ _ _ assms(2)]) auto
  next
    case (CallSubmitCandidate env)
    then show ?thesis
      using call ci submit_candidate_only submit_candidate_inv by (intro step_ok_works [OF _ _ _ assms(2)]) auto
  next
    case (CallSubmitPreimage canonical)
    then show ?thesis
      using call ci submit_preimage_inv [of M origin canonical m t] allocs_same_inv [of m t M]
      by (intro step_ok_same [OF _ _ _ assms(2)]) (auto simp: allocs_same_def)
  next
    case (CallSubmitSystemOp command)
    then show ?thesis
      using call ci submit_system_op_inv [of M origin command m t] allocs_same_inv [of m t M]
      by (intro step_ok_same [OF _ _ _ assms(2)]) (auto simp: allocs_same_def)
  next
    case (CallRetryQuarantined rid)
    then show ?thesis
      using call ci retry_inv [of M origin rid m t] allocs_same_inv [of m t M]
      by (intro step_ok_same [OF _ _ _ assms(2)]) (auto simp: allocs_same_def)
  next
    case (CallSubmitAllocation al)
    have "ProcessedAllocations t = ProcessedAllocations m"
      using call CallSubmitAllocation by (auto elim!: submit_allocation_Ok)
    then show ?thesis
      using call ci submit_allocation_inv [of M origin al m t] queues_same_inv [of m t M] CallSubmitAllocation
      by (intro step_ok_same [OF _ _ _ assms(2)]) auto
  next
    case CallQuarantinePending
    then show ?thesis using call assms(2) quarantine_pending_ok by auto
  next
    case (CallFundService service_id amount)
    then show ?thesis using call assms(2) fund_service_ok by auto
  qed (use call in \<open>auto intro!: admin_step [OF _ _ _ assms(2)] simp: pause_execution_def set_ingress_relayer_def
       set_allocation_relayer_def drop_quarantined_system_op_def clear_quarantined_system_ops_def ensure_root_Ok same_defs
       split: option.splits\<close>)
qed

lemma consume_allocation_ok:
  assumes "consume_allocation M k m = Ok t" "chain_inv M m"
  shows "step_ok M m t"
proof -
  obtain p where p: "allocation_of m k = Some p" "t = mark_processed p k m"
    using assms(1) by (auto simp: consume_allocation_def res_simps)
  show ?thesis
  proof (rule step_ok_same [OF _ _ _ assms(2)])
    show "works_same m t" using mark_processed_same p(2) by blast
    show "queues_inv M t"
      using assms(2) queues_same_inv [OF mark_processed_same(2) [of m p k], of M] by (simp add: p(2) chain_inv_def)
    show "allocs_inv M t" using mark_processed_inv [of M m k p] assms(2) p by (simp add: chain_inv_def)
  qed (simp add: p(2) mark_processed_def)
qed

lemma rounds_only_env: "rounds_only s (s\<lparr>block_no := n, block_hash := f\<rparr>)" "rounds_only s (s\<lparr>balances := c\<rparr>)"
  by (auto intro: rounds_onlyI)

theorem minijam_step_ok:
  assumes "minijam_step M m t" "chain_inv M m" "iter_law (wenv M)"
  shows "step_ok M m t"
  using assms(1)
proof cases
  case (ms_call origin call)
  then show ?thesis using dispatch_ok assms(2) by blast
next
  case (ms_workers origin call s)
  then have "workers_step (wenv M) (wk m) s" by (blast intro: ws_call)
  with ms_workers assms(2,3) show ?thesis
    by (auto intro!: step_ok_workers rounds_dispatch intro: inv_workers_step simp: chain_inv_def jam_works_inv_def)
next
  case (ms_workers_init block s)
  then have "workers_step (wenv M) (wk m) s" by (blast intro: ws_init)
  with ms_workers_init assms(2,3) show ?thesis
    by (auto intro!: step_ok_workers rounds_init intro: inv_workers_step simp: chain_inv_def jam_works_inv_def)
next
  case (ms_init block)
  then have "works_on_initialize M block (PendingWorks m) m = Ok t" by (simp add: minijam_on_initialize_def)
  then show ?thesis
    using works_on_initialize_only [of M block "PendingWorks m" m t]
      works_on_initialize_inv [of M block "PendingWorks m" m t] assms(2)
    by (intro step_ok_works) (auto simp: chain_inv_def)
next
  case (ms_finalize block)
  then have "execute_block_stf M block m = Ok t" by (simp add: minijam_on_finalize_def)
  from stf_inv [OF this assms(2)] show ?thesis by (simp add: step_ok_def)
next
  case (ms_block f n)
  have "workers_step (wenv M) (wk m) ((wk m)\<lparr>block_no := n, block_hash := f\<rparr>)" by (rule ws_block)
  with ms_block assms(2,3) show ?thesis
    by (auto intro!: step_ok_workers rounds_only_env intro: inv_workers_step simp: chain_inv_def jam_works_inv_def)
next
  case (ms_balances c)
  have "workers_step (wenv M) (wk m) ((wk m)\<lparr>balances := c\<rparr>)" by (rule ws_balances)
  with ms_balances assms(2,3) show ?thesis
    by (auto intro!: step_ok_workers rounds_only_env intro: inv_workers_step simp: chain_inv_def jam_works_inv_def)
next
  case (ms_consume k)
  then show ?thesis using consume_allocation_ok assms(2) by blast
qed

section \<open>Contracts\<close>

definition chain_live :: "'c minijam_env \<Rightarrow> 'c minijam_state \<Rightarrow> bool" where
  "chain_live M m \<longleftrightarrow> iter_law (wenv M) \<and> chain_inv M m"

lemma live_step_ok: "minijam_step M m t \<Longrightarrow> chain_live M m \<Longrightarrow> step_ok M m t \<and> chain_live M t"
  using minijam_step_ok by (auto simp: chain_live_def step_ok_def)

interpretation jam: invariant_system "minijam_step M" "chain_live M" for M
  by unfold_locales (use live_step_ok in blast)

interpretation receipts: write_once "minijam_step M" "chain_live M" ExecutionReceipts for M
  by unfold_locales (use live_step_ok in \<open>unfold step_ok_def jam_keeps_def, blast\<close>)

interpretation packages: write_once "minijam_step M" "chain_live M" WorkByPackageHash for M
  by unfold_locales (use live_step_ok in \<open>unfold step_ok_def jam_keeps_def, blast\<close>)

text \<open>The processing of an allocation: its mark goes from absent to present.\<close>

definition allocation_fires :: "'c minijam_env \<Rightarrow> u64 \<Rightarrow> 'c minijam_state \<Rightarrow> 'c minijam_state \<Rightarrow> bool" where
  "allocation_fires M k m t \<longleftrightarrow> minijam_step M m t
     \<and> ProcessedAllocations m k = None \<and> ProcessedAllocations t k \<noteq> None"

interpretation allocations: exactly_once "minijam_step M" "chain_live M" ProcessedAllocations "allocation_fires M" for M
proof
  fix s t k v
  assume "minijam_step M s t" "chain_live M s" "ProcessedAllocations s k = Some (v :: unit)"
  then show "ProcessedAllocations t k = Some v"
    using live_step_ok [of M s t] by (auto simp: step_ok_def jam_keeps_def)
qed (auto simp: allocation_fires_def)

text \<open>A run of the chain is a run of the workers pallet and a run of each work.\<close>

lemma jam_run:
  assumes "(minijam_step M)\<^sup>*\<^sup>* m t" "chain_live M m"
  shows "(workers_step (wenv M))\<^sup>*\<^sup>* (wk m) (wk t)" "(work_moves M)\<^sup>*\<^sup>* (Works m i) (Works t i)"
proof -
  have "(workers_step (wenv M))\<^sup>*\<^sup>* (wk m) (wk t) \<and> (work_moves M)\<^sup>*\<^sup>* (Works m i) (Works t i)"
    using assms
  proof (induction rule: rtranclp_induct)
    case (step u v)
    then have "step_ok M u v" using live_step_ok jam.steps_inv by blast
    then show ?case using step unfolding step_ok_def by (meson rtranclp_trans)
  qed simp
  then show "(workers_step (wenv M))\<^sup>*\<^sup>* (wk m) (wk t)" "(work_moves M)\<^sup>*\<^sup>* (Works m i) (Works t i)"
    by blast+
qed

section \<open>How long a work lives\<close>

text \<open>What is left of a work: three moves for every round, and the import.\<close>

fun status_rank :: "work_status \<Rightarrow> nat" where
  "status_rank StInsufficientWorkers = 4"
| "status_rank StAwaitingCandidate = 3"
| "status_rank StVoting = 2"
| "status_rank StAccepted = 1"
| "status_rank StImported = 0"
| "status_rank StFailed = 0"

definition work_left :: "'c minijam_env \<Rightarrow> work_record \<Rightarrow> nat" where
  "work_left M w = 3 * (unat (MaxCandidateRounds M) - Suc (unat (wr_round w))) + status_rank (wr_status w)"

lemma work_moves_left:
  assumes "work_moves M (Some w) b"
  obtains w' where "b = Some w'" "work_left M w' < work_left M w"
    "wr_package_hash w' = wr_package_hash w" "wr_owner w' = wr_owner w" "wr_bundle_ref w' = wr_bundle_ref w"
    "wr_canonical_work_package w' = wr_canonical_work_package w" "wr_round w \<le> wr_round w'"
    "\<not> (wr_status w = StImported \<or> wr_status w = StFailed)"
  using assms
proof (cases rule: work_moves.cases)
  case wm_advance
  have r: "saturating_add (wr_round w) 1 = wr_round w + 1" "wr_round w < wr_round w + 1"
    using saturating_Suc_u8 [of "MaxCandidateRounds M" "wr_round w"] wm_advance by (auto simp: not_le)
  then have "unat (wr_round w + 1) = Suc (unat (wr_round w))" "Suc (unat (wr_round w)) < unat (MaxCandidateRounds M)"
    using wm_advance(3) r unat_Suc_less [OF r(2)] by (simp_all add: word_less_nat_alt)
  then show ?thesis
    using that wm_advance r by (auto simp: work_left_def less_imp_le)
qed (use that in \<open>auto simp: work_left_def\<close>)

text \<open>Moves of a work that exists.\<close>

lemma work_moves_run:
  assumes "(work_moves M ^^ n) (Some w) b"
  shows "\<exists>w'. b = Some w' \<and> n + work_left M w' \<le> work_left M w \<and> wr_package_hash w' = wr_package_hash w
     \<and> wr_owner w' = wr_owner w \<and> wr_bundle_ref w' = wr_bundle_ref w
     \<and> wr_canonical_work_package w' = wr_canonical_work_package w \<and> wr_round w \<le> wr_round w'
     \<and> (wr_status w = StImported \<or> wr_status w = StFailed \<longrightarrow> w' = w)"
  using assms
proof (induction n arbitrary: w)
  case (Suc n)
  obtain a where a: "work_moves M (Some w) a" "(work_moves M ^^ n) a b"
    using relpowp_Suc_D2 [OF Suc.prems] by blast
  from a(1) obtain v where v: "a = Some v" "work_left M v < work_left M w" "wr_package_hash v = wr_package_hash w"
    "wr_owner v = wr_owner w" "wr_bundle_ref v = wr_bundle_ref w"
    "wr_canonical_work_package v = wr_canonical_work_package w" "wr_round w \<le> wr_round v"
    "\<not> (wr_status w = StImported \<or> wr_status w = StFailed)"
    by (rule work_moves_left)
  obtain w' where "b = Some w'" "n + work_left M w' \<le> work_left M v \<and> wr_package_hash w' = wr_package_hash v
     \<and> wr_owner w' = wr_owner v \<and> wr_bundle_ref w' = wr_bundle_ref v
     \<and> wr_canonical_work_package w' = wr_canonical_work_package v \<and> wr_round v \<le> wr_round w'"
    using Suc.IH a(2) v(1) by blast
  then show ?case using v by (auto intro: order_trans)
qed auto

end
