(* ===== verification/MiniJam_Run.thy ===== *)
theory MiniJam_Run
  imports MiniJam_Chain
begin

text \<open>
  The chain at genesis satisfies the invariant, and a concrete chain: its configuration, an
  executor, and the states of a run with a submitted work, a candidate report, and a block
  transition that imports a report and confirms an allocation.
\<close>

section \<open>Genesis\<close>

definition empty_minijam_state :: "'c workers_state \<Rightarrow> 'c minijam_state" where
  "empty_minijam_state s =
     \<lparr>wk = s, IngressRelayer = None, AllocationRelayer = None, NextWorkId = 0, Works = Map.empty,
      WorkByPackageHash = Map.empty, Candidates = Map.empty, PendingWorks = [], ExecutionQueue = [],
      QuarantinedExecutionQueue = [], ProtocolState = Map.empty, ExecutionReceipts = Map.empty,
      LastExecutionReceipt = None, ReportImportPaused = False, PreimageImportPaused = False,
      SystemOpsPaused = False, PendingPreimages = [], PendingPreimageKeys = Map.empty,
      QuarantinedPreimages = [], PendingSystemOps = [], QuarantinedSystemOps = [],
      PendingSystemOpKeys = Map.empty, SystemOpNonces = (\<lambda>_. 0), PendingAllocations = [],
      ProcessedAllocations = Map.empty, AllocationReceipts = Map.empty, PendingAllocationCount = 0,
      ServiceFuelAccounts = (\<lambda>_. default_fuel_account), TotalServiceFuel = 0,
      WorkFuelSettlements = Map.empty, jam_events = []\<rparr>"

lemma genesis_protocol_same:
  "genesis_protocol_state es m = Ok t \<Longrightarrow> works_same m t \<and> queues_same m t \<and> allocs_same m t"
proof (induction es arbitrary: m)
  case (Cons e es)
  then have "\<exists>v. genesis_protocol_state es (m\<lparr>ProtocolState := (ProtocolState m)(fst e \<mapsto> v)\<rparr>) = Ok t"
    by (auto split: if_splits option.splits)
  then show ?case using Cons.IH by (force simp: same_defs)
qed simp

lemma genesis_fuel_same: "works_same m (genesis_fuel es n m) \<and> queues_same m (genesis_fuel es n m)
    \<and> allocs_same m (genesis_fuel es n m)"
proof (induction es n m rule: genesis_fuel.induct)
  case (2 service_id amount es tot m)
  then show ?case by (simp add: Let_def same_defs)
qed (simp add: same_defs)

lemma genesis_rounds:
  "genesis_workers E ws n active s = Ok (active', t) \<Longrightarrow>
     VotingRounds t = VotingRounds s \<and> RoundResults t = RoundResults s"
proof (induction ws arbitrary: n active s)
  case (Cons w ws)
  obtain owner key stake where w: "w = (owner, key, stake)" by (cases w)
  obtain c where "genesis_workers E ws (n + 1) (active @ [(n, stake)])
      ((insert_worker n \<lparr>w_owner = owner, w_session_key = key, w_active_stake = stake,
         w_effective_epoch = 0, w_suspended_until = 0\<rparr> (s\<lparr>balances := c\<rparr>))
       \<lparr>WorkerByAccount := (WorkerByAccount s)(owner \<mapsto> n)\<rparr>) = Ok (active', t)"
    using Cons.prems by (auto simp: w split: if_splits option.splits)
  from Cons.IH [OF this] show ?case by (simp add: insert_worker_def)
qed simp

lemma genesis_no_rounds:
  assumes "genesis_build E ws (empty_workers_state c) = Ok s"
  shows "VotingRounds s = Map.empty" "RoundResults s = Map.empty"
proof -
  obtain active t where "genesis_workers E ws 0 [] (empty_workers_state c) = Ok (active, t)"
    "VotingRounds s = VotingRounds t" "RoundResults s = RoundResults t"
    using assms by (auto simp: genesis_build_def res_simps Let_def split: if_splits option.splits)
  then show "VotingRounds s = Map.empty" "RoundResults s = Map.empty"
    using genesis_rounds by (fastforce simp: empty_workers_state_def)+
qed

lemma genesis_chain_inv:
  assumes "genesis_build (wenv M) ws (empty_workers_state c) = Ok s"
    "minijam_genesis G (empty_minijam_state s) = Ok m"
  shows "chain_inv M m" "wk m = s"
proof -
  let ?e = "empty_minijam_state s"
  obtain u v where u: "works_same ?e u" "queues_same ?e u" "allocs_same ?e u"
    and v: "genesis_protocol_state (gc_protocol_state G) u = Ok v" and m: "m = genesis_fuel (gc_service_fuel G) 0 v"
  proof -
    let ?a = "case gc_ingress_relayer G of None \<Rightarrow> ?e | Some a \<Rightarrow> ?e\<lparr>IngressRelayer := Some a\<rparr>"
    let ?b = "case gc_allocation_relayer G of Some a \<Rightarrow> ?a\<lparr>AllocationRelayer := Some a\<rparr>
       | None \<Rightarrow> (case gc_ingress_relayer G of None \<Rightarrow> ?a | Some a \<Rightarrow> ?a\<lparr>AllocationRelayer := Some a\<rparr>)"
    have "works_same ?e ?b" "queues_same ?e ?b" "allocs_same ?e ?b"
      by (auto simp: same_defs split: option.splits)
    moreover obtain v where "genesis_protocol_state (gc_protocol_state G) ?b = Ok v"
      "m = genesis_fuel (gc_service_fuel G) 0 v"
      using assms(2) by (auto simp: minijam_genesis_def Let_def bind_res_eq_Ok)
    ultimately show thesis using that by blast
  qed
  have same: "works_same ?e m" "queues_same ?e m" "allocs_same ?e m"
    using u genesis_protocol_same [OF v] genesis_fuel_same [of v "gc_service_fuel G" 0] m same_trans by metis+
  have wi: "workers_inv (wenv M) s" using genesis_workers_inv_build [OF assms(1)] .
  note empty = genesis_no_rounds [OF assms(1)]
  have "works_inv M ?e"
    by (simp add: works_inv_def work_at_def no_work_def empty empty_minijam_state_def)
  then have "jam_works_inv M ?e" using wi by (simp add: jam_works_inv_def empty_minijam_state_def)
  moreover have "queues_inv M ?e" "allocs_inv M ?e"
    by (simp_all add: queues_inv_def allocs_inv_def empty_minijam_state_def)
  ultimately show "chain_inv M m"
    using works_same_inv(1) [OF same(1), of M] queues_same_inv [OF same(2), of M] allocs_same_inv [OF same(3), of M]
    by (simp add: chain_inv_def)
  show "wk m = s" using same(1) by (simp add: works_same_def empty_minijam_state_def)
qed

section \<open>A concrete chain\<close>

text \<open>
  Two workers, one service, and an executor that consumes every report and confirms every
  allocation.  The hash is the identity and the codecs are the simplest that fit.
\<close>

definition ex_package :: bytes where "ex_package = [7]"

definition ex_item :: work_item where
  "ex_item = \<lparr>wi_service = 2, wi_code_hash = [8], wi_refine_gas_limit = 50, wi_accumulate_gas_limit = 50\<rparr>"

definition ex_report :: bytes where "ex_report = [5, 5]"

definition ex_projection :: report_projection where
  "ex_projection = \<lparr>rp_package_hash = ex_package, rp_context_hash = [3], rp_exports_root = [4], rp_result_count = 1,
     rp_services = [\<lparr>srp_service_id = 2, srp_code_hash = [8], srp_refine_gas_used = 20, srp_accumulate_gas = 30\<rparr>],
     rp_total_refine_gas = 20, rp_total_accumulate_gas = 30\<rparr>"

fun ex_confirmed :: "system_op list \<Rightarrow> state_change list" where
  "ex_confirmed [] = []"
| "ex_confirmed (op # ops) =
     (case op_command op of
        ApplyAllocation k _ _ \<Rightarrow>
          [\<lparr>ch_key = ALLOCATION_RECEIPT_PREFIX @ to_le_bytes 8 k, ch_operation = Upsert, ch_value = Some (replicate 5 0)\<rparr>]
      | _ \<Rightarrow> []) @ ex_confirmed ops"

definition ex_execute :: "execution_input \<Rightarrow> state_reader \<Rightarrow> (minijam_error, execution_output) outcome" where
  "ex_execute input rd =
     (let out = \<lparr>out_ordered_changes = ex_confirmed (in_system_ops input), out_consumed_reports = in_reports input,
        out_consumed_preimages = in_preimages input, out_consumed_system_ops = map op_request_id (in_system_ops input),
        out_input_hash = compute_input_hash (\<lambda>bs. bs) (\<lambda>op. [ucast (op_nonce op)]) input, out_header_hash = [1], out_accumulate_root = [2],
        out_gas_used = 10, out_receipt_hash = []\<rparr>
      in Ok (out\<lparr>out_receipt_hash := compute_receipt_hash (\<lambda>bs. bs) out\<rparr>))"

definition jam_ex_env :: "ledger minijam_env" where
  "jam_ex_env =
     \<lparr>wenv = ex_env, jam_ChainId = [1], WorkDepositAmount = 5, CandidateBondAmount = 4, CandidateRejectionSlash = 2,
      AcceptedSubmitterReward = 3, jam_RewardPool = [9], FuelEscrowAccount = [10], RefineGasPrice = 1,
      AccumulateGasPrice = 1, MaxPendingAllocations = 4, ReportSubmissionDeadline = 5, VoteWindow = 3,
      MaxCandidateRounds = 2, MaxPendingWorks = 4, MaxExecutionReports = 2, MaxExecutionGas = 100,
      MaxBundleBytes = 64, MaxServicesPerWork = 2, MaxPendingPreimages = 2, MaxPendingSystemOps = 2,
      jx_execute = ex_execute, jx_project_report = (\<lambda>_. Ok ex_projection),
      jx_validate_preimage = (\<lambda>bs rd. Ok \<lparr>pm_requester = 2, pm_blob_hash = bs, pm_blob_len = of_nat (length bs)\<rparr>),
      decode_work_package_prefix = (\<lambda>bs. Some (\<lparr>wp_items = [ex_item], wp_context = [3]\<rparr>, [])),
      decode_work_report_prefix = (\<lambda>bs. Some (\<lparr>wrep_package_hash = ex_package,
         wrep_results = [\<lparr>wres_service_id = 2, wres_refine_gas_used = 20, wres_accumulate_gas = 30\<rparr>]\<rparr>, [])),
      decode_min_memo_gas = (\<lambda>bs. Some 1),
      encode_allocation = (\<lambda>al. [ucast (al_allocation_id al), ucast (al_target_service al), ucast (al_amount al)]),
      decode_allocation_prefix = (\<lambda>bs. Some (\<lparr>al_allocation_id = ucast (bs ! 0), al_target_service = ucast (bs ! 1),
         al_amount = ucast (bs ! 2)\<rparr>, [])),
      encode_system_command = (\<lambda>_. []), encode_system_op = (\<lambda>op. [ucast (op_nonce op)]), encoded_changes_size = length,
      encode_account = (\<lambda>a. a), encode_block_hash = (\<lambda>h. h), encode_state_root_input = (\<lambda>d h. d @ h),
      encode_entropy_input = (\<lambda>d n. d), service_storage_key = (\<lambda>s k. k), preimage_state_key = (\<lambda>s h. h),
      alloc_iter_order = (\<lambda>ks. ks)\<rparr>"

definition ex_relayer :: account where "ex_relayer = [5]"

definition jam_ex_genesis :: "ledger minijam_state" where
  "jam_ex_genesis = the_ok (minijam_genesis
     \<lparr>gc_protocol_state = [(service_info_state_key 2, [1, 2, 3])], gc_service_fuel = [],
      gc_ingress_relayer = Some ex_relayer, gc_allocation_relayer = None\<rparr>
     (empty_minijam_state ex_genesis))"

definition ex_content :: content_ref where
  "ex_content = \<lparr>cr_cid_v1 = [1], cr_content_hash = [1], cr_size = 3\<rparr>"

definition jam_ex_submitted :: "ledger minijam_state" where
  "jam_ex_submitted = the_ok (submit_work jam_ex_env (SignedOrigin ex_relayer) ex_package ex_content jam_ex_genesis)"

definition ex_envelope :: report_envelope where
  "ex_envelope = \<lparr>env_protocol_version = PROTOCOL_VERSION_V1, env_chain_id = [1], env_work_id = 0, env_assignment_round = 0,
     env_canonical_report = ex_report, env_canonical_report_hash = ex_report,
     env_projected_metadata = \<lparr>rm_package_hash = ex_package, rm_context_hash = [3], rm_exports_root = [4], rm_accumulate_gas = 30\<rparr>,
     env_bulletin_evidence = NoExternalProofV1 None,
     env_signatures = []\<rparr>"

definition jam_ex_candidate :: "ledger minijam_state" where
  "jam_ex_candidate = the_ok (submit_candidate jam_ex_env (SignedOrigin [1]) ex_envelope jam_ex_submitted)"

text \<open>
  A state with an accepted work that is due and a pending allocation, and the state after its
  block transition.
\<close>

definition ex_work :: work_record where
  "ex_work = \<lparr>wr_owner = ex_relayer, wr_package_hash = ex_package, wr_canonical_work_package = ex_package,
     wr_bundle_ref = ex_content, wr_fuel_reservation = [], wr_round = 0, wr_status = StAccepted,
     wr_candidate_deadline = 5\<rparr>"

definition ex_alloc :: allocation where
  "ex_alloc = \<lparr>al_allocation_id = 6, al_target_service = 2, al_amount = 9\<rparr>"

definition jam_ex_ready :: "ledger minijam_state" where
  "jam_ex_ready = (empty_minijam_state ex_genesis)
     \<lparr>IngressRelayer := Some ex_relayer, AllocationRelayer := Some ex_relayer, NextWorkId := 1,
      Works := [0 \<mapsto> ex_work], WorkByPackageHash := [ex_package \<mapsto> 0],
      Candidates := [(0, 0) \<mapsto> \<lparr>cd_submitter = [1], cd_envelope = ex_envelope, cd_vote_deadline = 3\<rparr>],
      ExecutionQueue := [\<lparr>ei_work_id = 0, ei_execute_at = 1\<rparr>],
      ProtocolState := [service_info_state_key 2 \<mapsto> [1, 2, 3]],
      PendingAllocations := [(6, \<lparr>pa_submitter = ex_relayer, pa_allocation = ex_alloc\<rparr>)],
      AllocationReceipts := [6 \<mapsto> \<lparr>ar_allocation = ex_alloc, ar_status = AllocationPending\<rparr>],
      PendingAllocationCount := 1\<rparr>"

definition jam_ex_imported :: "ledger minijam_state" where
  "jam_ex_imported = the_ok (minijam_on_finalize jam_ex_env 1 jam_ex_ready)"

text \<open>The large bounds are compared as integers when a run is evaluated.\<close>

lemma blob_code [code_unfold]:
  "try_bounded BLOB_BOUND xs = (if int (length xs) \<le> 1048576 then Some xs else None)"
  by (simp add: try_bounded_def BLOB_BOUND_def)

lemma delta_code [code_unfold]: "MAX_DELTA_BYTES < n \<longleftrightarrow> 4194304 < int n"
  by (simp add: MAX_DELTA_BYTES_def)

lemma jam_ex_genesis_ok: "is_ok (minijam_genesis
     \<lparr>gc_protocol_state = [(service_info_state_key 2, [1, 2, 3])], gc_service_fuel = [],
      gc_ingress_relayer = Some ex_relayer, gc_allocation_relayer = None\<rparr>
     (empty_minijam_state ex_genesis))"
  by code_simp

lemma jam_ex_submitted_ok:
  "is_ok (submit_work jam_ex_env (SignedOrigin ex_relayer) ex_package ex_content jam_ex_genesis)"
  by code_simp

lemma jam_ex_candidate_ok: "is_ok (submit_candidate jam_ex_env (SignedOrigin [1]) ex_envelope jam_ex_submitted)"
  by code_simp

definition ex_due :: "execution_item list" where "ex_due = [\<lparr>ei_work_id = 0, ei_execute_at = 1\<rparr>]"

definition jam_input :: execution_input where
  "jam_input = the_ok (stf_input jam_ex_env 1 ex_due jam_ex_ready)"

definition jam_output :: execution_output where
  "jam_output = the_ok (ex_execute jam_input (frame_state jam_ex_ready))"

lemma jam_changes: "out_ordered_changes jam_output = [\<lparr>ch_key = ALLOCATION_RECEIPT_PREFIX @ to_le_bytes 8 (6 :: u64), ch_operation = Upsert, ch_value = Some (replicate 5 0)\<rparr>]"
  by code_simp

lemma jam_input_ok: "stf_input jam_ex_env 1 ex_due jam_ex_ready = Ok jam_input"
  unfolding jam_input_def by (rule is_ok_eq, code_simp)

lemma jam_output_ok: "jx_execute jam_ex_env jam_input rd = Ok jam_output"
  by (simp add: jam_ex_env_def jam_output_def ex_execute_def Let_def)

lemma ex_validated: "validate_execution_output (jam_hash jam_ex_env) (encode_system_op jam_ex_env) (encoded_changes_size jam_ex_env)
     jam_input jam_output (frame_state jam_ex_ready) = Ok (out_ordered_changes jam_output)"
proof -
  have "is_ok (validate_execution_output (jam_hash jam_ex_env) (encode_system_op jam_ex_env) (encoded_changes_size jam_ex_env)
     jam_input jam_output (frame_state jam_ex_ready))"
    by code_simp
  then show ?thesis using is_ok_eq execution_output_changes(1) by metis
qed

lemma ex_consumed: "out_consumed_reports jam_output = [ex_report]" "out_consumed_preimages jam_output = []"
  by code_simp+

lemma ex_fields:
  "PendingSystemOps jam_ex_ready = []" "PendingAllocations jam_ex_ready = [(6, \<lparr>pa_submitter = ex_relayer, pa_allocation = ex_alloc\<rparr>)]"
  "Works jam_ex_ready = [0 \<mapsto> ex_work]" "ProcessedAllocations jam_ex_ready = Map.empty"
  "Candidates jam_ex_ready = [(0, 0) \<mapsto> \<lparr>cd_submitter = [1], cd_envelope = ex_envelope, cd_vote_deadline = 3\<rparr>]"
  "ExecutionQueue jam_ex_ready = ex_due" "ReportImportPaused jam_ex_ready = False" "wr_round ex_work = 0"
  "wr_status ex_work = StAccepted" "env_canonical_report_hash ex_envelope = ex_report"
  "al_allocation_id ex_alloc = 6"
  by (simp_all add: jam_ex_ready_def empty_minijam_state_def ex_work_def ex_envelope_def ex_alloc_def ex_due_def)

lemma ex_delta: "apply_delta (out_ordered_changes jam_output) jam_ex_ready = Ok (jam_ex_ready\<lparr>ProtocolState :=
     (ProtocolState jam_ex_ready)(allocation_receipt_state_key jam_ex_env 6 \<mapsto> replicate 5 0)\<rparr>)"
  by (simp add: jam_changes apply_change_def allocation_receipt_state_key_def jam_ex_env_def)

lemma ex_allocated: "consume_successful_allocations jam_ex_env (out_ordered_changes jam_output) (jam_ex_ready\<lparr>ProtocolState := st\<rparr>)
    = Ok (mark_processed \<lparr>pa_submitter = ex_relayer, pa_allocation = ex_alloc\<rparr> 6 (jam_ex_ready\<lparr>ProtocolState := st\<rparr>))"
proof -
  have "get_pending_allocations jam_ex_env (jam_ex_ready\<lparr>ProtocolState := st\<rparr>) = [\<lparr>pa_submitter = ex_relayer, pa_allocation = ex_alloc\<rparr>]"
    by (simp add: get_pending_allocations_def ex_fields jam_ex_env_def)
  moreover have "find (\<lambda>c. ch_key c = allocation_receipt_state_key jam_ex_env 6) (out_ordered_changes jam_output)
      = Some \<lparr>ch_key = allocation_receipt_state_key jam_ex_env 6, ch_operation = Upsert, ch_value = Some (replicate 5 0)\<rparr>"
    by (simp add: jam_changes allocation_receipt_state_key_def jam_ex_env_def)
  ultimately show ?thesis
    by (simp add: consume_successful_allocations_def ex_fields consume_allocation_after_transition_def)
qed

lemma consume_no_ops: "PendingSystemOps m = [] \<Longrightarrow> consume_system_ops hs m = m"
  by (simp add: consume_system_ops_def swap_retain.simps [of _ _ 0 "[]"])

lemma ex_stf: "\<exists>su t. execute_block_stf_inner jam_ex_env 1 ex_due jam_ex_ready = Ok (su, t)
   \<and> Works t = [0 \<mapsto> ex_work\<lparr>wr_status := StImported\<rparr>] \<and> ProcessedAllocations t = [6 \<mapsto> ()]"
proof -
  let ?m = "jam_ex_ready\<lparr>ProtocolState := (ProtocolState jam_ex_ready)(allocation_receipt_state_key jam_ex_env 6 \<mapsto> replicate 5 0)\<rparr>"
  let ?a = "mark_processed \<lparr>pa_submitter = ex_relayer, pa_allocation = ex_alloc\<rparr> 6 ?m"
  have "consume_system_ops (out_consumed_system_ops jam_output) (consume_preimages jam_ex_env (out_consumed_preimages jam_output) ?a) = ?a"
    by (simp add: ex_consumed consume_preimages_def consume_no_ops ex_fields mark_processed_def)
  then show ?thesis
    unfolding execute_block_stf_inner_def Let_def jam_input_ok bind_res.simps jam_output_ok map_err.simps ex_validated
      ex_delta ex_allocated
    by (simp add: ex_consumed candidate_for_work_def ex_due_def mark_processed_def put_work_def ex_fields)
qed

lemma jam_ex_imported_ok:
  "minijam_on_finalize jam_ex_env 1 jam_ex_ready = Ok jam_ex_imported"
  "Works jam_ex_imported = [0 \<mapsto> ex_work\<lparr>wr_status := StImported\<rparr>]" "ProcessedAllocations jam_ex_imported = [6 \<mapsto> ()]"
proof -
  obtain su t where "execute_block_stf_inner jam_ex_env 1 ex_due jam_ex_ready = Ok (su, t)"
    and t: "Works t = [0 \<mapsto> ex_work\<lparr>wr_status := StImported\<rparr>]" "ProcessedAllocations t = [6 \<mapsto> ()]"
    using ex_stf by blast
  moreover have "split_queue False 1 (unat (MaxExecutionReports jam_ex_env)) ex_due [] [] = (ex_due, [])"
    by (simp add: ex_due_def jam_ex_env_def)
  moreover have "sort_key f ex_due = ex_due" for f :: "execution_item \<Rightarrow> work_id \<times> hash"
    by (simp add: ex_due_def)
  ultimately have "minijam_on_finalize jam_ex_env 1 jam_ex_ready = Ok (jam_event (BlockStfExecuted 1 (bs_report_count su)
      (bs_preimage_count su) (bs_system_op_count su) (bs_receipt_hash su)) (t\<lparr>ExecutionQueue := []\<rparr>))"
    by (simp add: minijam_on_finalize_def execute_block_stf_def ex_fields try_bounded_def)
  then show "minijam_on_finalize jam_ex_env 1 jam_ex_ready = Ok jam_ex_imported"
    "Works jam_ex_imported = [0 \<mapsto> ex_work\<lparr>wr_status := StImported\<rparr>]" "ProcessedAllocations jam_ex_imported = [6 \<mapsto> ()]"
    by (simp_all add: jam_ex_imported_def t)
qed

lemma jam_ex_env_wenv [simp]: "wenv jam_ex_env = ex_env"
  by (simp add: jam_ex_env_def)

lemma ex_genesis_inv: "workers_inv ex_env ex_genesis"
  using genesis_workers_inv_build [OF is_ok_eq [OF ex_genesis_ok]] by (simp add: ex_genesis_def)

lemma ex_genesis_rounds: "VotingRounds ex_genesis = Map.empty" "RoundResults ex_genesis = Map.empty"
  using genesis_no_rounds [OF is_ok_eq [OF ex_genesis_ok]] unfolding ex_genesis_def by auto

lemma ex_amount: "saturated_u64 9 = 9"
  by code_simp

lemma jam_ex_ready_inv: "chain_live jam_ex_env jam_ex_ready"
proof -
  let ?m = jam_ex_ready
  have "works_inv jam_ex_env ?m"
    by (auto simp: works_inv_def work_at_def work_ok_def no_work_def jam_ex_ready_def empty_minijam_state_def ex_work_def
        open_status_def begun_def ex_genesis_rounds jam_ex_env_def)
  moreover have "queues_inv jam_ex_env ?m"
    by (simp add: queues_inv_def jam_ex_ready_def empty_minijam_state_def)
  moreover have "allocs_inv jam_ex_env ?m"
    by (auto simp: allocs_inv_def alloc_ok_def jam_ex_ready_def empty_minijam_state_def ex_alloc_def jam_ex_env_def
        ex_amount)
  moreover have "wk ?m = ex_genesis" by (simp add: jam_ex_ready_def empty_minijam_state_def)
  ultimately show ?thesis
    using ex_genesis_inv ex_iter_law by (simp add: chain_live_def chain_inv_def jam_works_inv_def)
qed

lemma jam_ex_genesis_inv: "chain_live jam_ex_env jam_ex_genesis"
  using genesis_chain_inv(1) [of jam_ex_env] is_ok_eq [OF ex_genesis_ok] is_ok_eq [OF jam_ex_genesis_ok] ex_iter_law
  unfolding ex_genesis_def jam_ex_genesis_def chain_live_def jam_ex_env_wenv by blast

end
