(* ===== verification/MiniJam_Props.thy ===== *)
theory MiniJam_Props
  imports MiniJam_Run
begin

text \<open>
  The properties of \<open>pallets/minijam\<close> over the workers pallet: what holds of every reachable
  chain, the life of a work, the block transition, who may call what, and what bounds the hooks.
\<close>

section \<open>The chain\<close>

lemma ex_submit_step: "minijam_step jam_ex_env jam_ex_genesis jam_ex_submitted"
proof (rule ms_call)
  show "minijam_dispatch jam_ex_env (SignedOrigin ex_relayer) (CallSubmitWork ex_package ex_content) jam_ex_genesis
      = Ok jam_ex_submitted"
    using is_ok_eq [OF jam_ex_submitted_ok] by (simp add: jam_ex_submitted_def)
qed

lemma ex_import_step: "minijam_step jam_ex_env jam_ex_ready jam_ex_imported"
  using jam_ex_imported_ok(1) by (rule ms_finalize)

text \<open>
  C1. From any genesis, whatever calls and hooks of the two pallets run and in whatever order,
  the invariant of the chain holds: work records agree with the pending works, candidates, voting
  rounds, execution queue and receipts; queues agree with their key sets and bounds; allocations
  are priced, counted and never both pending and processed; and the workers pallet's own
  invariant holds.
\<close>

theorem chain_inv_reachable:
  assumes "genesis_build (wenv M) ws (empty_workers_state c) = Ok s"
    and "minijam_genesis G (empty_minijam_state s) = Ok m"
    and "iter_law (wenv M)"
    and "(minijam_step M)\<^sup>*\<^sup>* m t"
  shows "chain_inv M t"
proof -
  have "chain_live M m" using genesis_chain_inv [OF assms(1,2)] assms(3) by (simp add: chain_live_def)
  with assms(4) have "chain_live M t" by (rule jam.steps_inv)
  then show ?thesis by (simp add: chain_live_def)
qed

theorem chain_inv_reachable_witness:
  "chain_inv jam_ex_env jam_ex_submitted \<and> Works jam_ex_submitted 0 \<noteq> None"
proof
  note g = is_ok_eq [OF ex_genesis_ok, folded ex_genesis_def] and j = is_ok_eq [OF jam_ex_genesis_ok, folded jam_ex_genesis_def]
  show "chain_inv jam_ex_env jam_ex_submitted"
    by (rule chain_inv_reachable [OF g [folded jam_ex_env_wenv] j]) (use ex_iter_law ex_submit_step in auto)
  show "Works jam_ex_submitted 0 \<noteq> None" by code_simp
qed

text \<open>
  C6. The MiniJAM pallet uses the workers pallet only through its interface: a run of the chain
  is, seen from the workers pallet, a run of that pallet alone.
\<close>

theorem minijam_refines_workers:
  assumes "chain_live M m" "(minijam_step M)\<^sup>*\<^sup>* m t"
  shows "(workers_step (wenv M))\<^sup>*\<^sup>* (wk m) (wk t) \<and> workers_live (wenv M) (wk t)"
proof
  show "(workers_step (wenv M))\<^sup>*\<^sup>* (wk m) (wk t)" using jam_run(1) [OF assms(2,1)] .
  have "chain_live M t" using jam.steps_inv [OF assms(2,1)] .
  then show "workers_live (wenv M) (wk t)"
    by (simp add: chain_live_def workers_live_def chain_inv_def jam_works_inv_def)
qed

theorem minijam_refines_workers_witness:
  "(workers_step ex_env)\<^sup>*\<^sup>* (wk jam_ex_genesis) (wk jam_ex_submitted)
   \<and> Assignments (wk jam_ex_submitted) (0, 0) = Some [0, 1]"
proof
  show "(workers_step ex_env)\<^sup>*\<^sup>* (wk jam_ex_genesis) (wk jam_ex_submitted)"
    using minijam_refines_workers [OF jam_ex_genesis_inv r_into_rtranclp [of "minijam_step jam_ex_env", OF ex_submit_step]] by simp
  show "Assignments (wk jam_ex_submitted) (0, 0) = Some [0, 1]" by code_simp
qed

text \<open>
  C3. The life of a work.  In a run of the chain a work goes through the moves of the abstract
  machine (workers found, candidate, vote, acceptance, import, next round, failure) and no others;
  it makes at most \<open>work_left\<close> of them, three for every round it has left and one for the import;
  its package, owner and bundle never change; its round never goes back; and once imported or failed
  its record is final.
\<close>

theorem work_lifecycle:
  assumes "chain_live M m" "(minijam_step M)\<^sup>*\<^sup>* m t" "Works m i = Some w"
  shows "\<exists>n w'. Works t i = Some w' \<and> (work_moves M ^^ n) (Some w) (Some w')
     \<and> n + work_left M w' \<le> work_left M w
     \<and> wr_package_hash w' = wr_package_hash w \<and> wr_owner w' = wr_owner w \<and> wr_bundle_ref w' = wr_bundle_ref w
     \<and> wr_canonical_work_package w' = wr_canonical_work_package w \<and> wr_round w \<le> wr_round w'
     \<and> (wr_status w = StImported \<or> wr_status w = StFailed \<longrightarrow> w' = w)"
proof -
  obtain n where n: "(work_moves M ^^ n) (Works m i) (Works t i)"
    using jam_run(2) [OF assms(2,1), of i] by (auto simp: rtranclp_power)
  with work_moves_run [of n M w "Works t i"] assms(3) show ?thesis by metis
qed

theorem work_lifecycle_witness:
  "\<exists>n w'. Works jam_ex_imported 0 = Some w' \<and> wr_status w' = StImported
     \<and> (work_moves jam_ex_env ^^ n) (Some ex_work) (Some w') \<and> n \<le> 4"
proof -
  have "Works jam_ex_ready 0 = Some ex_work" by (simp add: ex_fields)
  from work_lifecycle [OF jam_ex_ready_inv r_into_rtranclp [of "minijam_step jam_ex_env", OF ex_import_step] this]
  obtain n w' where "Works jam_ex_imported 0 = Some w'" "(work_moves jam_ex_env ^^ n) (Some ex_work) (Some w')"
    "n + work_left jam_ex_env w' \<le> work_left jam_ex_env ex_work" by blast
  moreover have "work_left jam_ex_env ex_work = 4"
    by (simp add: work_left_def ex_work_def jam_ex_env_def)
  ultimately show ?thesis using jam_ex_imported_ok(2) by auto
qed



section \<open>The block transition\<close>

lemma stf_input_fields:
  "stf_input M block due m = Ok input \<Longrightarrow> in_slot input = block \<and> in_max_gas input = MaxExecutionGas M"
  by (auto simp: stf_input_def res_simps)

text \<open>
  What a block transition may have done: committed a validated execution, or changed nothing of
  the protocol state and the works.
\<close>

definition stf_commit ::
    "'c minijam_env \<Rightarrow> block_number \<Rightarrow> execution_input \<Rightarrow> execution_output
     \<Rightarrow> 'c minijam_state \<Rightarrow> 'c minijam_state \<Rightarrow> bool" where
  "stf_commit M block input out m t \<longleftrightarrow>
     jx_execute M input (frame_state m) = Ok out
     \<and> in_slot input = block \<and> out_gas_used out \<le> MaxExecutionGas M
     \<and> out_input_hash out = compute_input_hash (jam_hash M) (encode_system_op M) input
     \<and> delta_ok (ProtocolState m) (out_ordered_changes out)
     \<and> ProtocolState t = overlay (out_ordered_changes out) (ProtocolState m)
     \<and> LastExecutionReceipt t = Some (compute_receipt_hash (jam_hash M) out)
     \<and> (\<forall>i. (Works t i = Works m i \<and> ExecutionReceipts t i = ExecutionReceipts m i)
         \<or> (\<exists>w e. Works m i = Some w \<and> wr_status w = StAccepted \<and> e \<in> set (ExecutionQueue m)
              \<and> ei_work_id e = i \<and> ei_execute_at e \<le> block \<and> \<not> ReportImportPaused m
              \<and> Works t i = Some (w\<lparr>wr_status := StImported\<rparr>)
              \<and> ExecutionReceipts t i = Some (compute_receipt_hash (jam_hash M) out)))"

lemma stf_commitI:
  assumes "execute_block_stf_inner M block due m = Ok (summary, u)" "queues_inv M m" "allocs_inv M m"
    and "distinct (map ei_work_id due)" "set due \<subseteq> set (ExecutionQueue m)"
    and "\<forall>e\<in>set due. \<not> ReportImportPaused m \<and> ei_execute_at e \<le> block"
    and t: "ProtocolState t = ProtocolState u" "LastExecutionReceipt t = LastExecutionReceipt u"
      "Works t = Works u" "ExecutionReceipts t = ExecutionReceipts u"
  shows "\<exists>input out. stf_commit M block input out m t"
proof -
  obtain input out where c: "stf_input M block due m = Ok input" "jx_execute M input (frame_state m) = Ok out"
    "out_gas_used out \<le> in_max_gas input"
    "out_input_hash out = compute_input_hash (jam_hash M) (encode_system_op M) input"
    "compute_receipt_hash (jam_hash M) out = out_receipt_hash out"
    and im: "imported (out_consumed_reports out) (out_receipt_hash out) (ei_work_id ` set due) m u"
    and st': "ProtocolState u = overlay (out_ordered_changes out) (ProtocolState m)"
    "delta_ok (ProtocolState m) (out_ordered_changes out)" "LastExecutionReceipt u = Some (out_receipt_hash out)"
    and due: "\<forall>item\<in>set due. \<exists>w cd. Works m (ei_work_id item) = Some w \<and> wr_status w = StAccepted
       \<and> candidate_for_work m (ei_work_id item) = Some (wr_round w, cd)"
    by (rule stf_committed [OF assms(1-4)])
  have "(Works t i = Works m i \<and> ExecutionReceipts t i = ExecutionReceipts m i)
       \<or> (\<exists>w e. Works m i = Some w \<and> wr_status w = StAccepted \<and> e \<in> set (ExecutionQueue m)
            \<and> ei_work_id e = i \<and> ei_execute_at e \<le> block \<and> \<not> ReportImportPaused m
            \<and> Works t i = Some (w\<lparr>wr_status := StImported\<rparr>)
            \<and> ExecutionReceipts t i = Some (compute_receipt_hash (jam_hash M) out))" for i
  proof (cases "Works t i = Works m i \<and> ExecutionReceipts t i = ExecutionReceipts m i")
    case False
    then have i: "i \<in> ei_work_id ` set due" "Works u i = map_option (\<lambda>w. w\<lparr>wr_status := StImported\<rparr>) (Works m i)"
      "ExecutionReceipts u i = Some (out_receipt_hash out)"
      using im unfolding imported_def t by metis+
    then obtain e w where "e \<in> set due" "ei_work_id e = i" "Works m i = Some w" "wr_status w = StAccepted"
      using due by auto
    then show ?thesis
      using i(2,3) assms(5,6) c(5) by (auto simp: t)
  qed simp
  then have "stf_commit M block input out m t"
    using c st' stf_input_fields [OF c(1)] by (simp add: stf_commit_def t)
  then show ?thesis by blast
qed

text \<open>
  C2. A block transition commits or changes nothing.  It either applies the delta of an execution
  that ran on the current protocol state, stayed within the gas limit, is bound to its input by
  the input hash and passed validation, marks as imported (with the receipt of that execution)
  only accepted works that were due, and records the receipt; or it leaves the protocol state, the
  works, the queue of accepted works and the allocations as they were.
\<close>

theorem stf_commits_or_keeps:
  assumes "chain_inv M m" "execute_block_stf M block m = Ok t"
  shows "(\<exists>input out. stf_commit M block input out m t)
    \<or> (ProtocolState t = ProtocolState m \<and> works_same m t \<and> allocs_same m t)"
proof -
  have inv: "works_inv M m" "queues_inv M m" "allocs_inv M m"
    using assms(1) by (simp_all add: chain_inv_def jam_works_inv_def)
  obtain due ret where sp: "split_queue (ReportImportPaused m) block (unat (MaxExecutionReports M))
      (ExecutionQueue m) [] [] = (due, ret)"
    by fastforce
  define due' where "due' = sort_key (due_order m) due"
  note ds = due_split [OF sp inv(1) due'_def]
  note run = assms(2) [unfolded execute_block_stf_def sp Let_def prod.case, folded due'_def]
  show ?thesis
  proof (cases "execute_block_stf_inner M block due' m")
    case (Ok st)
    obtain summary u where st: "st = (summary, u)" by (cases st)
    have "ProtocolState t = ProtocolState u" "LastExecutionReceipt t = LastExecutionReceipt u"
      "Works t = Works u" "ExecutionReceipts t = ExecutionReceipts u"
      using run Ok st by (auto simp: jam_event_def split: option.splits)
    then show ?thesis using stf_commitI [OF Ok [unfolded st] inv(2,3) ds(1) _ ds(6), of t] ds(5) by blast
  next
    case (Err e)
    then show ?thesis
      using run quarantine_pending_system_ops_inv [OF inv(2)] quarantine_pending_preimages_inv [OF inv(2)]
      by (cases e) (auto simp: same_defs)
  qed (use run in simp)
qed

theorem stf_commits_or_keeps_witness:
  "chain_inv jam_ex_env jam_ex_ready \<and> execute_block_stf jam_ex_env 1 jam_ex_ready = Ok jam_ex_imported
   \<and> (\<exists>input out. stf_commit jam_ex_env 1 input out jam_ex_ready jam_ex_imported)"
proof -
  have c: "chain_inv jam_ex_env jam_ex_ready" using jam_ex_ready_inv by (simp add: chain_live_def)
  have e: "execute_block_stf jam_ex_env 1 jam_ex_ready = Ok jam_ex_imported"
    using jam_ex_imported_ok(1) by (simp add: minijam_on_finalize_def)
  have "\<not> works_same jam_ex_ready jam_ex_imported"
    by (simp add: works_same_def jam_ex_imported_ok ex_fields fun_eq_iff ex_work_def)
  then show ?thesis using stf_commits_or_keeps [OF c e] c e by blast
qed

section \<open>Calls\<close>

text \<open>Who may make a call: \<open>None\<close>, or the error that refuses the origin.\<close>

definition ingress_refusal :: "'c minijam_state \<Rightarrow> account \<Rightarrow> jam_error dispatch_error option" where
  "ingress_refusal m who =
     (case IngressRelayer m of
        None \<Rightarrow> Some (ModuleError IngressRelayerNotConfigured)
      | Some a \<Rightarrow> if who = a then None else Some (ModuleError UnauthorizedIngress))"

fun call_refusal :: "'c minijam_state \<Rightarrow> origin \<Rightarrow> minijam_call \<Rightarrow> jam_error dispatch_error option" where
  "call_refusal m (SignedOrigin who) call =
     (case call of
        CallSubmitWork _ _ \<Rightarrow> ingress_refusal m who
      | CallSubmitPreimage _ \<Rightarrow> ingress_refusal m who
      | CallSubmitSystemOp _ \<Rightarrow> ingress_refusal m who
      | CallSubmitAllocation _ \<Rightarrow>
          (case allocation_relayer_account m of
             None \<Rightarrow> Some (ModuleError AllocationRelayerNotConfigured)
           | Some a \<Rightarrow> if who = a then None else Some (ModuleError UnauthorizedAllocation))
      | CallSubmitCandidate _ \<Rightarrow> None
      | CallFundService _ _ \<Rightarrow> None
      | _ \<Rightarrow> Some BadOrigin)"
| "call_refusal m RootOrigin call =
     (case call of
        CallPauseExecution _ \<Rightarrow> None | CallQuarantinePending \<Rightarrow> None | CallDropQuarantined _ \<Rightarrow> None
      | CallRetryQuarantined _ \<Rightarrow> None | CallClearQuarantined \<Rightarrow> None | CallSetIngressRelayer _ \<Rightarrow> None
      | CallSetAllocationRelayer _ \<Rightarrow> None | _ \<Rightarrow> Some BadOrigin)"
| "call_refusal m NoneOrigin call = Some BadOrigin"

text \<open>
  C18. Every call checks its origin first.  Works, preimages and system operations are taken from
  the configured ingress relayer only, allocations from the allocation relayer (the ingress
  relayer when none is set), candidates and funding from any signed account, and the
  administrative calls from root; any other origin gets the matching error, whatever the
  arguments and the rest of the state.
\<close>

theorem call_refused:
  assumes "call_refusal m origin call = Some e"
  shows "minijam_dispatch M origin call m = Err e"
  using assms
  by (cases call; cases origin)
    (auto simp: submit_work_def submit_candidate_def pause_execution_def quarantine_pending_def submit_preimage_def
      submit_system_op_def fund_service_def Let_def drop_quarantined_system_op_def retry_quarantined_system_op_def
      clear_quarantined_system_ops_def set_ingress_relayer_def submit_allocation_def set_allocation_relayer_def
      ingress_refusal_def ensure_ingress_relayer_def ensure_allocation_relayer_def ensure_signed_def ensure_root_def
      split: option.splits if_splits)

theorem call_refused_witness:
  "minijam_dispatch jam_ex_env (SignedOrigin [8]) (CallSubmitWork ex_package ex_content) jam_ex_ready
    = Err (ModuleError UnauthorizedIngress)"
  by (rule call_refused) (simp add: ingress_refusal_def jam_ex_ready_def empty_minijam_state_def ex_relayer_def)

text \<open>
  C37. A work that is submitted is found again.  After \<open>submit_work\<close> and any further run of the
  chain, looking the work up by the hash of its package gives the package, bundle and owner that
  were submitted.
\<close>

theorem submitted_work_found:
  assumes "chain_live M m" "submit_work M (SignedOrigin who) canonical ref m = Ok t"
    and "(minijam_step M)\<^sup>*\<^sup>* t u"
  shows "\<exists>w. get_work_by_package_hash u (jam_hash M canonical) = Some w
     \<and> wr_canonical_work_package w = canonical \<and> wr_bundle_ref w = ref \<and> wr_owner w = who
     \<and> get_work_bundle_ref u (NextWorkId m) = Some ref"
proof -
  let ?i = "NextWorkId m"
  have step: "minijam_step M m t"
    using assms(2) by (intro ms_call [where call = "CallSubmitWork canonical ref" and origin = "SignedOrigin who"]) simp
  have live: "chain_live M t" using jam.step_inv [OF step assms(1)] .
  have "WorkByPackageHash t (jam_hash M canonical) = Some ?i
     \<and> (\<exists>w. Works t ?i = Some w \<and> wr_canonical_work_package w = canonical \<and> wr_bundle_ref w = ref \<and> wr_owner w = who)"
    using assms(2)
  proof (rule submit_work_Ok)
    fix owner c m1 m2
    assume o: "SignedOrigin who = SignedOrigin owner"
      and m1: "m1 = (put_work ?i
              \<lparr>wr_owner = owner, wr_package_hash = jam_hash M canonical, wr_canonical_work_package = canonical,
               wr_bundle_ref = ref, wr_fuel_reservation = [], wr_round = 0,
               wr_status = StInsufficientWorkers, wr_candidate_deadline = 0\<rparr>
              (put_balances c (m\<lparr>PendingWorks := PendingWorks m @ [?i]\<rparr>)))
            \<lparr>WorkByPackageHash := (WorkByPackageHash m)(jam_hash M canonical \<mapsto> ?i), NextWorkId := ?i + 1\<rparr>"
      and pr: "prepare_round M ?i m1 = Ok m2"
      and t: "\<exists>st. t = jam_event (WorkSubmitted ?i owner (jam_hash M canonical) ref st) m2"
    from pr have "WorkByPackageHash m2 = WorkByPackageHash m1
       \<and> (\<exists>st d. Works m2 ?i = Some ((the (Works m1 ?i))\<lparr>wr_status := st, wr_candidate_deadline := d\<rparr>))"
    proof (rule prepare_round_Ok, goal_cases)
      case (1 w ws s)
      then show ?case by (auto simp: put_work_def)
    next
      case (2 w e)
      then show ?case by (auto simp: put_work_def intro!: exI [of _ "wr_candidate_deadline w"])
    qed
    then show ?thesis using t o by (auto simp: m1 put_work_def)
  qed
  then obtain w where h: "WorkByPackageHash t (jam_hash M canonical) = Some ?i" and w: "Works t ?i = Some w"
    "wr_canonical_work_package w = canonical" "wr_bundle_ref w = ref" "wr_owner w = who"
    by blast
  have "WorkByPackageHash u (jam_hash M canonical) = Some ?i"
    using packages.steps_get [OF assms(3) live h] .
  moreover obtain n where "(work_moves M ^^ n) (Some w) (Works u ?i)"
    using jam_run(2) [OF assms(3) live, of ?i] w(1) by (auto simp: rtranclp_power)
  then obtain w' where "Works u ?i = Some w'" "wr_canonical_work_package w' = canonical" "wr_bundle_ref w' = ref" "wr_owner w' = who"
    using work_moves_run w by metis
  ultimately show ?thesis
    by (simp add: get_work_by_package_hash_def get_work_bundle_ref_def)
qed

theorem submitted_work_found_witness:
  "\<exists>w. get_work_by_package_hash jam_ex_submitted ex_package = Some w
     \<and> wr_canonical_work_package w = ex_package \<and> wr_bundle_ref w = ex_content \<and> wr_owner w = ex_relayer"
proof -
  have h: "jam_hash jam_ex_env ex_package = ex_package" by (simp add: jam_ex_env_def ex_env_def)
  have "submit_work jam_ex_env (SignedOrigin ex_relayer) ex_package ex_content jam_ex_genesis = Ok jam_ex_submitted"
    using is_ok_eq [OF jam_ex_submitted_ok] by (simp add: jam_ex_submitted_def)
  from submitted_work_found [OF jam_ex_genesis_inv this rtranclp.rtrancl_refl] show ?thesis
    unfolding h by blast
qed

text \<open>Acceptance of a candidate report.\<close>

lemma check_results_Ok:
  "check_results ps = Ok () \<longleftrightarrow> (\<forall>(item, r)\<in>set ps. srp_service_id r = wi_service item \<and> srp_code_hash r = wi_code_hash item
     \<and> srp_refine_gas_used r \<le> wi_refine_gas_limit item \<and> srp_accumulate_gas r \<le> wi_accumulate_gas_limit item)"
  by (induction ps) (auto simp: res_simps)

text \<open>A projected report fits its work: package, context and gas.\<close>

definition report_fits :: "'c minijam_env \<Rightarrow> work_record \<Rightarrow> report_envelope \<Rightarrow> report_projection \<Rightarrow> bool" where
  "report_fits M w env p \<longleftrightarrow>
     rp_package_hash p = wr_package_hash w
     \<and> rm_package_hash (env_projected_metadata env) = rp_package_hash p
     \<and> unat (rp_total_refine_gas p) + unat (rp_total_accumulate_gas p) \<le> unat (MaxExecutionGas M)
     \<and> (\<exists>package. decode_work_package_prefix M (wr_canonical_work_package w) = Some (package, [])
         \<and> rp_context_hash p = jam_hash M (wp_context package)
         \<and> list_all2 (\<lambda>item r. srp_service_id r = wi_service item \<and> srp_code_hash r = wi_code_hash item
              \<and> srp_refine_gas_used r \<le> wi_refine_gas_limit item
              \<and> srp_accumulate_gas r \<le> wi_accumulate_gas_limit item) (wp_items package) (rp_services p))"

lemma validate_candidate_report_fits:
  assumes "validate_candidate_report M w env = Ok ()"
  shows "\<exists>p. jx_project_report M (env_canonical_report env) = Ok p \<and> report_fits M w env p"
proof -
  obtain p package g where p: "jx_project_report M (env_canonical_report env) = Ok p"
    "rp_package_hash p = wr_package_hash w" "rm_package_hash (env_projected_metadata env) = rp_package_hash p"
    "decode_work_package M (wr_canonical_work_package w) = Ok package"
    "length (rp_services p) = length (wp_items package)" "rp_context_hash p = jam_hash M (wp_context package)"
    "checked_add (rp_total_refine_gas p) (rp_total_accumulate_gas p) = Some g" "g \<le> MaxExecutionGas M"
    "check_results (zip (wp_items package) (rp_services p)) = Ok ()"
    using assms unfolding validate_candidate_report_def Let_def bind_res_eq_Ok map_err_eq_Ok ensure_eq_Ok ok_or_eq_Ok by metis
  have "unat (rp_total_refine_gas p) + unat (rp_total_accumulate_gas p) \<le> unat (MaxExecutionGas M)"
    using p(7,8) by (auto simp: checked_add_Some word_le_nat_alt unat_add_no_overflow)
  moreover have "decode_work_package_prefix M (wr_canonical_work_package w) = Some (package, [])"
    using p(4) by (auto simp: decode_work_package_def res_simps)
  ultimately show ?thesis
    using p(1-3,5,6) p(9) unfolding check_results_Ok report_fits_def list_all2_iff by auto
qed

text \<open>
  C10. Only the producer's report is voted on.  When \<open>submit_candidate\<close> succeeds the signer is the
  registered worker with the least id among those assigned to the current round, the work was
  waiting for a candidate and its deadline had not passed, the envelope names this chain, this
  round and the hash of its own report, and the report projected by the executor fits the work
  and its gas limits.  The report is then stored and its voting round is open.
\<close>

theorem candidate_from_producer:
  assumes "submit_candidate M origin env m = Ok t"
  shows "\<exists>who worker ws w p. origin = SignedOrigin who \<and> WorkerByAccount (wk m) who = Some worker
     \<and> Works m (env_work_id env) = Some w \<and> Assignments (wk m) (env_work_id env, wr_round w) = Some ws
     \<and> worker \<in> set ws \<and> (\<forall>x\<in>set ws. worker \<le> x)
     \<and> wr_status w = StAwaitingCandidate \<and> block_number_of m \<le> wr_candidate_deadline w
     \<and> env_chain_id env = jam_ChainId M \<and> env_assignment_round env = wr_round w
     \<and> env_canonical_report_hash env = jam_hash M (env_canonical_report env)
     \<and> jx_project_report M (env_canonical_report env) = Ok p \<and> report_fits M w env p
     \<and> Works t (env_work_id env) = Some (w\<lparr>wr_status := StVoting\<rparr>)
     \<and> Candidates t (env_work_id env, wr_round w) = Some \<lparr>cd_submitter = who, cd_envelope = env,
          cd_vote_deadline = saturating_add (block_number_of m) (VoteWindow M)\<rparr>
     \<and> VotingRounds (wk t) (env_work_id env, wr_round w) \<noteq> None"
  using assms
proof (rule submit_candidate_Ok)
  fix who w worker ws c and s :: "'a workers_state"
  assume a: "origin = SignedOrigin who" "Works m (env_work_id env) = Some w" "WorkerByAccount (wk m) who = Some worker"
    "Assignments (wk m) (env_work_id env, wr_round w) = Some ws" "min_opt ws = Some worker"
    "wr_status w = StAwaitingCandidate" "block_number_of m \<le> wr_candidate_deadline w"
    "env_chain_id env = jam_ChainId M" "env_assignment_round env = wr_round w"
    "jam_hash M (env_canonical_report env) = env_canonical_report_hash env"
    "validate_candidate_report M w env = Ok ()"
    and op: "open_voting (wenv M) (env_work_id env) (wr_round w) (env_canonical_report_hash env)
       (saturating_add (block_number_of m) (VoteWindow M)) ((wk m)\<lparr>balances := c\<rparr>) = Ok s"
    and t: "t = jam_event (CandidateSubmitted (env_work_id env) (wr_round w) who (env_canonical_report_hash env))
          (put_work (env_work_id env) (w\<lparr>wr_status := StVoting\<rparr>)
            (m\<lparr>wk := s, Candidates := (Candidates m)((env_work_id env, wr_round w) \<mapsto>
                 \<lparr>cd_submitter = who, cd_envelope = env,
                  cd_vote_deadline = saturating_add (block_number_of m) (VoteWindow M)\<rparr>)\<rparr>))"
  have "VotingRounds s (env_work_id env, wr_round w) \<noteq> None"
    using op by (auto simp: open_voting_def res_simps Let_def)
  moreover have "worker \<in> set ws" "\<forall>x\<in>set ws. worker \<le> x"
    using a(5) by (simp_all add: min_opt_Some)
  ultimately show ?thesis
    using a validate_candidate_report_fits [OF a(11)] by (auto simp: t put_work_def)
qed

theorem candidate_from_producer_witness:
  "\<exists>w. submit_candidate jam_ex_env (SignedOrigin [1]) ex_envelope jam_ex_submitted = Ok jam_ex_candidate
     \<and> Works jam_ex_candidate 0 = Some w \<and> wr_status w = StVoting"
proof -
  have "submit_candidate jam_ex_env (SignedOrigin [1]) ex_envelope jam_ex_submitted = Ok jam_ex_candidate"
    using is_ok_eq [OF jam_ex_candidate_ok] by (simp add: jam_ex_candidate_def)
  from candidate_from_producer [OF this] this show ?thesis by (auto simp: ex_envelope_def)
qed

section \<open>Hooks\<close>

lemma prepare_round_total:
  assumes "registry_inv (wenv M) (wk m)"
  shows "prepare_round M i m \<noteq> Panic"
proof -
  have "assign_work (wenv M) i r (wk m) \<noteq> Panic" for r
    using assms by (cases rule: assign_work_cases [of "wenv M" "wk m" i r]) auto
  then show ?thesis
    by (auto simp: prepare_round_def Let_def ok_or_def split: option.splits outcome.splits)
qed

lemma registry_unread [simp]:
  "registry_inv E (s\<lparr>balances := c\<rparr>) = registry_inv E s"
  "registry_inv E (clear_assignment i r s) = registry_inv E s"
proof -
  show "registry_inv E (s\<lparr>balances := c\<rparr>) = registry_inv E s" by (simp add: registry_inv_def)
  have "registry_inv E (fold (\<lambda>w s. s\<lparr>AssignmentKeys := (AssignmentKeys s)((i, r, w) := None),
      Votes := (Votes s)((i, r, w) := None)\<rparr>) ws s) = registry_inv E s" for ws and s :: "'a workers_state"
    by (induction ws arbitrary: s) (simp_all add: registry_inv_def)
  moreover have "registry_inv E (s\<lparr>Assignments := a\<rparr>) = registry_inv E s"
    "registry_inv E (s\<lparr>AssignmentEpochs := e\<rparr>) = registry_inv E s" for a e and s :: "'a workers_state"
    by (simp_all add: registry_inv_def)
  ultimately show "registry_inv E (clear_assignment i r s) = registry_inv E s"
    by (simp add: clear_assignment_def Let_def split: option.split)
qed

lemma settle_total: "settle_rejected_candidate M i r m \<noteq> Panic" "fail_work M i w m \<noteq> Panic"
  by (auto simp: settle_rejected_candidate_def fail_work_def jam_currency_def Let_def split_beta ok_or_def ensure_def
      split: option.splits)

lemma advance_or_fail_total:
  assumes "registry_inv (wenv M) (wk m)"
  shows "advance_or_fail M i rejected m \<noteq> Panic"
proof
  assume "advance_or_fail M i rejected m = Panic"
  then obtain w where w: "Works m i = Some w" and
    a: "bind_res (if rejected
               then bind_res (settle_rejected_candidate M i (wr_round w) m) (\<lambda>m.
                    Ok (jam_event (CandidateRejected i (wr_round w)) m))
               else Ok m) (\<lambda>m.
     let m = jam_clear_assignment i (wr_round w) m in
     if saturating_add (wr_round w) 1 \<ge> MaxCandidateRounds M
     then fail_work M i w m
     else prepare_round M i
            (put_work i (w\<lparr>wr_round := saturating_add (wr_round w) 1,
                                    wr_status := StInsufficientWorkers\<rparr>) m)) = Panic"
    by (auto simp: advance_or_fail_def ok_or_def split: option.splits)
  obtain u where "(if rejected
               then bind_res (settle_rejected_candidate M i (wr_round w) m) (\<lambda>m.
                    Ok (jam_event (CandidateRejected i (wr_round w)) m))
               else Ok m) = Ok u"
    and p: "(let m = jam_clear_assignment i (wr_round w) u in
     if saturating_add (wr_round w) 1 \<ge> MaxCandidateRounds M
     then fail_work M i w m
     else prepare_round M i
            (put_work i (w\<lparr>wr_round := saturating_add (wr_round w) 1,
                                    wr_status := StInsufficientWorkers\<rparr>) m)) = Panic"
    using a settle_total(1) [of M i "wr_round w" m] by (auto simp: bind_res_eq_Panic split: if_splits)
  then have "registry_inv (wenv M) (wk u)"
    using assms by (auto simp: bind_res_eq_Ok put_balances_def elim!: settle_rejected_candidate_Ok split: if_splits)
  with p show False
    using settle_total(2) prepare_round_total [of M "put_work i x (jam_clear_assignment i (wr_round w) u)" for x]
    by (auto simp: Let_def put_work_def jam_clear_assignment_def split: if_splits)
qed

lemma accept_candidate_total:
  assumes "\<And>bs. jx_project_report M bs \<noteq> Panic"
  shows "accept_candidate M i m \<noteq> Panic"
proof -
  have c: "check_results ps \<noteq> Panic" for ps by (induction ps) (auto simp: ensure_def)
  have "validate_candidate_report M w env \<noteq> Panic" for w env
    using assms c
    by (auto simp: validate_candidate_report_def decode_work_package_def Let_def bind_res_eq_Panic map_err_eq_Panic
        ensure_def ok_or_def split_beta split: if_splits option.splits)
  then show ?thesis
    by (auto simp: accept_candidate_def Let_def jam_currency_def bind_res_eq_Panic ok_or_def split: option.splits)
qed

lemma work_on_initialize_total:
  assumes "jam_works_inv M m" "\<And>bs. jx_project_report M bs \<noteq> Panic"
  shows "\<exists>t. work_on_initialize M block i m = Ok t"
proof -
  have reg: "registry_inv (wenv M) (wk m)" using jam_works_invD(1) [OF assms(1)] by blast
  have ok: "r \<noteq> Panic \<Longrightarrow> \<exists>t. ignore_err r m = Ok t" for r :: "(jam_error dispatch_error, 'a minijam_state) outcome"
    by (cases r) (auto simp: ignore_err_def)
  note total = ok [OF prepare_round_total [OF reg]] ok [OF advance_or_fail_total [OF reg]]
    ok [OF accept_candidate_total [OF assms(2)]]
  show ?thesis
    unfolding work_on_initialize_def
    by (auto split: option.split work_status.split round_decision.split intro: total)
qed

text \<open>
  C17. \<open>on_initialize\<close> always completes.  In a state that satisfies the invariant, whatever works
  are pending and whatever their rounds have come to, the hook neither panics nor stops at a
  work whose settlement fails.  The report projection is assumed to return.
\<close>

theorem on_initialize_completes:
  assumes "chain_inv M m" "\<And>bs. jx_project_report M bs \<noteq> Panic"
  shows "\<exists>t. minijam_on_initialize M block m = Ok t \<and> jam_works_inv M t"
proof -
  have "\<exists>t. works_on_initialize M block is m = Ok t \<and> jam_works_inv M t" if "jam_works_inv M m" for m "is"
    using that
  proof (induction "is" arbitrary: m)
    case (Cons i "is")
    obtain u where u: "work_on_initialize M block i m = Ok u"
      using work_on_initialize_total [OF Cons.prems assms(2)] by blast
    have "jam_works_inv M u" using work_on_initialize_inv [OF u Cons.prems] by blast
    from Cons.IH [OF this] u show ?case by simp
  qed simp
  then show ?thesis using assms(1) by (simp add: minijam_on_initialize_def chain_inv_def)
qed

theorem on_initialize_completes_witness:
  "\<exists>t. minijam_on_initialize jam_ex_env 7 jam_ex_submitted = Ok t"
proof -
  have "chain_live jam_ex_env jam_ex_submitted"
  proof (rule jam.step_inv [OF _ jam_ex_genesis_inv], rule ms_call)
    show "minijam_dispatch jam_ex_env (SignedOrigin ex_relayer) (CallSubmitWork ex_package ex_content) jam_ex_genesis
        = Ok jam_ex_submitted"
      using is_ok_eq [OF jam_ex_submitted_ok] by (simp add: jam_ex_submitted_def)
  qed
  then have "chain_inv jam_ex_env jam_ex_submitted" by (simp add: chain_live_def)
  from on_initialize_completes [OF this] show ?thesis by (auto simp: jam_ex_env_def)
qed

section \<open>State keys\<close>

lemma to_le_bytes_nth: "i < n \<Longrightarrow> to_le_bytes n w ! i = ucast (drop_bit (8 * i) w)"
  by (simp add: to_le_bytes_def)

text \<open>
  The key of a service's record is well formed: it has the 31 bytes of a state key, and
  different services have different keys, so one service's record is never another's.
\<close>

theorem service_info_state_key_type:
  "length (service_info_state_key s) = 31
   \<and> (service_info_state_key s = service_info_state_key s' \<longleftrightarrow> s = s')"
proof
  show "length (service_info_state_key s) = 31" by (simp add: service_info_state_key_def Let_def)
  have bytes: "service_info_state_key x ! 1 = to_le_bytes 4 x ! 0" "service_info_state_key x ! 3 = to_le_bytes 4 x ! 1"
    "service_info_state_key x ! 5 = to_le_bytes 4 x ! 2" "service_info_state_key x ! 7 = to_le_bytes 4 x ! 3" for x
    by (simp_all add: service_info_state_key_def Let_def)
  show "service_info_state_key s = service_info_state_key s' \<longleftrightarrow> s = s'"
  proof
    assume eq: "service_info_state_key s = service_info_state_key s'"
    have "to_le_bytes 4 s ! i = to_le_bytes 4 s' ! i" if "i < 4" for i
    proof -
      have "i = 0 \<or> i = 1 \<or> i = 2 \<or> i = 3" using that by linarith
      then show ?thesis using bytes [of s] bytes [of s'] unfolding eq by (elim disjE) simp_all
    qed
    then have "to_le_bytes 4 s = to_le_bytes 4 s'"
      by (intro nth_equalityI) (simp_all add: to_le_bytes_def)
    then show "s = s'" by (rule to_le_bytes_inj) simp
  qed simp
qed

section \<open>The input of the executor\<close>

text \<open>Iteration of the allocations visits every key once, in some order.\<close>

definition alloc_iter_law :: "'c minijam_env \<Rightarrow> bool" where
  "alloc_iter_law M \<longleftrightarrow> (\<forall>ks. mset (alloc_iter_order M ks) = mset ks)"

lemma sort_key_perm:
  assumes "mset xs = mset ys" "inj_on f (set ys)"
  shows "sort_key f xs = sort_key f ys"
proof (rule sort_key_inj_key_eq)
  show "mset xs = mset (sort_key f ys)" using assms(1) by simp
  show "inj_on f (set xs)" using assms mset_eq_setD by metis
qed simp

lemma pending_allocations_perm:
  assumes "mset (f (map fst (PendingAllocations m))) = mset (map fst (PendingAllocations m))" "allocs_inv M m"
  shows "sort_key (\<lambda>p. al_allocation_id (pa_allocation p)) (map (\<lambda>k. the (allocation_of m k)) (f (map fst (PendingAllocations m))))
    = sort_key (\<lambda>p. al_allocation_id (pa_allocation p)) (map (\<lambda>k. the (allocation_of m k)) (map fst (PendingAllocations m)))"
proof (rule sort_key_perm)
  show "mset (map (\<lambda>k. the (allocation_of m k)) (f (map fst (PendingAllocations m))))
    = mset (map (\<lambda>k. the (allocation_of m k)) (map fst (PendingAllocations m)))"
    by (simp only: mset_map assms(1))
  have d: "distinct (map fst (PendingAllocations m))" using assms(2) by (simp add: allocs_inv_def)
  have id: "al_allocation_id (pa_allocation (the (allocation_of m k))) = k" if k: "k \<in> set (map fst (PendingAllocations m))" for k
  proof -
    obtain p where "allocation_of m k = Some p" 
      using k by (cases "map_of (PendingAllocations m) k") (auto simp: alist_get_def map_of_eq_None_iff)
    then show ?thesis using assms(2) by (simp add: allocs_inv_def alloc_ok_def)
  qed
  show "inj_on (\<lambda>p. al_allocation_id (pa_allocation p)) (set (map (\<lambda>k. the (allocation_of m k)) (map fst (PendingAllocations m))))"
  proof (rule inj_onI)
    fix p q
    assume "p \<in> set (map (\<lambda>k. the (allocation_of m k)) (map fst (PendingAllocations m)))"
      "q \<in> set (map (\<lambda>k. the (allocation_of m k)) (map fst (PendingAllocations m)))"
      and eq: "al_allocation_id (pa_allocation p) = al_allocation_id (pa_allocation q)"
    then obtain j k where "j \<in> set (map fst (PendingAllocations m))" "p = the (allocation_of m j)"
      "k \<in> set (map fst (PendingAllocations m))" "q = the (allocation_of m k)"
      unfolding set_map by blast
    then show "p = q" using id eq by metis
  qed
qed

lemma get_pending_allocations_perm:
  assumes "alloc_iter_law M" "alloc_iter_law M'" "allocs_inv M0 m"
  shows "get_pending_allocations M m = get_pending_allocations M' m"
  using pending_allocations_perm [of "alloc_iter_order M" m, OF _ assms(3)]
    pending_allocations_perm [of "alloc_iter_order M'" m, OF _ assms(3)] assms(1,2)
  by (simp add: get_pending_allocations_def alloc_iter_law_def)

lemma keyed_inj: "keyed key xs ks \<Longrightarrow> inj_on key (set xs)"
  by (simp add: keyed_def distinct_map)

text \<open>
  C19. The input handed to the executor does not depend on storage order.  The queues of preimages
  and system operations may be in any order (removal by swapping reorders them), and the pending
  allocations may be iterated in any order, and still the same input is built, so every node
  executes the same block.
\<close>

theorem execution_input_order_independent:
  assumes "chain_inv M m"
    and "mset preimages = mset (PendingPreimages m)" "mset ops = mset (PendingSystemOps m)"
    and "\<And>ks. mset (order ks) = mset ks" "alloc_iter_law M"
  shows "stf_input (M\<lparr>alloc_iter_order := order\<rparr>) block due (m\<lparr>PendingPreimages := preimages, PendingSystemOps := ops\<rparr>)
    = stf_input M block due m"
proof -
  let ?M = "M\<lparr>alloc_iter_order := order\<rparr>" and ?m = "m\<lparr>PendingPreimages := preimages, PendingSystemOps := ops\<rparr>"
  have inv: "queues_inv M m" "allocs_inv M m" using assms(1) by (simp_all add: chain_inv_def)
  have cand: "candidate_for_work ?m i = candidate_for_work m i" for i
    by (simp add: candidate_for_work_def split: option.split)
  have "gather_reports ?m due = gather_reports m due"
    by (induction due) (simp_all add: cand)
  moreover have "pending_preimage_batch ?m = pending_preimage_batch m"
  proof -
    have "inj_on (\<lambda>p. (pm_requester (pp_metadata p), pm_blob_hash (pp_metadata p), pm_blob_len (pp_metadata p)))
        (set (PendingPreimages m))"
      using keyed_inj [of preimage_key_at "PendingPreimages m"] inv(1)
      by (auto simp: queues_inv_def inj_on_def preimage_key_of_def)
    from sort_key_perm [OF assms(2) this] show ?thesis
      by (simp add: pending_preimage_batch_def Let_def)
  qed
  moreover have "pending_system_ops_batch ?M ?m = pending_system_ops_batch M m"
  proof -
    have "inj_on (\<lambda>p. (op_submitter (ps_op p), op_nonce (ps_op p), op_request_id (ps_op p))) (set (PendingSystemOps m))"
      using keyed_inj [of request_id_at "PendingSystemOps m"] inv(1)
      by (auto simp: queues_inv_def inj_on_def)
    note ops = sort_key_perm [OF assms(3) this]
    have "get_pending_allocations ?M ?m = get_pending_allocations ?M m" by (simp add: get_pending_allocations_def)
    also have "\<dots> = get_pending_allocations M m"
      using assms(4,5) inv(2) by (intro get_pending_allocations_perm) (auto simp: alloc_iter_law_def)
    finally have inputs: "pending_allocation_inputs ?M ?m = pending_allocation_inputs M m"
      by (simp add: pending_allocation_inputs_def)
    have "allocation_ops ?M ?m es = allocation_ops M m es" for es
      by (induction es) (simp_all add: allocation_system_op_def)
    then show ?thesis by (simp add: pending_system_ops_batch_def Let_def ops inputs)
  qed
  ultimately show ?thesis
    by (simp add: stf_input_def host_parent_hash_def host_parent_state_root_def host_entropy_def)
qed

theorem execution_input_order_independent_witness:
  "stf_input (jam_ex_env\<lparr>alloc_iter_order := rev\<rparr>) 1 ex_due
     (jam_ex_ready\<lparr>PendingPreimages := [], PendingSystemOps := []\<rparr>) = Ok jam_input"
proof -
  have "chain_inv jam_ex_env jam_ex_ready" using jam_ex_ready_inv by (simp add: chain_live_def)
  moreover have "alloc_iter_law jam_ex_env" by (simp add: alloc_iter_law_def jam_ex_env_def)
  moreover have "PendingPreimages jam_ex_ready = []" by (simp add: jam_ex_ready_def empty_minijam_state_def)
  ultimately have "stf_input (jam_ex_env\<lparr>alloc_iter_order := rev\<rparr>) 1 ex_due
      (jam_ex_ready\<lparr>PendingPreimages := [], PendingSystemOps := []\<rparr>) = stf_input jam_ex_env 1 ex_due jam_ex_ready"
    by (intro execution_input_order_independent) (simp_all add: ex_fields)
  then show ?thesis by (simp only: jam_input_ok)
qed

section \<open>Limits of the block transition\<close>








text \<open>A second quarantine overwrites the entries kept by the first.\<close>

theorem second_quarantine_loses:
  assumes "quarantine_pending RootOrigin m = Ok t" "quarantine_pending RootOrigin t = Ok u"
  shows "QuarantinedExecutionQueue t = ExecutionQueue m \<and> QuarantinedExecutionQueue u = []"
  using assms by (auto simp: quarantine_pending_def ensure_root_def jam_event_def Let_def)

end
