(* ===== verification/Bridge.thy ===== *)
theory Bridge
  imports Frame Transition Protocol
begin

text \<open>
  The bridge: the pallet \<open>pallets/minijam-bridge\<close>, which holds what comes in and releases it by
  outbound nonce, and the ledger of \<open>crates/minijam-bridge-engine\<close>, which keeps an escrow per
  account.  Neither is part of the runtime yet; both promise that a nonce pays once and that what
  goes out came in.
\<close>

section \<open>Sums over a storage map\<close>

definition map_total :: "('v \<Rightarrow> nat) \<Rightarrow> ('k::finite \<rightharpoonup> 'v) \<Rightarrow> nat" where
  "map_total f m = (\<Sum>k\<in>dom m. f (the (m k)))"

lemma map_total_empty [simp]: "map_total f Map.empty = 0"
  by (simp add: map_total_def)

lemma map_total_insert:
  assumes "m k = None"
  shows "map_total f (m(k \<mapsto> v)) = f v + map_total f m"
proof -
  have "k \<notin> dom m" using assms by auto
  then show ?thesis
    unfolding map_total_def dom_fun_upd by (auto intro!: sum.cong)
qed

lemma less_plus_one:
  fixes k n :: "'a::len word"
  assumes "k < k + 1"
  shows "n < k + 1 \<longleftrightarrow> n < k \<or> n = k"
proof -
  have "unat (1 + k) = Suc (unat k)"
    using assms by (intro unatSuc) (auto simp: add.commute)
  then show ?thesis
    by (auto simp: word_less_nat_alt less_Suc_eq add.commute word_unat_eq_iff)
qed

section \<open>The pallet\<close>

record inbound_record =
  ib_nonce :: u64
  ib_account :: account
  ib_target_service :: u32
  ib_asset :: asset_id
  ib_amount :: balance

record outbound_record =
  ob_nonce :: u64
  ob_account :: account
  ob_source_service :: u32
  ob_asset :: asset_id
  ob_amount :: balance

record 'c bridge_env =
  b_Currency :: "'c currency"
  EscrowAccount :: account

datatype bridge_event =
    InboundEscrowed u64 account u32 balance
  | OutboundReleased u64 account u32 balance

datatype bridge_pallet_error = BridgeZeroAmount | NonceOverflow | OutboundAlreadyProcessed

record 'c bridge_state =
  b_balances :: 'c
  NextInboundNonce :: u64
  InboundRecords :: "u64 \<rightharpoonup> inbound_record"
  ProcessedOutboundNonces :: "u64 \<rightharpoonup> unit"
  OutboundRecords :: "u64 \<rightharpoonup> outbound_record"
  b_events :: "bridge_event list"

type_synonym 'a bridge_res = "(bridge_pallet_error dispatch_error, 'a) outcome"

definition bridge_in ::
    "'c bridge_env \<Rightarrow> origin \<Rightarrow> u32 \<Rightarrow> balance \<Rightarrow> 'c bridge_state \<Rightarrow> 'c bridge_state bridge_res" where
  "bridge_in E origin target_service amount s =
     ensure_signed origin (\<lambda>account.
     ensure (amount \<noteq> 0) (ModuleError BridgeZeroAmount) (
     let nonce = NextInboundNonce s in
     ok_or (checked_add nonce 1) (ModuleError NonceOverflow) (\<lambda>next_nonce.
     let escrow = EscrowAccount E in
     ok_or (cur_transfer (b_Currency E) Preserve account escrow amount (b_balances s)) CurrencyError (\<lambda>c.
     ok_or (cur_hold (b_Currency E) BridgeEscrow escrow amount c) CurrencyError (\<lambda>c.
     Ok (s\<lparr>b_balances := c,
           InboundRecords := (InboundRecords s)(nonce \<mapsto>
             \<lparr>ib_nonce = nonce, ib_account = account, ib_target_service = target_service,
              ib_asset = Native, ib_amount = amount\<rparr>),
           NextInboundNonce := next_nonce,
           b_events := b_events s @ [InboundEscrowed nonce account target_service amount]\<rparr>))))))"

definition release_outbound ::
    "'c bridge_env \<Rightarrow> origin \<Rightarrow> u64 \<Rightarrow> account \<Rightarrow> u32 \<Rightarrow> balance \<Rightarrow> 'c bridge_state
     \<Rightarrow> 'c bridge_state bridge_res" where
  "release_outbound E origin nonce account source_service amount s =
     ensure_root origin (
     ensure (amount \<noteq> 0) (ModuleError BridgeZeroAmount) (
     ensure (ProcessedOutboundNonces s nonce = None) (ModuleError OutboundAlreadyProcessed) (
     let escrow = EscrowAccount E in
     ok_or (cur_release (b_Currency E) BridgeEscrow escrow amount (b_balances s)) CurrencyError (\<lambda>c.
     ok_or (cur_transfer (b_Currency E) Preserve escrow account amount c) CurrencyError (\<lambda>c.
     Ok (s\<lparr>b_balances := c,
           ProcessedOutboundNonces := (ProcessedOutboundNonces s)(nonce \<mapsto> ()),
           OutboundRecords := (OutboundRecords s)(nonce \<mapsto>
             \<lparr>ob_nonce = nonce, ob_account = account, ob_source_service = source_service,
              ob_asset = Native, ob_amount = amount\<rparr>),
           b_events := b_events s @ [OutboundReleased nonce account source_service amount]\<rparr>))))))"

text \<open>Other pallets change balances, but nobody else holds for the bridge.\<close>

inductive bridge_step :: "'c bridge_env \<Rightarrow> 'c bridge_state \<Rightarrow> 'c bridge_state \<Rightarrow> bool" for E where
  bs_in: "bridge_in E origin service amount s = Ok t \<Longrightarrow> bridge_step E s t"
| bs_out: "release_outbound E origin nonce account service amount s = Ok t \<Longrightarrow> bridge_step E s t"
| bs_balances: "cur_on_hold (b_Currency E) BridgeEscrow (EscrowAccount E) c
      = cur_on_hold (b_Currency E) BridgeEscrow (EscrowAccount E) (b_balances s) \<Longrightarrow>
    bridge_step E s (s\<lparr>b_balances := c\<rparr>)"

inductive_cases bridge_stepE: "bridge_step E s t"

lemma bridge_in_Ok:
  assumes "bridge_in E origin service amount s = Ok t"
  obtains account c c' where "origin = SignedOrigin account" "amount \<noteq> 0" "NextInboundNonce s < NextInboundNonce s + 1"
    "cur_transfer (b_Currency E) Preserve account (EscrowAccount E) amount (b_balances s) = Some c"
    "cur_hold (b_Currency E) BridgeEscrow (EscrowAccount E) amount c = Some c'"
    "t = s\<lparr>b_balances := c',
           InboundRecords := (InboundRecords s)(NextInboundNonce s \<mapsto>
             \<lparr>ib_nonce = NextInboundNonce s, ib_account = account, ib_target_service = service,
              ib_asset = Native, ib_amount = amount\<rparr>),
           NextInboundNonce := NextInboundNonce s + 1,
           b_events := b_events s @ [InboundEscrowed (NextInboundNonce s) account service amount]\<rparr>"
proof -
  from assms obtain account n c c' where a: "origin = SignedOrigin account" "amount \<noteq> 0"
    "checked_add (NextInboundNonce s) 1 = Some n"
    "cur_transfer (b_Currency E) Preserve account (EscrowAccount E) amount (b_balances s) = Some c"
    "cur_hold (b_Currency E) BridgeEscrow (EscrowAccount E) amount c = Some c'"
    "t = s\<lparr>b_balances := c',
           InboundRecords := (InboundRecords s)(NextInboundNonce s \<mapsto>
             \<lparr>ib_nonce = NextInboundNonce s, ib_account = account, ib_target_service = service,
              ib_asset = Native, ib_amount = amount\<rparr>),
           NextInboundNonce := n,
           b_events := b_events s @ [InboundEscrowed (NextInboundNonce s) account service amount]\<rparr>"
    by (auto simp: bridge_in_def ensure_signed_Ok ensure_eq_Ok ok_or_eq_Ok Let_def)
  have "n = NextInboundNonce s + 1" "NextInboundNonce s < NextInboundNonce s + 1"
    using a(3) by (auto simp: checked_add_Some word_less_nat_alt unat_add_no_overflow)
  with a show thesis using that by blast
qed

lemma release_outbound_Ok:
  assumes "release_outbound E origin nonce account service amount s = Ok t"
  obtains c c' where "origin = RootOrigin" "amount \<noteq> 0" "ProcessedOutboundNonces s nonce = None"
    "cur_release (b_Currency E) BridgeEscrow (EscrowAccount E) amount (b_balances s) = Some c"
    "cur_transfer (b_Currency E) Preserve (EscrowAccount E) account amount c = Some c'"
    "t = s\<lparr>b_balances := c',
           ProcessedOutboundNonces := (ProcessedOutboundNonces s)(nonce \<mapsto> ()),
           OutboundRecords := (OutboundRecords s)(nonce \<mapsto>
             \<lparr>ob_nonce = nonce, ob_account = account, ob_source_service = service,
              ob_asset = Native, ob_amount = amount\<rparr>),
           b_events := b_events s @ [OutboundReleased nonce account service amount]\<rparr>"
  using assms by (auto simp: release_outbound_def ensure_root_Ok ensure_eq_Ok ok_or_eq_Ok Let_def)

text \<open>The held escrow is what came in less what went out; inbound nonces are consecutive.\<close>

definition bridge_inv :: "'c bridge_env \<Rightarrow> 'c bridge_state \<Rightarrow> bool" where
  "bridge_inv E s \<longleftrightarrow> currency_laws (b_Currency E)
     \<and> (\<forall>n. InboundRecords s n \<noteq> None \<longleftrightarrow> n < NextInboundNonce s)
     \<and> dom (OutboundRecords s) = dom (ProcessedOutboundNonces s)
     \<and> unat (cur_on_hold (b_Currency E) BridgeEscrow (EscrowAccount E) (b_balances s))
         + map_total (\<lambda>r. unat (ob_amount r)) (OutboundRecords s)
       = map_total (\<lambda>r. unat (ib_amount r)) (InboundRecords s)"

lemma bridge_step_inv:
  assumes "bridge_step E s t" "bridge_inv E s"
  shows "bridge_inv E t"
  using assms(1)
proof cases
  case (bs_in origin service amount)
  note inv = assms(2) [unfolded bridge_inv_def]
  show ?thesis
    using bs_in
  proof (rule bridge_in_Ok)
    fix account c c'
    let ?n = "NextInboundNonce s"
    let ?r = "\<lparr>ib_nonce = ?n, ib_account = account, ib_target_service = service, ib_asset = Native, ib_amount = amount\<rparr>"
    assume nxt: "?n < ?n + 1"
      and tr: "cur_transfer (b_Currency E) Preserve account (EscrowAccount E) amount (b_balances s) = Some c"
      and ho: "cur_hold (b_Currency E) BridgeEscrow (EscrowAccount E) amount c = Some c'"
      and t: "t = s\<lparr>b_balances := c', InboundRecords := (InboundRecords s)(?n \<mapsto> ?r),
           NextInboundNonce := ?n + 1, b_events := b_events s @ [InboundEscrowed ?n account service amount]\<rparr>"
    have fresh: "InboundRecords s ?n = None" using inv by (metis order_less_irrefl)
    have "unat (cur_on_hold (b_Currency E) BridgeEscrow (EscrowAccount E) c')
        = unat (cur_on_hold (b_Currency E) BridgeEscrow (EscrowAccount E) (b_balances s)) + unat amount"
      using currency_lawsD(1) [OF _ ho] currency_lawsD(5) [OF _ tr] inv by metis
    moreover have "(\<exists>y. ((InboundRecords s)(?n \<mapsto> ?r)) n = Some y) \<longleftrightarrow> n < ?n + 1" for n
      using inv by (auto simp: less_plus_one [OF nxt])
    ultimately show ?thesis
      using inv by (simp add: bridge_inv_def t map_total_insert fresh)
  qed
next
  case (bs_out origin nonce account service amount)
  note inv = assms(2) [unfolded bridge_inv_def]
  show ?thesis
    using bs_out
  proof (rule release_outbound_Ok)
    fix c c'
    assume p: "ProcessedOutboundNonces s nonce = None"
      and re: "cur_release (b_Currency E) BridgeEscrow (EscrowAccount E) amount (b_balances s) = Some c"
      and tr: "cur_transfer (b_Currency E) Preserve (EscrowAccount E) account amount c = Some c'"
      and t: "t = s\<lparr>b_balances := c', ProcessedOutboundNonces := (ProcessedOutboundNonces s)(nonce \<mapsto> ()),
           OutboundRecords := (OutboundRecords s)(nonce \<mapsto>
             \<lparr>ob_nonce = nonce, ob_account = account, ob_source_service = service,
              ob_asset = Native, ob_amount = amount\<rparr>),
           b_events := b_events s @ [OutboundReleased nonce account service amount]\<rparr>"
    have fresh: "OutboundRecords s nonce = None" using inv p by auto
    have "unat (cur_on_hold (b_Currency E) BridgeEscrow (EscrowAccount E) (b_balances s))
        = unat (cur_on_hold (b_Currency E) BridgeEscrow (EscrowAccount E) c') + unat amount"
      using currency_lawsD(2) [OF _ re] currency_lawsD(5) [OF _ tr] inv by metis
    then show ?thesis
      using inv by (simp add: bridge_inv_def t map_total_insert fresh)
  qed
next
  case (bs_balances c)
  then show ?thesis using assms(2) by (simp add: bridge_inv_def)
qed

definition release_fires :: "'c bridge_env \<Rightarrow> u64 \<Rightarrow> 'c bridge_state \<Rightarrow> 'c bridge_state \<Rightarrow> bool" where
  "release_fires E nonce s t \<longleftrightarrow> (\<exists>origin account service amount.
     release_outbound E origin nonce account service amount s = Ok t)"

interpretation bridge: invariant_system "bridge_step E" "bridge_inv E" for E
  by unfold_locales (rule bridge_step_inv)

interpretation releases: exactly_once "bridge_step E" "bridge_inv E" ProcessedOutboundNonces "release_fires E" for E
proof unfold_locales
  show "ProcessedOutboundNonces t k = Some v"
    if "bridge_step E s t" "ProcessedOutboundNonces s k = Some v" for s t k v
    using that by (auto elim!: bridge_stepE bridge_in_Ok release_outbound_Ok)
  show "bridge_step E s t" if "release_fires E k s t" for k s t
    using that by (auto simp: release_fires_def intro: bs_out)
qed (auto simp: release_fires_def elim!: release_outbound_Ok)

definition empty_bridge_state :: "'c \<Rightarrow> 'c bridge_state" where
  "empty_bridge_state c = \<lparr>b_balances = c, NextInboundNonce = 0, InboundRecords = Map.empty,
     ProcessedOutboundNonces = Map.empty, OutboundRecords = Map.empty, b_events = []\<rparr>"

section \<open>The engine\<close>

datatype bridge_error = ZeroAmount | InsufficientEscrow | NonceConsumed | UnexpectedNonce | BridgeOverflow

record bridge_ledger =
  next_inbound_nonce :: u64
  escrow :: "account \<rightharpoonup> u128"
  consumed_outbound :: "u64 set"

definition default_ledger :: bridge_ledger where
  "default_ledger = \<lparr>next_inbound_nonce = 0, escrow = Map.empty, consumed_outbound = {}\<rparr>"

definition escrowed :: "bridge_ledger \<Rightarrow> account \<Rightarrow> u128" where
  "escrowed L account = (case escrow L account of Some n \<Rightarrow> n | None \<Rightarrow> 0)"

definition prepare_inbound ::
    "account \<Rightarrow> u32 \<Rightarrow> u128 \<Rightarrow> bridge_ledger \<Rightarrow> (bridge_error, bridge_effect \<times> bridge_ledger) outcome" where
  "prepare_inbound account target_service amount L =
     (if amount = 0 then Err ZeroAmount
      else let nonce = next_inbound_nonce L in
           ok_or (checked_add nonce 1) UnexpectedNonce (\<lambda>next_nonce.
           ok_or (checked_add (escrowed L account) amount) BridgeOverflow (\<lambda>new_balance.
           Ok (Inbound nonce target_service Native amount account,
               L\<lparr>next_inbound_nonce := next_nonce, escrow := (escrow L)(account \<mapsto> new_balance)\<rparr>))))"

definition apply_outbound ::
    "u64 \<Rightarrow> account \<Rightarrow> u32 \<Rightarrow> u128 \<Rightarrow> bridge_ledger \<Rightarrow> (bridge_error, bridge_effect \<times> bridge_ledger) outcome" where
  "apply_outbound nonce account source_service amount L =
     (if amount = 0 then Err ZeroAmount
      else if nonce \<in> consumed_outbound L then Err NonceConsumed
      else ok_or (escrow L account) InsufficientEscrow (\<lambda>held_amount.
           if held_amount < amount then Err InsufficientEscrow
           else Ok (Outbound nonce source_service Native amount account,
                    L\<lparr>escrow := (escrow L)(account \<mapsto> held_amount - amount),
                      consumed_outbound := insert nonce (consumed_outbound L)\<rparr>)))"

text \<open>A run of the ledger and the effects it has returned.\<close>

inductive ledger_run :: "bridge_effect list \<Rightarrow> bridge_ledger \<Rightarrow> bool" where
  lr_start: "ledger_run [] default_ledger"
| lr_in: "ledger_run es L \<Longrightarrow> prepare_inbound account service amount L = Ok (e, L') \<Longrightarrow> ledger_run (es @ [e]) L'"
| lr_out: "ledger_run es L \<Longrightarrow> apply_outbound nonce account service amount L = Ok (e, L') \<Longrightarrow> ledger_run (es @ [e]) L'"

fun inbound_amount :: "account \<Rightarrow> bridge_effect \<Rightarrow> nat" where
  "inbound_amount a (Inbound nonce service asset amount account) = (if account = a then unat amount else 0)"
| "inbound_amount a (Outbound nonce service asset amount account) = 0"

fun outbound_amount :: "account \<Rightarrow> bridge_effect \<Rightarrow> nat" where
  "outbound_amount a (Outbound nonce service asset amount account) = (if account = a then unat amount else 0)"
| "outbound_amount a (Inbound nonce service asset amount account) = 0"

fun outbound_nonce :: "bridge_effect \<Rightarrow> u64 option" where
  "outbound_nonce (Outbound nonce service asset amount account) = Some nonce"
| "outbound_nonce (Inbound nonce service asset amount account) = None"

fun inbound_nonce :: "bridge_effect \<Rightarrow> u64 option" where
  "inbound_nonce (Inbound nonce service asset amount account) = Some nonce"
| "inbound_nonce (Outbound nonce service asset amount account) = None"

section \<open>Properties\<close>

text \<open>
  C16. The bridge pallet's escrow is backed.  From an empty bridge whose escrow account holds
  nothing, along every sequence of deposits, releases and unrelated balance changes, the balance
  held for the bridge is exactly the sum of the recorded deposits less the sum of the recorded
  releases, and the deposits carry the consecutive nonces from zero.
\<close>

theorem bridge_escrow_backed:
  assumes "currency_laws (b_Currency E)" "cur_on_hold (b_Currency E) BridgeEscrow (EscrowAccount E) c = 0"
    and "(bridge_step E)\<^sup>*\<^sup>* (empty_bridge_state c) s"
  shows "unat (cur_on_hold (b_Currency E) BridgeEscrow (EscrowAccount E) (b_balances s))
         + map_total (\<lambda>r. unat (ob_amount r)) (OutboundRecords s)
       = map_total (\<lambda>r. unat (ib_amount r)) (InboundRecords s)
     \<and> (\<forall>n. InboundRecords s n \<noteq> None \<longleftrightarrow> n < NextInboundNonce s)"
proof -
  have "bridge_inv E (empty_bridge_state c)"
    using assms(1,2) by (simp add: bridge_inv_def empty_bridge_state_def)
  from bridge.steps_inv [OF assms(3) this] show ?thesis by (simp add: bridge_inv_def)
qed

definition ex_bridge_env :: "ledger bridge_env" where
  "ex_bridge_env = \<lparr>b_Currency = ledger_currency, EscrowAccount = [9]\<rparr>"

definition ex_bridge_ledger :: ledger where
  "ex_bridge_ledger = \<lparr>free = (\<lambda>a. 1000), held = (\<lambda>_. 0)\<rparr>"

definition ex_bridge_in :: "ledger bridge_state" where
  "ex_bridge_in = the_ok (bridge_in ex_bridge_env (SignedOrigin [1]) 2 70 (empty_bridge_state ex_bridge_ledger))"

definition ex_bridge_out :: "ledger bridge_state" where
  "ex_bridge_out = the_ok (release_outbound ex_bridge_env RootOrigin 5 [3] 2 30 ex_bridge_in)"

lemma ex_bridge_in_ok: "bridge_in ex_bridge_env (SignedOrigin [1]) 2 70 (empty_bridge_state ex_bridge_ledger) = Ok ex_bridge_in"
  unfolding ex_bridge_in_def by (rule is_ok_eq, code_simp)

lemma ex_bridge_out_ok: "release_outbound ex_bridge_env RootOrigin 5 [3] 2 30 ex_bridge_in = Ok ex_bridge_out"
  unfolding ex_bridge_out_def by (rule is_ok_eq, code_simp)

lemma ex_bridge_laws: "currency_laws (b_Currency ex_bridge_env)"
  "cur_on_hold (b_Currency ex_bridge_env) BridgeEscrow (EscrowAccount ex_bridge_env) ex_bridge_ledger = 0"
  by (simp_all add: ex_bridge_env_def ledger_laws ex_bridge_ledger_def, simp add: ledger_currency_def)

lemma ex_bridge_inv: "bridge_inv ex_bridge_env (empty_bridge_state ex_bridge_ledger)"
  using ex_bridge_laws by (simp add: bridge_inv_def empty_bridge_state_def)

theorem bridge_escrow_backed_witness:
  "held (b_balances ex_bridge_out) (BridgeEscrow, [9]) = 40
   \<and> unat (cur_on_hold (b_Currency ex_bridge_env) BridgeEscrow (EscrowAccount ex_bridge_env) (b_balances ex_bridge_out))
         + map_total (\<lambda>r. unat (ob_amount r)) (OutboundRecords ex_bridge_out)
       = map_total (\<lambda>r. unat (ib_amount r)) (InboundRecords ex_bridge_out)"
proof
  show "held (b_balances ex_bridge_out) (BridgeEscrow, [9]) = 40" by code_simp
  have "(bridge_step ex_bridge_env)\<^sup>*\<^sup>* (empty_bridge_state ex_bridge_ledger) ex_bridge_out"
    using bs_in [OF ex_bridge_in_ok] bs_out [OF ex_bridge_out_ok] by (meson converse_rtranclp_into_rtranclp rtranclp.rtrancl_refl)
  from bridge_escrow_backed [OF ex_bridge_laws this] show
    "unat (cur_on_hold (b_Currency ex_bridge_env) BridgeEscrow (EscrowAccount ex_bridge_env) (b_balances ex_bridge_out))
         + map_total (\<lambda>r. unat (ob_amount r)) (OutboundRecords ex_bridge_out)
       = map_total (\<lambda>r. unat (ib_amount r)) (InboundRecords ex_bridge_out)" by blast
qed

text \<open>
  C31. An outbound nonce of the bridge pallet pays once, whatever happens after the first release.
\<close>

theorem outbound_release_once:
  assumes "bridge_inv E s" "release_outbound E origin nonce account service amount s = Ok t"
    and "(bridge_step E)\<^sup>*\<^sup>* t u"
  shows "release_outbound E RootOrigin nonce account' service' amount' u =
    (if amount' = 0 then Err (ModuleError BridgeZeroAmount) else Err (ModuleError OutboundAlreadyProcessed))"
proof -
  have "release_fires E nonce s t" using assms(2) by (auto simp: release_fires_def)
  then have "ProcessedOutboundNonces t nonce = Some ()"
    using releases.fire_marks by (auto simp: unit_eq)
  moreover have "bridge_inv E t" using bridge.step_inv [OF bs_out [OF assms(2)] assms(1)] .
  ultimately have "ProcessedOutboundNonces u nonce = Some ()"
    using releases.steps_get [OF assms(3)] by blast
  then show ?thesis by (simp add: release_outbound_def ensure_root_def)
qed

theorem outbound_release_once_witness:
  "release_outbound ex_bridge_env RootOrigin 5 [4] 2 1 ex_bridge_out = Err (ModuleError OutboundAlreadyProcessed)"
proof -
  have "bridge_inv ex_bridge_env ex_bridge_in"
    using bridge.step_inv [OF bs_in [OF ex_bridge_in_ok] ex_bridge_inv] .
  from outbound_release_once [OF this ex_bridge_out_ok rtranclp.rtrancl_refl, of "[4]" 2 1] show ?thesis by simp
qed

text \<open>
  C32. The engine's ledger conserves value.  In every run the deposits of an account are its escrow
  plus what was paid out to it, no outbound nonce occurs twice, and the inbound effects carry the
  nonces 0, 1, 2 and so on in order.
\<close>

theorem ledger_conserves:
  assumes "ledger_run es L"
  shows "sum_list (map (inbound_amount a) es) = unat (escrowed L a) + sum_list (map (outbound_amount a) es)
     \<and> distinct (List.map_filter outbound_nonce es)
     \<and> map unat (List.map_filter inbound_nonce es) = [0..<unat (next_inbound_nonce L)]"
proof -
  have "sum_list (map (inbound_amount a) es) = unat (escrowed L a) + sum_list (map (outbound_amount a) es)
     \<and> distinct (List.map_filter outbound_nonce es) \<and> set (List.map_filter outbound_nonce es) = consumed_outbound L
     \<and> map unat (List.map_filter inbound_nonce es) = [0..<unat (next_inbound_nonce L)]"
    using assms
  proof (induction rule: ledger_run.induct)
    case lr_start
    then show ?case by (simp add: default_ledger_def escrowed_def map_filter_simps)
  next
    case (lr_in es L account service amount e L')
    then obtain n b where "checked_add (next_inbound_nonce L) 1 = Some n" "checked_add (escrowed L account) amount = Some b"
      "e = Inbound (next_inbound_nonce L) service Native amount account"
      "L' = L\<lparr>next_inbound_nonce := n, escrow := (escrow L)(account \<mapsto> b)\<rparr>"
      by (auto simp: prepare_inbound_def ok_or_eq_Ok Let_def split: if_splits)
    then show ?case
      using lr_in.IH by (auto simp: checked_add_Some unat_add_no_overflow escrowed_def map_filter_def)
  next
    case (lr_out es L nonce account service amount e L')
    then obtain b where "escrow L account = Some b" "\<not> b < amount" "nonce \<notin> consumed_outbound L"
      "e = Outbound nonce service Native amount account"
      "L' = L\<lparr>escrow := (escrow L)(account \<mapsto> b - amount), consumed_outbound := insert nonce (consumed_outbound L)\<rparr>"
      by (auto simp: apply_outbound_def ok_or_eq_Ok split: if_splits)
    then show ?case
      using lr_out.IH by (auto simp: escrowed_def map_filter_def unat_sub not_less word_le_nat_alt)
  qed
  then show ?thesis by blast
qed

theorem ledger_conserves_witness:
  "\<exists>e L. prepare_inbound [9] 7 100 default_ledger = Ok (e, L) \<and> escrowed L [9] = 100
     \<and> sum_list (map (inbound_amount [9]) [e]) = unat (escrowed L [9]) + sum_list (map (outbound_amount [9]) [e])"
proof -
  have p: "prepare_inbound [9] 7 100 default_ledger = Ok (Inbound 0 7 Native 100 [9],
      default_ledger\<lparr>next_inbound_nonce := 1, escrow := [[9] \<mapsto> 100]\<rparr>)"
    by (simp add: prepare_inbound_def default_ledger_def escrowed_def checked_add_def)
  from ledger_conserves [OF lr_in [OF lr_start p], of "[9]"] p show ?thesis
    by (auto simp: escrowed_def)
qed

end
