(* ===== verification/Bulletin.thy ===== *)
theory Bulletin
  imports Transition Protocol
begin

text \<open>
  The content store of \<open>crates/minijam-bulletin-api\<close> and its simulator
  \<open>crates/minijam-bulletin-simulator\<close>.  The simulator keeps its index under a mutex and its blobs
  in a directory; the index and the directory are one state record here.  An operation that fails
  may have changed the state, so every operation returns its result and the new state.  Storing
  takes the mutex twice, before and after the file system writes the blob, and fetching reads the
  blob after it has released the mutex: these parts are definitions of their own
  (\<open>store_reserve\<close>, \<open>write_blob_atomic\<close>, \<open>store_undo\<close>, \<open>fetch_check\<close>, \<open>fetch_read\<close>), and the section
  on threads lets the parts of any number of concurrent calls interleave.
\<close>

section \<open>Types\<close>

record authorization =
  transactions_left :: u32
  bytes_left :: u64
  expires_at :: block_number

datatype renewal_ref = ByLocation storage_location | ByContentHash hash

datatype content_status = Available block_number | StatusExpired | StatusMissing

datatype bulletin_error =
    Unauthorized
  | QuotaExhausted
  | AuthorizationExpired
  | Missing
  | Expired
  | Corrupt
  | UnsupportedCid
  | Timeout
  | Io string
  | InvalidCid string

datatype fault = FaultMissing | FaultCorrupt | FaultTimeout

text \<open>The hash and the CID library are outside the repository, as are the errors of the file system.\<close>

record bulletin_env =
  b_blake2_256 :: "bytes \<Rightarrow> hash"
  wrap_cid_v1 :: "u64 \<Rightarrow> u64 \<Rightarrow> hash \<Rightarrow> (string, bytes) outcome"
  retention_period :: block_number

record bulletin_io =
  write_failure :: "hash \<Rightarrow> string option"
  read_failure :: "hash \<Rightarrow> string option"

record bulletin_state =
  bul_block_number :: block_number
  next_index :: u32
  authorizations :: "account \<rightharpoonup> authorization"
  entries :: "hash \<rightharpoonup> storage_receipt"
  locations :: "block_number \<times> u32 \<rightharpoonup> hash"
  faults :: "hash \<rightharpoonup> fault"
  blobs :: "hash \<rightharpoonup> bytes"

definition bulletin_new :: bulletin_state where
  "bulletin_new = \<lparr>bul_block_number = 0, next_index = 0, authorizations = Map.empty, entries = Map.empty,
     locations = Map.empty, faults = Map.empty, blobs = Map.empty\<rparr>"

definition BLAKE2B_256_MULTIHASH :: u64 where
  "BLAKE2B_256_MULTIHASH = 0xb220"

definition RAW_CODEC :: u64 where
  "RAW_CODEC = 0x55"

section \<open>Administration\<close>

definition set_block_number :: "block_number \<Rightarrow> bulletin_state \<Rightarrow> bulletin_state" where
  "set_block_number n s = s\<lparr>bul_block_number := n\<rparr>"

definition advance_blocks :: "block_number \<Rightarrow> bulletin_state \<Rightarrow> bulletin_state" where
  "advance_blocks n s = s\<lparr>bul_block_number := saturating_add (bul_block_number s) n, next_index := 0\<rparr>"

definition bulletin_authorize ::
    "account \<Rightarrow> u32 \<Rightarrow> u64 \<Rightarrow> block_number \<Rightarrow> bulletin_state \<Rightarrow> bulletin_state" where
  "bulletin_authorize account transactions n expires s =
     s\<lparr>authorizations := (authorizations s)(account \<mapsto>
         \<lparr>transactions_left = transactions, bytes_left = n, expires_at = expires\<rparr>)\<rparr>"

definition inject_fault :: "hash \<Rightarrow> fault \<Rightarrow> bulletin_state \<Rightarrow> bulletin_state" where
  "inject_fault h f s = s\<lparr>faults := (faults s)(h \<mapsto> f)\<rparr>"

definition clear_fault :: "hash \<Rightarrow> bulletin_state \<Rightarrow> bulletin_state" where
  "clear_fault h s = s\<lparr>faults := (faults s)(h := None)\<rparr>"

section \<open>Helpers\<close>

definition write_blob_atomic ::
    "bulletin_io \<Rightarrow> hash \<Rightarrow> bytes \<Rightarrow> bulletin_state \<Rightarrow> (bulletin_error, bulletin_state) outcome" where
  "write_blob_atomic io h data s =
     (if blobs s h \<noteq> None then Ok s
      else case write_failure io h of
             Some e \<Rightarrow> Err (Io e)
           | None \<Rightarrow> Ok (s\<lparr>blobs := (blobs s)(h \<mapsto> data)\<rparr>))"

definition read_blob :: "bulletin_io \<Rightarrow> hash \<Rightarrow> bulletin_state \<Rightarrow> (bulletin_error, bytes) outcome" where
  "read_blob io h s =
     (case blobs s h of
        None \<Rightarrow> Err Missing
      | Some data \<Rightarrow> (case read_failure io h of Some e \<Rightarrow> Err (Io e) | None \<Rightarrow> Ok data))"

definition cid_for :: "bulletin_env \<Rightarrow> cid_config \<Rightarrow> bytes \<Rightarrow> (bulletin_error, hash \<times> bytes) outcome" where
  "cid_for E config data =
     (if cid_codec config \<noteq> RAW_CODEC \<or> cid_hashing config \<noteq> Blake2b256 then Err UnsupportedCid
      else let content_hash = b_blake2_256 E data in
           case wrap_cid_v1 E (cid_codec config) BLAKE2B_256_MULTIHASH content_hash of
             Ok cid \<Rightarrow> Ok (content_hash, cid)
           | Err e \<Rightarrow> Err (InvalidCid e)
           | Panic \<Rightarrow> Panic)"

fun locate_hash :: "bulletin_state \<Rightarrow> renewal_ref \<Rightarrow> hash option" where
  "locate_hash s (ByContentHash h) = Some h"
| "locate_hash s (ByLocation location) = locations s (sl_block_number location, sl_transaction_index location)"

definition check_authorization ::
    "account \<Rightarrow> u64 \<Rightarrow> bulletin_state \<Rightarrow> (bulletin_error, bulletin_state) outcome" where
  "check_authorization account n s =
     (case authorizations s account of
        None \<Rightarrow> Err Unauthorized
      | Some auth \<Rightarrow>
          if bul_block_number s \<ge> expires_at auth then Err AuthorizationExpired
          else if transactions_left auth = 0 \<or> bytes_left auth < n then Err QuotaExhausted
          else Ok (s\<lparr>authorizations := (authorizations s)(account \<mapsto>
                 auth\<lparr>transactions_left := transactions_left auth - 1, bytes_left := bytes_left auth - n\<rparr>)\<rparr>))"

definition check_fault :: "bulletin_state \<Rightarrow> hash \<Rightarrow> (bulletin_error, unit) outcome" where
  "check_fault s h =
     (case faults s h of
        Some FaultMissing \<Rightarrow> Err Missing
      | Some FaultCorrupt \<Rightarrow> Err Corrupt
      | Some FaultTimeout \<Rightarrow> Err Timeout
      | None \<Rightarrow> Ok ())"

section \<open>The store\<close>

text \<open>The first critical section of a store: the quota, the location and the index entry.\<close>

definition store_reserve ::
    "bulletin_env \<Rightarrow> account \<Rightarrow> cid_config \<Rightarrow> bytes \<Rightarrow> bulletin_state
     \<Rightarrow> (bulletin_error, storage_receipt \<times> bool \<times> bulletin_state) outcome" where
  "store_reserve E account config data s =
     bind_res (cid_for E config data) (\<lambda>(content_hash, cid).
     ensure (length cid \<le> 128) (InvalidCid ''CID exceeds the protocol bound'') (
     bind_res (check_authorization account (of_nat (length data)) s) (\<lambda>s.
     let location = \<lparr>sl_block_number = bul_block_number s, sl_transaction_index = next_index s\<rparr>;
         receipt = \<lparr>sr_content = \<lparr>cr_cid_v1 = cid, cr_content_hash = content_hash, cr_size = of_nat (length data)\<rparr>,
                    sr_location = location,
                    sr_retention_until = saturating_add (bul_block_number s) (retention_period E)\<rparr>;
         should_write = (entries s content_hash = None)
     in Ok (receipt, should_write,
            s\<lparr>next_index := saturating_add (next_index s) 1,
              locations := (locations s)((sl_block_number location, sl_transaction_index location) \<mapsto> content_hash),
              entries := (entries s)(content_hash \<mapsto> receipt)\<rparr>))))"

text \<open>The second critical section, which takes the index entry back when the blob was not written.\<close>

definition store_undo :: "storage_receipt \<Rightarrow> bulletin_state \<Rightarrow> bulletin_state" where
  "store_undo receipt s =
     s\<lparr>entries := (entries s)(cr_content_hash (sr_content receipt) := None),
       locations := (locations s)((sl_block_number (sr_location receipt),
                                   sl_transaction_index (sr_location receipt)) := None)\<rparr>"

text \<open>The blob write between the two.\<close>

definition store_write ::
    "bulletin_io \<Rightarrow> bytes \<Rightarrow> storage_receipt \<Rightarrow> bool \<Rightarrow> bulletin_state
     \<Rightarrow> (bulletin_error, storage_receipt) outcome \<times> bulletin_state" where
  "store_write io data receipt should_write s =
     (if should_write then
        case write_blob_atomic io (cr_content_hash (sr_content receipt)) data s of
          Ok s \<Rightarrow> (Ok receipt, s)
        | Err e \<Rightarrow> (Err e, store_undo receipt s)
        | Panic \<Rightarrow> (Panic, s)
      else (Ok receipt, s))"

definition store_with_cid_config ::
    "bulletin_env \<Rightarrow> bulletin_io \<Rightarrow> account \<Rightarrow> cid_config \<Rightarrow> bytes \<Rightarrow> bulletin_state
     \<Rightarrow> (bulletin_error, storage_receipt) outcome \<times> bulletin_state" where
  "store_with_cid_config E io account config data s =
     (case store_reserve E account config data s of
        Ok (receipt, should_write, s) \<Rightarrow> store_write io data receipt should_write s
      | Err e \<Rightarrow> (Err e, s)
      | Panic \<Rightarrow> (Panic, s))"

definition bulletin_store ::
    "bulletin_env \<Rightarrow> bulletin_io \<Rightarrow> account \<Rightarrow> bytes \<Rightarrow> bulletin_state
     \<Rightarrow> (bulletin_error, storage_receipt) outcome \<times> bulletin_state" where
  "bulletin_store E io account data s = store_with_cid_config E io account default_cid_config data s"

text \<open>A fetch looks into the index under the mutex and reads the blob after releasing it.\<close>

definition fetch_check :: "content_ref \<Rightarrow> bulletin_state \<Rightarrow> (bulletin_error, unit) outcome" where
  "fetch_check content s =
     bind_res (check_fault s (cr_content_hash content)) (\<lambda>_.
     ok_or (entries s (cr_content_hash content)) Missing (\<lambda>entry.
     if bul_block_number s \<ge> sr_retention_until entry then Err Expired else Ok ()))"

definition fetch_read ::
    "bulletin_env \<Rightarrow> bulletin_io \<Rightarrow> content_ref \<Rightarrow> bulletin_state \<Rightarrow> (bulletin_error, bytes) outcome" where
  "fetch_read E io content s =
     bind_res (read_blob io (cr_content_hash content) s) (\<lambda>data.
     bind_res (cid_for E default_cid_config data) (\<lambda>(h, cid).
     if h \<noteq> cr_content_hash content \<or> of_nat (length data) \<noteq> cr_size content \<or> cid \<noteq> cr_cid_v1 content
     then Err Corrupt else Ok data))"

definition bulletin_fetch ::
    "bulletin_env \<Rightarrow> bulletin_io \<Rightarrow> content_ref \<Rightarrow> bulletin_state \<Rightarrow> (bulletin_error, bytes) outcome" where
  "bulletin_fetch E io content s = bind_res (fetch_check content s) (\<lambda>_. fetch_read E io content s)"

definition bulletin_renew ::
    "bulletin_env \<Rightarrow> account \<Rightarrow> renewal_ref \<Rightarrow> bulletin_state
     \<Rightarrow> (bulletin_error, storage_receipt) outcome \<times> bulletin_state" where
  "bulletin_renew E account reference s =
     (case check_authorization account 0 s of
        Err e \<Rightarrow> (Err e, s)
      | Panic \<Rightarrow> (Panic, s)
      | Ok s \<Rightarrow>
          (case locate_hash s reference of
             None \<Rightarrow> (Err Missing, s)
           | Some h \<Rightarrow>
               let index = next_index s; s = s\<lparr>next_index := saturating_add (next_index s) 1\<rparr> in
               (case entries s h of
                  None \<Rightarrow> (Err Missing, s)
                | Some entry \<Rightarrow>
                    let receipt = entry\<lparr>
                          sr_location := \<lparr>sl_block_number = bul_block_number s, sl_transaction_index = index\<rparr>,
                          sr_retention_until := saturating_add (bul_block_number s) (retention_period E)\<rparr>
                    in (Ok receipt, s\<lparr>entries := (entries s)(h \<mapsto> receipt),
                                      locations := (locations s)((bul_block_number s, index) \<mapsto> h)\<rparr>))))"

definition bulletin_status :: "content_ref \<Rightarrow> bulletin_state \<Rightarrow> content_status" where
  "bulletin_status content s =
     (if faults s (cr_content_hash content) = Some FaultMissing then StatusMissing
      else case entries s (cr_content_hash content) of
             None \<Rightarrow> StatusMissing
           | Some entry \<Rightarrow>
               if bul_block_number s \<ge> sr_retention_until entry then StatusExpired
               else Available (sr_retention_until entry))"

section \<open>Runs\<close>

datatype bulletin_op =
    BStore bulletin_io account cid_config bytes
  | BRenew account renewal_ref
  | BSetBlock block_number
  | BAdvance block_number
  | BAuthorize account u32 u64 block_number
  | BInject hash fault
  | BClear hash

fun bulletin_apply ::
    "bulletin_env \<Rightarrow> bulletin_op \<Rightarrow> bulletin_state
     \<Rightarrow> (bulletin_error, storage_receipt) outcome option \<times> bulletin_state" where
  "bulletin_apply E (BStore io account config data) s = apfst Some (store_with_cid_config E io account config data s)"
| "bulletin_apply E (BRenew account reference) s = apfst Some (bulletin_renew E account reference s)"
| "bulletin_apply E (BSetBlock n) s = (None, set_block_number n s)"
| "bulletin_apply E (BAdvance n) s = (None, advance_blocks n s)"
| "bulletin_apply E (BAuthorize account transactions n expires) s =
     (None, bulletin_authorize account transactions n expires s)"
| "bulletin_apply E (BInject h f) s = (None, inject_fault h f s)"
| "bulletin_apply E (BClear h) s = (None, clear_fault h s)"

section \<open>Threads\<close>

text \<open>
  Concurrent calls share the store.  A store that has reserved its entry and still has to write the
  blob, or to undo the reservation after a failed write, is in flight; every step below is one
  critical section or one access to the file system.  A step returns what it answers to its caller,
  if it ends a call.
\<close>

datatype store_flight =
    Writing bytes storage_receipt
  | Undoing bulletin_error storage_receipt

record bulletin_threads =
  shared :: bulletin_state
  in_flight :: "nat \<rightharpoonup> store_flight"

definition threads_new :: "(hash \<rightharpoonup> bytes) \<Rightarrow> bulletin_threads" where
  "threads_new disk = \<lparr>shared = bulletin_new\<lparr>blobs := disk\<rparr>, in_flight = Map.empty\<rparr>"

datatype thread_op =
    ReserveStep nat account cid_config bytes
  | WriteStep nat bulletin_io
  | UndoStep nat
  | CallStep bulletin_op

fun thread_apply ::
    "bulletin_env \<Rightarrow> thread_op \<Rightarrow> bulletin_threads
     \<Rightarrow> (bulletin_error, storage_receipt) outcome option \<times> bulletin_threads" where
  "thread_apply E (ReserveStep tid account config data) c =
     (if in_flight c tid \<noteq> None then (None, c)
      else case store_reserve E account config data (shared c) of
             Ok (receipt, should_write, s) \<Rightarrow>
               if should_write
               then (None, c\<lparr>shared := s, in_flight := (in_flight c)(tid \<mapsto> Writing data receipt)\<rparr>)
               else (Some (Ok receipt), c\<lparr>shared := s\<rparr>)
           | Err e \<Rightarrow> (Some (Err e), c)
           | Panic \<Rightarrow> (Some Panic, c))"
| "thread_apply E (WriteStep tid io) c =
     (case in_flight c tid of
        Some (Writing data receipt) \<Rightarrow>
          (case write_blob_atomic io (cr_content_hash (sr_content receipt)) data (shared c) of
             Ok s \<Rightarrow> (Some (Ok receipt), c\<lparr>shared := s, in_flight := (in_flight c)(tid := None)\<rparr>)
           | Err e \<Rightarrow> (None, c\<lparr>in_flight := (in_flight c)(tid \<mapsto> Undoing e receipt)\<rparr>)
           | Panic \<Rightarrow> (Some Panic, c))
      | _ \<Rightarrow> (None, c))"
| "thread_apply E (UndoStep tid) c =
     (case in_flight c tid of
        Some (Undoing e receipt) \<Rightarrow>
          (Some (Err e), c\<lparr>shared := store_undo receipt (shared c), in_flight := (in_flight c)(tid := None)\<rparr>)
      | _ \<Rightarrow> (None, c))"
| "thread_apply E (CallStep op) c =
     (case op of
        BStore io account config data \<Rightarrow> (None, c)
      | _ \<Rightarrow> (case bulletin_apply E op (shared c) of (res, s) \<Rightarrow> (res, c\<lparr>shared := s\<rparr>)))"

definition thread_step :: "bulletin_env \<Rightarrow> bulletin_threads \<Rightarrow> bulletin_threads \<Rightarrow> bool" where
  "thread_step E c d \<longleftrightarrow> (\<exists>op. snd (thread_apply E op c) = d)"

text \<open>The content a step stores when it answers, and the threads that are at work on a content.\<close>

fun stored_by :: "thread_op \<Rightarrow> bulletin_threads \<Rightarrow> bytes option" where
  "stored_by (ReserveStep tid account config data) c = Some data"
| "stored_by (WriteStep tid io) c =
     (case in_flight c tid of Some (Writing data receipt) \<Rightarrow> Some data | _ \<Rightarrow> None)"
| "stored_by _ c = None"

fun flight_hash :: "store_flight \<Rightarrow> hash" where
  "flight_hash (Writing data receipt) = cr_content_hash (sr_content receipt)"
| "flight_hash (Undoing e receipt) = cr_content_hash (sr_content receipt)"

definition writer :: "bulletin_threads \<Rightarrow> hash \<Rightarrow> nat \<Rightarrow> bool" where
  "writer c h tid \<longleftrightarrow> map_option flight_hash (in_flight c tid) = Some h"

text \<open>
  A content has at most one thread at work on it, and has an index entry meanwhile; with no thread
  at work, an indexed content has its blob.  What is being written is what the receipt names.
\<close>

definition names_content :: "bulletin_env \<Rightarrow> bytes \<Rightarrow> storage_receipt \<Rightarrow> bool" where
  "names_content E data r \<longleftrightarrow> (\<exists>cid. cid_for E default_cid_config data = Ok (b_blake2_256 E data, cid)
     \<and> sr_content r = \<lparr>cr_cid_v1 = cid, cr_content_hash = b_blake2_256 E data, cr_size = of_nat (length data)\<rparr>)"

definition threads_inv :: "bulletin_env \<Rightarrow> bulletin_threads \<Rightarrow> bool" where
  "threads_inv E c \<longleftrightarrow>
     (\<forall>h t t'. writer c h t \<and> writer c h t' \<longrightarrow> t = t')
     \<and> (\<forall>h t. writer c h t \<longrightarrow> entries (shared c) h \<noteq> None)
     \<and> (\<forall>h. entries (shared c) h \<noteq> None \<and> (\<forall>t. \<not> writer c h t) \<longrightarrow> blobs (shared c) h \<noteq> None)
     \<and> (\<forall>t data r. in_flight c t = Some (Writing data r) \<longrightarrow> names_content E data r)"

lemmas bulletin_admin_defs = set_block_number_def advance_blocks_def bulletin_authorize_def
  inject_fault_def clear_fault_def

lemma check_authorization_Ok:
  "check_authorization account n s = Ok t \<longleftrightarrow> (\<exists>auth. authorizations s account = Some auth
     \<and> bul_block_number s < expires_at auth \<and> transactions_left auth \<noteq> 0 \<and> n \<le> bytes_left auth
     \<and> t = s\<lparr>authorizations := (authorizations s)(account \<mapsto>
               auth\<lparr>transactions_left := transactions_left auth - 1, bytes_left := bytes_left auth - n\<rparr>)\<rparr>)"
  by (auto simp: check_authorization_def not_le not_less split: option.splits)

lemma cid_for_Ok:
  "cid_for E config data = Ok (h, cid) \<longleftrightarrow> config = default_cid_config \<and> h = b_blake2_256 E data
     \<and> wrap_cid_v1 E RAW_CODEC BLAKE2B_256_MULTIHASH h = Ok cid"
  by (cases config) (auto simp: cid_for_def default_cid_config_def RAW_CODEC_def Let_def split: outcome.splits)

lemma store_reserve_Ok:
  assumes "store_reserve E account config data s = Ok (r, w, t)"
  obtains cid s' where "cid_for E config data = Ok (b_blake2_256 E data, cid)"
    "check_authorization account (of_nat (length data)) s = Ok s'"
    "sr_content r = \<lparr>cr_cid_v1 = cid, cr_content_hash = b_blake2_256 E data, cr_size = of_nat (length data)\<rparr>"
    "w \<longleftrightarrow> entries s (b_blake2_256 E data) = None"
    "entries t = (entries s)(b_blake2_256 E data \<mapsto> r)" "blobs t = blobs s" "faults t = faults s"
    "authorizations t = authorizations s'"
proof -
  from assms obtain h cid s' where c: "cid_for E config data = Ok (h, cid)"
    and a: "check_authorization account (of_nat (length data)) s = Ok s'"
    and r: "sr_content r = \<lparr>cr_cid_v1 = cid, cr_content_hash = h, cr_size = of_nat (length data)\<rparr>"
      "w \<longleftrightarrow> entries s' h = None" "entries t = (entries s')(h \<mapsto> r)" "blobs t = blobs s'" "faults t = faults s'"
      "authorizations t = authorizations s'"
    by (auto simp: store_reserve_def bind_res_eq_Ok ensure_eq_Ok Let_def)
  moreover have "h = b_blake2_256 E data" using c by (simp add: cid_for_Ok)
  ultimately show thesis using that by (auto simp: check_authorization_Ok)
qed

lemma store_write_Ok: "store_write io data r w s = (Ok q, t) \<Longrightarrow> q = r"
  by (auto simp: store_write_def split: if_splits outcome.splits)

lemma store_Ok:
  assumes "store_with_cid_config E io account config data s = (Ok r, t)"
  obtains w s' where "store_reserve E account config data s = Ok (r, w, s')" "store_write io data r w s' = (Ok r, t)"
proof (cases "store_reserve E account config data s")
  case (Ok x)
  obtain q w s' where "x = (q, w, s')" by (cases x)
  moreover have "store_write io data q w s' = (Ok r, t)"
    using assms Ok calculation by (simp add: store_with_cid_config_def)
  ultimately show ?thesis using that Ok store_write_Ok by blast
qed (use assms in \<open>auto simp: store_with_cid_config_def\<close>)

lemma renew_effect:
  assumes "bulletin_renew E account reference s = (res, t)"
  shows "blobs t = blobs s \<and> (entries t = entries s \<or> (\<exists>h r. entries s h \<noteq> None \<and> entries t = (entries s)(h \<mapsto> r)))"
proof (cases "check_authorization account 0 s")
  case (Ok s')
  then have s': "entries s' = entries s" "blobs s' = blobs s"
    by (auto simp: check_authorization_Ok)
  show ?thesis
  proof (cases "Option.bind (locate_hash s' reference) (entries s)")
    case None
    then show ?thesis
      using assms Ok s' by (auto simp: bulletin_renew_def Let_def bind_eq_None_conv split: option.splits)
  next
    case (Some entry)
    then obtain h where h: "locate_hash s' reference = Some h" "entries s h = Some entry"
      by (auto simp: bind_eq_Some_conv)
    then have "blobs t = blobs s" "\<exists>r. entries t = (entries s)(h \<mapsto> r)"
      using assms Ok s' by (auto simp: bulletin_renew_def Let_def)
    then show ?thesis using h(2) by blast
  qed
qed (use assms in \<open>auto simp: bulletin_renew_def\<close>)

lemma store_reserve_names:
  assumes "store_reserve E account config data s = Ok (r, w, t)"
  shows "names_content E data r"
  using assms by (rule store_reserve_Ok) (auto simp: names_content_def cid_for_Ok)

text \<open>One thread on its own carries out the whole operation.\<close>

lemma thread_alone:
  assumes "in_flight c tid = None"
  shows "store_with_cid_config E io account config data (shared c) =
    (let (a, c1) = thread_apply E (ReserveStep tid account config data) c;
         (b, c2) = thread_apply E (WriteStep tid io) c1;
         (e, c3) = thread_apply E (UndoStep tid) c2
     in (case (a, b) of (Some x, _) \<Rightarrow> x | (None, Some x) \<Rightarrow> x | (None, None) \<Rightarrow> the e, shared c3))"
  using assms
  by (auto simp: store_with_cid_config_def store_write_def write_blob_atomic_def split: outcome.split option.split)

text \<open>What one step does to the index, the blobs and the threads.\<close>

lemma thread_step_cases [consumes 1, case_names idle reserved written failed undone]:
  assumes "thread_step E c d"
  obtains
    "in_flight d = in_flight c" "blobs (shared d) = blobs (shared c)"
      "entries (shared d) = entries (shared c)
       \<or> (\<exists>h r. entries (shared c) h \<noteq> None \<and> entries (shared d) = (entries (shared c))(h \<mapsto> r))"
  | tid data r where "in_flight c tid = None" "in_flight d = (in_flight c)(tid \<mapsto> Writing data r)"
      "names_content E data r" "entries (shared c) (b_blake2_256 E data) = None"
      "entries (shared d) = (entries (shared c))(b_blake2_256 E data \<mapsto> r)" "blobs (shared d) = blobs (shared c)"
  | tid data r where "in_flight c tid = Some (Writing data r)" "in_flight d = (in_flight c)(tid := None)"
      "entries (shared d) = entries (shared c)"
      "blobs (shared d) = (case blobs (shared c) (cr_content_hash (sr_content r)) of
         None \<Rightarrow> (blobs (shared c))(cr_content_hash (sr_content r) \<mapsto> data) | Some _ \<Rightarrow> blobs (shared c))"
  | tid data r e where "in_flight c tid = Some (Writing data r)" "shared d = shared c"
      "in_flight d = (in_flight c)(tid \<mapsto> Undoing e r)"
  | tid e r where "in_flight c tid = Some (Undoing e r)" "in_flight d = (in_flight c)(tid := None)"
      "shared d = store_undo r (shared c)"
proof -
  obtain op where op: "snd (thread_apply E op c) = d" using assms by (auto simp: thread_step_def)
  show thesis
  proof (cases op)
    case (ReserveStep tid account config data)
    show thesis
    proof (cases "\<exists>r w s. in_flight c tid = None \<and> store_reserve E account config data (shared c) = Ok (r, w, s)")
      case True
      then obtain r w s where free: "in_flight c tid = None"
        and res: "store_reserve E account config data (shared c) = Ok (r, w, s)" by blast
      from res obtain w: "w \<longleftrightarrow> entries (shared c) (b_blake2_256 E data) = None"
        and s: "entries s = (entries (shared c))(b_blake2_256 E data \<mapsto> r)" "blobs s = blobs (shared c)"
        by (rule store_reserve_Ok)
      show thesis
      proof (cases w)
        case True
        then show thesis
          using op ReserveStep free res store_reserve_names [OF res] w s that(2) by auto
      next
        case False
        then have "d = c\<lparr>shared := s\<rparr>" using op ReserveStep free res by simp
        with False show thesis using w s by (intro that(1)) auto
      qed
    next
      case False
      then have "d = c" using op ReserveStep by (auto split: outcome.splits if_splits)
      then show thesis using that(1) by simp
    qed
  next
    case (WriteStep tid io)
    show thesis
    proof (cases "in_flight c tid")
      case (Some f)
      show thesis
      proof (cases f)
        case (Writing data r)
        show thesis
        proof (cases "write_blob_atomic io (cr_content_hash (sr_content r)) data (shared c)")
          case (Ok s)
          then show thesis
            using op WriteStep Some Writing
            by (intro that(3) [of tid data r]) (auto simp: write_blob_atomic_def split: option.splits if_splits)
        next
          case (Err e)
          then show thesis
            using op WriteStep Some Writing by (intro that(4) [of tid data r e]) auto
        qed (auto simp: write_blob_atomic_def split: option.splits if_splits)
      qed (use op WriteStep Some that(1) in simp)
    qed (use op WriteStep that(1) in simp)
  next
    case (UndoStep tid)
    show thesis
    proof (cases "in_flight c tid")
      case (Some f)
      show thesis
      proof (cases f)
        case (Writing data r)
        then have "d = c" using op UndoStep Some by simp
        then show thesis using that(1) by simp
      next
        case (Undoing e r)
        then show thesis using op UndoStep Some by (intro that(5) [of tid e r]) auto
      qed
    qed (use op UndoStep that(1) in simp)
  next
    case (CallStep call)
    show thesis
    proof (cases call)
      case (BRenew account reference)
      obtain res s where rn: "bulletin_renew E account reference (shared c) = (res, s)"
        by (cases "bulletin_renew E account reference (shared c)")
      then have "d = c\<lparr>shared := s\<rparr>" using op CallStep BRenew by simp
      then show thesis using renew_effect [OF rn] that(1) by simp
    qed (use op CallStep that(1) in \<open>auto simp: bulletin_admin_defs\<close>)
  qed
qed

lemma writer_cong: "in_flight c = in_flight d \<Longrightarrow> writer c = writer d"
  by (simp add: writer_def fun_eq_iff)

lemma writer_flight:
  "in_flight d = (in_flight c)(tid := f) \<Longrightarrow>
     writer d h t \<longleftrightarrow> (if t = tid then map_option flight_hash f = Some h else writer c h t)"
  by (simp add: writer_def)

lemma writer_failed:
  "in_flight c tid = Some (Writing data r) \<Longrightarrow> in_flight d = (in_flight c)(tid \<mapsto> Undoing e r) \<Longrightarrow> writer d = writer c"
  by (auto simp: fun_eq_iff writer_def)

lemma names_content_hash: "names_content E data r \<Longrightarrow> cr_content_hash (sr_content r) = b_blake2_256 E data"
  by (auto simp: names_content_def)

lemma threads_invI:
  assumes "\<And>h t t'. writer c h t \<Longrightarrow> writer c h t' \<Longrightarrow> t = t'"
    and "\<And>h t. writer c h t \<Longrightarrow> entries (shared c) h \<noteq> None"
    and "\<And>h. entries (shared c) h \<noteq> None \<Longrightarrow> (\<And>t. \<not> writer c h t) \<Longrightarrow> blobs (shared c) h \<noteq> None"
    and "\<And>t data r. in_flight c t = Some (Writing data r) \<Longrightarrow> names_content E data r"
  shows "threads_inv E c"
  using assms unfolding threads_inv_def by blast

lemma threads_invD:
  assumes "threads_inv E c"
  shows "writer c h t \<Longrightarrow> writer c h t' \<Longrightarrow> t = t'"
    and "writer c h t \<Longrightarrow> entries (shared c) h \<noteq> None"
    and "entries (shared c) h \<noteq> None \<Longrightarrow> (\<And>t. \<not> writer c h t) \<Longrightarrow> blobs (shared c) h \<noteq> None"
    and "in_flight c t = Some (Writing data r) \<Longrightarrow> names_content E data r"
  using assms unfolding threads_inv_def by blast+

lemma threads_inv_frame:
  assumes "threads_inv E c" "writer d = writer c" "dom (entries (shared d)) = dom (entries (shared c))"
    "blobs (shared d) = blobs (shared c)"
    "\<And>t data r. in_flight d t = Some (Writing data r) \<Longrightarrow> in_flight c t = Some (Writing data r)"
  shows "threads_inv E d"
proof (rule threads_invI)
  have e: "entries (shared d) h \<noteq> None \<longleftrightarrow> entries (shared c) h \<noteq> None" for h using assms(3) by (auto simp: dom_def)
  show "entries (shared d) h \<noteq> None" if "writer d h t" for h t
    using threads_invD(2) [OF assms(1)] that assms(2) e by simp
  show "blobs (shared d) h \<noteq> None" if "entries (shared d) h \<noteq> None" "\<And>t. \<not> writer d h t" for h
    using threads_invD(3) [OF assms(1), of h] that assms(2,4) e by simp
  show "t = t'" if "writer d h t" "writer d h t'" for h t t'
    using threads_invD(1) [OF assms(1)] that assms(2) by simp
  show "names_content E data r" if "in_flight d t = Some (Writing data r)" for t data r
    using threads_invD(4) [OF assms(1)] assms(5) that by blast
qed

lemma threads_step_inv:
  assumes "thread_step E c d" "threads_inv E c"
  shows "threads_inv E d"
  using assms(1)
proof (cases rule: thread_step_cases)
  case idle
  then show ?thesis by (intro threads_inv_frame [OF assms(2)] writer_cong) (auto split: if_splits)
next
  case (reserved tid data r)
  let ?h = "b_blake2_256 E data"
  have none: "\<not> writer c ?h t" "\<not> writer c h tid" for h t
    using threads_invD(2) [OF assms(2)] reserved(4) reserved(1) by (blast, simp add: writer_def)
  have w: "writer d h t \<longleftrightarrow> t = tid \<and> h = ?h \<or> writer c h t" for h t
    using none(2) by (auto simp: writer_flight [OF reserved(2)] names_content_hash [OF reserved(3)])
  show ?thesis
  proof (rule threads_invI)
    show "t = t'" if "writer d h t" "writer d h t'" for h t t'
      using that none threads_invD(1) [OF assms(2)] unfolding w by blast
    show "entries (shared d) h \<noteq> None" if "writer d h t" for h t
      using that threads_invD(2) [OF assms(2)] reserved(5) unfolding w by auto
    show "blobs (shared d) h \<noteq> None" if "entries (shared d) h \<noteq> None" "\<And>t. \<not> writer d h t" for h
    proof -
      have "h \<noteq> ?h" "\<And>t. \<not> writer c h t" using that(2) unfolding w by blast+
      then show ?thesis using that(1) threads_invD(3) [OF assms(2)] reserved(5,6) by simp
    qed
  qed (use reserved(2,3) threads_invD(4) [OF assms(2)] in \<open>auto split: if_splits\<close>)
next
  case (written tid data r)
  let ?h = "cr_content_hash (sr_content r)"
  have w: "writer d h t \<longleftrightarrow> t \<noteq> tid \<and> writer c h t" for h t
    by (simp add: writer_flight [OF written(2)])
  have mine: "writer c h tid \<Longrightarrow> h = ?h" for h using written(1) by (simp add: writer_def)
  show ?thesis
  proof (rule threads_invI)
    show "blobs (shared d) h \<noteq> None" if "entries (shared d) h \<noteq> None" "\<And>t. \<not> writer d h t" for h
    proof (cases "h = ?h")
      case False
      then have "\<not> writer c h t" for t
        using that(2) [of t] mine unfolding w by blast
      then have "blobs (shared c) h \<noteq> None" using that(1) threads_invD(3) [OF assms(2)] written(3) by simp
      then show ?thesis using written(4) by (auto split: option.splits)
    qed (use written(4) in \<open>auto split: option.splits\<close>)
  qed (use w threads_invD(1,2,4) [OF assms(2)] written(2,3) in \<open>auto split: if_splits\<close>)
next
  case (failed tid data r e)
  have "writer d = writer c" using writer_failed failed(1,3) .
  then show ?thesis
    using failed by (intro threads_inv_frame [OF assms(2)]) (auto split: if_splits)
next
  case (undone tid e r)
  let ?h = "cr_content_hash (sr_content r)"
  have me: "writer c ?h tid" using undone(1) by (simp add: writer_def)
  have w: "writer d h t \<longleftrightarrow> t \<noteq> tid \<and> writer c h t" for h t
    by (simp add: writer_flight [OF undone(2)])
  have mine: "writer c h tid \<Longrightarrow> h = ?h" for h using undone(1) by (simp add: writer_def)
  show ?thesis
  proof (rule threads_invI)
    show "entries (shared d) h \<noteq> None" if "writer d h t" for h t
    proof -
      have "h \<noteq> ?h" using that me threads_invD(1) [OF assms(2)] unfolding w by blast
      then show ?thesis using that threads_invD(2) [OF assms(2), of h t] undone(3) by (simp add: w store_undo_def)
    qed
    show "blobs (shared d) h \<noteq> None" if "entries (shared d) h \<noteq> None" "\<And>t. \<not> writer d h t" for h
    proof -
      have "h \<noteq> ?h" using that(1) undone(3) by (auto simp: store_undo_def)
      then have "\<not> writer c h t" for t
        using that(2) [of t] mine unfolding w by blast
      then show ?thesis using that(1) threads_invD(3) [OF assms(2)] undone(3) by (auto simp: store_undo_def split: if_splits)
    qed
  qed (use w threads_invD(1,4) [OF assms(2)] undone(2) in \<open>auto split: if_splits\<close>)
qed

interpretation threads: write_once "thread_step E" "threads_inv E" "\<lambda>c. blobs (shared c)" for E
proof unfold_locales
  show "blobs (shared d) k = Some v" if "thread_step E c d" "blobs (shared c) k = Some v" for c d k v
    using that(1)
  proof (cases rule: thread_step_cases)
    case (written tid data r)
    then show ?thesis using that(2) by (auto split: option.splits)
  qed (use that(2) in \<open>auto simp: store_undo_def\<close>)
qed (rule threads_step_inv)

text \<open>An indexed content with its blob and no thread at work on it stays that way.\<close>

definition settled :: "bulletin_threads \<Rightarrow> hash \<Rightarrow> bytes \<Rightarrow> bool" where
  "settled c h data \<longleftrightarrow> entries (shared c) h \<noteq> None \<and> blobs (shared c) h = Some data \<and> (\<forall>t. \<not> writer c h t)"

lemma settled_step:
  assumes "thread_step E c d" "settled c h data"
  shows "settled d h data"
  using assms(1)
proof (cases rule: thread_step_cases)
  case idle
  then have "writer d = writer c" by (intro writer_cong) simp
  then show ?thesis using assms(2) idle by (auto simp: settled_def)
next
  case (reserved tid b r)
  then show ?thesis
    using assms(2) by (auto simp: settled_def writer_flight [OF reserved(2)] names_content_hash)
next
  case (written tid b r)
  then show ?thesis
    using assms(2) by (auto simp: settled_def writer_flight [OF written(2)] split: option.splits)
next
  case (failed tid b r e)
  have "writer d = writer c" using writer_failed failed(1,3) .
  then show ?thesis using assms(2) failed by (simp add: settled_def)
next
  case (undone tid e r)
  then have "writer c (cr_content_hash (sr_content r)) tid" by (simp add: writer_def)
  then have "h \<noteq> cr_content_hash (sr_content r)"
    using assms(2) by (auto simp: settled_def)
  then show ?thesis
    using assms(2) undone(3) by (auto simp: settled_def writer_flight [OF undone(2)] store_undo_def)
qed

lemma settled_steps: "(thread_step E)\<^sup>*\<^sup>* c d \<Longrightarrow> settled c h data \<Longrightarrow> settled d h data"
  by (induction rule: rtranclp_induct) (auto intro: settled_step)

lemma threads_new_inv: "threads_inv E (threads_new disk)"
  by (simp add: threads_inv_def threads_new_def writer_def bulletin_new_def)

text \<open>A store that answers leaves a settled content, if no other thread is at work on it.\<close>

lemma answered_settled:
  assumes "threads_inv E c" "thread_apply E op c = (Some (Ok r), d)" "stored_by op c = Some data"
    and "\<And>b. blobs (shared c) (b_blake2_256 E data) = Some b \<Longrightarrow> b = data"
    and "(\<exists>tid io. op = WriteStep tid io) \<or> (\<forall>t. \<not> writer c (b_blake2_256 E data) t)"
  shows "settled d (b_blake2_256 E data) data \<and> names_content E data r"
proof (cases op)
  case (ReserveStep tid account config data')
  let ?h = "b_blake2_256 E data"
  have "data' = data" using assms(3) ReserveStep by simp
  then obtain s where res: "store_reserve E account config data (shared c) = Ok (r, False, s)"
    and d: "d = c\<lparr>shared := s\<rparr>"
    using assms(2) unfolding ReserveStep thread_apply.simps by (auto split: if_splits outcome.splits)
  have free: "\<And>t. \<not> writer c ?h t" using assms(5) ReserveStep by blast
  have w: "writer d = writer c" by (rule writer_cong) (simp add: d)
  from res show ?thesis
  proof (rule store_reserve_Ok)
    assume en: "False \<longleftrightarrow> entries (shared c) ?h = None" "entries s = (entries (shared c))(?h \<mapsto> r)"
      and bl: "blobs s = blobs (shared c)"
    then have "blobs (shared c) ?h \<noteq> None" using threads_invD(3) [OF assms(1) _ free] by blast
    then have "blobs s ?h = Some data" using assms(4) bl by auto
    then show ?thesis
      unfolding settled_def w using en(2) free store_reserve_names [OF res] d by simp
  qed
next
  case (WriteStep tid io)
  let ?h = "b_blake2_256 E data"
  obtain q where fl: "in_flight c tid = Some (Writing data q)"
    using assms(3) unfolding WriteStep by (auto split: option.splits store_flight.splits)
  then have nc: "names_content E data q" using threads_invD(4) [OF assms(1)] by blast
  then have h: "cr_content_hash (sr_content q) = ?h" by (rule names_content_hash)
  then have wr: "writer c ?h tid" using fl by (simp add: writer_def)
  then have en: "entries (shared c) ?h \<noteq> None" using threads_invD(2) [OF assms(1)] by blast
  obtain s where w: "write_blob_atomic io ?h data (shared c) = Ok s" and q: "q = r"
    and d: "d = c\<lparr>shared := s, in_flight := (in_flight c)(tid := None)\<rparr>"
    using assms(2) fl h unfolding WriteStep thread_apply.simps by (auto split: outcome.splits)
  have "entries s = entries (shared c)" "blobs s ?h = Some data"
    using w assms(4) by (auto simp: write_blob_atomic_def split: if_splits option.splits)
  moreover have "writer d ?h t \<longleftrightarrow> t \<noteq> tid \<and> writer c ?h t" for t
    by (simp add: d writer_def)
  then have "\<not> writer d ?h t" for t
    using threads_invD(1) [OF assms(1) wr] by blast
  ultimately show ?thesis unfolding settled_def using nc en d q by simp
qed (use assms(3) in simp_all)

section \<open>Properties\<close>

text \<open>
  C29. Content stored once can be fetched until it expires, also when other calls run concurrently.
  In any interleaving of the critical sections and file accesses of concurrent calls, consider a
  store that answers with a receipt, having written the blob itself or at a time when no other store
  of the same content is still in flight.  From then on, whatever steps follow, the content stays
  indexed, and a fetch by that receipt, whose index check and blob read may lie apart, returns
  exactly the stored bytes unless a fault is injected for the content, its retention has run out,
  or the file system fails.  The stored bytes are assumed not to collide with a blob that was there
  before.
\<close>

theorem store_fetch_roundtrip:
  assumes "(thread_step E)\<^sup>*\<^sup>* (threads_new disk) c"
    and "thread_apply E op c = (Some (Ok r), d)" "stored_by op c = Some data"
    and "(\<exists>tid io. op = WriteStep tid io) \<or> (\<forall>t. \<not> writer c (b_blake2_256 E data) t)"
    and "\<And>b. blobs (shared c) (b_blake2_256 E data) = Some b \<Longrightarrow> b = data"
    and "(thread_step E)\<^sup>*\<^sup>* d u" "(thread_step E)\<^sup>*\<^sup>* u v"
  shows "\<exists>entry. entries (shared u) (b_blake2_256 E data) = Some entry \<and>
     bind_res (fetch_check (sr_content r) (shared u)) (\<lambda>_. fetch_read E io (sr_content r) (shared v)) =
       (case faults (shared u) (b_blake2_256 E data) of
          Some FaultMissing \<Rightarrow> Err Missing | Some FaultCorrupt \<Rightarrow> Err Corrupt | Some FaultTimeout \<Rightarrow> Err Timeout
        | None \<Rightarrow> if bul_block_number (shared u) \<ge> sr_retention_until entry then Err Expired
                  else case read_failure io (b_blake2_256 E data) of Some e \<Rightarrow> Err (Io e) | None \<Rightarrow> Ok data)"
proof -
  let ?h = "b_blake2_256 E data"
  have "threads_inv E c" using threads.steps_inv [OF assms(1) threads_new_inv] .
  then have d: "settled d ?h data" and "names_content E data r"
    using answered_settled assms(2-5) by blast+
  then obtain cid where r: "cid_for E default_cid_config data = Ok (?h, cid)"
    "sr_content r = \<lparr>cr_cid_v1 = cid, cr_content_hash = ?h, cr_size = of_nat (length data)\<rparr>"
    by (auto simp: names_content_def)
  have "settled u ?h data" "settled v ?h data"
    using settled_steps d assms(6,7) by blast+
  then show ?thesis
    using r by (auto simp: settled_def fetch_check_def fetch_read_def check_fault_def read_blob_def
        split: option.split fault.split)
qed

definition ex_bul_env :: bulletin_env where
  "ex_bul_env = \<lparr>b_blake2_256 = (\<lambda>d. d), wrap_cid_v1 = (\<lambda>c m h. Ok (1 # h)), retention_period = 10\<rparr>"

lemma ex_bul_hash: "b_blake2_256 ex_bul_env d = d"
  by (simp add: ex_bul_env_def)

definition ex_bul_io :: bulletin_io where
  "ex_bul_io = \<lparr>write_failure = (\<lambda>_. None), read_failure = (\<lambda>_. None)\<rparr>"

definition ex_bul_state :: bulletin_state where
  "ex_bul_state = bulletin_authorize [1] 3 10 100 bulletin_new"

text \<open>
  Two threads store the same content: the second reserves while the first is still writing, the
  first writes and answers, and a block later a third store of the content is reserved.
\<close>

definition ex_bul_reserved :: bulletin_threads where
  "ex_bul_reserved = snd (thread_apply ex_bul_env (ReserveStep 1 [1] default_cid_config [7, 8])
     (snd (thread_apply ex_bul_env (ReserveStep 0 [1] default_cid_config [7, 8])
        (snd (thread_apply ex_bul_env (CallStep (BAuthorize [1] 3 10 100)) (threads_new Map.empty))))))"

definition ex_bul_stored :: "(bulletin_error, storage_receipt) outcome option \<times> bulletin_threads" where
  "ex_bul_stored = thread_apply ex_bul_env (WriteStep 0 ex_bul_io) ex_bul_reserved"

definition ex_bul_later :: bulletin_threads where
  "ex_bul_later = snd (thread_apply ex_bul_env (ReserveStep 2 [1] default_cid_config [7, 8])
     (snd (thread_apply ex_bul_env (CallStep (BAdvance 5)) (snd ex_bul_stored))))"

lemma thread_run_step: "(thread_step E)\<^sup>*\<^sup>* c d \<Longrightarrow> (thread_step E)\<^sup>*\<^sup>* c (snd (thread_apply E op d))"
  by (erule rtranclp.rtrancl_into_rtrancl) (auto simp: thread_step_def)

lemma ex_bul_runs:
  "(thread_step ex_bul_env)\<^sup>*\<^sup>* (threads_new Map.empty) ex_bul_reserved"
  "(thread_step ex_bul_env)\<^sup>*\<^sup>* (snd ex_bul_stored) ex_bul_later"
  unfolding ex_bul_reserved_def ex_bul_later_def by (intro thread_run_step rtranclp.rtrancl_refl)+

theorem store_fetch_roundtrip_witness:
  "bulletin_fetch ex_bul_env ex_bul_io (sr_content (the_ok (the (fst ex_bul_stored)))) (shared ex_bul_later) = Ok [7, 8]"
proof -
  let ?r = "the_ok (the (fst ex_bul_stored))" let ?u = "shared ex_bul_later"
  have "fst ex_bul_stored \<noteq> None \<and> is_ok (the (fst ex_bul_stored))" by code_simp
  then have ans: "thread_apply ex_bul_env (WriteStep 0 ex_bul_io) ex_bul_reserved = (Some (Ok ?r), snd ex_bul_stored)"
    using is_ok_eq unfolding ex_bul_stored_def [symmetric] by (metis option.collapse prod.collapse)
  have st: "stored_by (WriteStep 0 ex_bul_io) ex_bul_reserved = Some [7, 8]" by code_simp
  have "blobs (shared ex_bul_reserved) [7, 8] = None" by code_simp
  then have fresh: "blobs (shared ex_bul_reserved) (b_blake2_256 ex_bul_env [7, 8]) = Some b \<Longrightarrow> b = [7, 8]" for b
    by (simp add: ex_bul_hash)
  obtain entry where "entries ?u [7, 8] = Some entry" and f:
    "bulletin_fetch ex_bul_env ex_bul_io (sr_content ?r) ?u =
       (case faults ?u [7, 8] of
          Some FaultMissing \<Rightarrow> Err Missing | Some FaultCorrupt \<Rightarrow> Err Corrupt | Some FaultTimeout \<Rightarrow> Err Timeout
        | None \<Rightarrow> if bul_block_number ?u \<ge> sr_retention_until entry then Err Expired
                  else case read_failure ex_bul_io [7, 8] of Some e \<Rightarrow> Err (Io e) | None \<Rightarrow> Ok [7, 8])"
    using store_fetch_roundtrip [OF ex_bul_runs(1) ans st _ fresh ex_bul_runs(2) rtranclp.rtrancl_refl, of ex_bul_io]
    unfolding ex_bul_hash bulletin_fetch_def by blast
  moreover have "faults ?u [7, 8] = None \<and> \<not> bul_block_number ?u \<ge> sr_retention_until (the (entries ?u [7, 8]))" by code_simp
  ultimately show ?thesis by (simp add: ex_bul_io_def)
qed

text \<open>What an account has stored and how often it was served, along a sequence of operations.\<close>

fun bulletin_usage :: "bulletin_env \<Rightarrow> account \<Rightarrow> bulletin_op list \<Rightarrow> bulletin_state \<Rightarrow> nat \<times> nat" where
  "bulletin_usage E a [] s = (0, 0)"
| "bulletin_usage E a (op # ops) s =
     (let (res, t) = bulletin_apply E op s; (n, b) = bulletin_usage E a ops t in
      case (op, res) of
        (BStore io account config data, Some (Ok r)) \<Rightarrow>
          if account = a then (n + 1, b + unat (cr_size (sr_content r))) else (n, b)
      | (BRenew account reference, Some (Ok r)) \<Rightarrow> if account = a then (n + 1, b) else (n, b)
      | _ \<Rightarrow> (n, b))"

fun authorizes :: "account \<Rightarrow> bulletin_op \<Rightarrow> bool" where
  "authorizes a (BAuthorize account transactions n expires) \<longleftrightarrow> account = a"
| "authorizes a _ \<longleftrightarrow> False"

text \<open>The quota one operation takes from an account.\<close>

definition quota_left :: "account \<Rightarrow> bulletin_state \<Rightarrow> nat \<times> nat" where
  "quota_left a s = (case authorizations s a of
     None \<Rightarrow> (0, 0) | Some auth \<Rightarrow> (unat (transactions_left auth), unat (bytes_left auth)))"

lemma quota_left_check:
  assumes "check_authorization account n s = Ok t"
  shows "quota_left a s = (if a = account then (fst (quota_left a t) + 1, snd (quota_left a t) + unat n) else quota_left a t)"
  using assms by (auto simp: check_authorization_Ok quota_left_def unat_sub word_le_nat_alt unat_minus_one unat_gt_0)

lemma quota_left_cong: "authorizations s = authorizations t \<Longrightarrow> quota_left a s = quota_left a t"
  by (simp add: quota_left_def)

lemma store_write_authorizations:
  "store_write io data r w s = (res, t) \<Longrightarrow> authorizations t = authorizations s"
  by (cases w) (auto simp: store_write_def store_undo_def write_blob_atomic_def split: if_splits option.splits)

lemma store_quota:
  assumes "store_with_cid_config E io account config data s = (res, t)"
  shows "(if account = a then (case res of Ok r \<Rightarrow> fst (quota_left a t) + 1 \<le> fst (quota_left a s)
            \<and> snd (quota_left a t) + unat (cr_size (sr_content r)) \<le> snd (quota_left a s)
          | _ \<Rightarrow> fst (quota_left a t) \<le> fst (quota_left a s) \<and> snd (quota_left a t) \<le> snd (quota_left a s))
          else quota_left a t = quota_left a s)"
proof (cases "store_reserve E account config data s")
  case (Ok x)
  then obtain r w s' where x: "store_reserve E account config data s = Ok (r, w, s')" by (cases x) auto
  from x obtain cid s'' where a: "check_authorization account (of_nat (length data)) s = Ok s''"
    "authorizations s' = authorizations s''"
    "sr_content r = \<lparr>cr_cid_v1 = cid, cr_content_hash = b_blake2_256 E data, cr_size = of_nat (length data)\<rparr>"
    by (rule store_reserve_Ok)
  have wr: "store_write io data r w s' = (res, t)"
    using assms x by (simp add: store_with_cid_config_def)
  have "authorizations t = authorizations s'" and q: "\<And>q. res = Ok q \<Longrightarrow> q = r"
    using store_write_authorizations [OF wr] store_write_Ok wr by blast+
  then have "quota_left a t = quota_left a s''" using a(2) by (auto intro: quota_left_cong)
  then show ?thesis
    using quota_left_check [OF a(1), of a] a(3) q by (cases res) auto
qed (use assms in \<open>auto simp: store_with_cid_config_def\<close>)

lemma renew_quota:
  assumes "bulletin_renew E account reference s = (res, t)"
  shows "(if account = a then (case res of Ok r \<Rightarrow> fst (quota_left a t) + 1 \<le> fst (quota_left a s)
            \<and> snd (quota_left a t) \<le> snd (quota_left a s)
          | _ \<Rightarrow> fst (quota_left a t) \<le> fst (quota_left a s) \<and> snd (quota_left a t) \<le> snd (quota_left a s))
          else quota_left a t = quota_left a s)"
proof (cases "check_authorization account 0 s")
  case (Ok s')
  have "authorizations t = authorizations s'"
    using assms Ok by (auto simp: bulletin_renew_def Let_def split: option.splits)
  then have "quota_left a t = quota_left a s'" by (rule quota_left_cong)
  then show ?thesis using quota_left_check [OF Ok, of a] by (cases res) auto
qed (use assms in \<open>auto simp: bulletin_renew_def\<close>)

text \<open>
  C30. The quota bounds the storage.  Whatever operations are carried out, as long as the account is
  not authorised anew, it is served at most as many times as its authorisation grants and the sizes
  it has stored add up to no more than the bytes granted.
\<close>

theorem quota_bounds_storage:
  assumes "\<forall>op\<in>set ops. \<not> authorizes a op"
  shows "fst (bulletin_usage E a ops s) \<le> fst (quota_left a s) \<and> snd (bulletin_usage E a ops s) \<le> snd (quota_left a s)"
  using assms
proof (induction ops arbitrary: s)
  case (Cons op ops)
  obtain res t where ap: "bulletin_apply E op s = (res, t)" by (cases "bulletin_apply E op s")
  have IH: "fst (bulletin_usage E a ops t) \<le> fst (quota_left a t)" "snd (bulletin_usage E a ops t) \<le> snd (quota_left a t)"
    using Cons by auto
  show ?case
  proof (cases op)
    case (BStore io account config data)
    then obtain r where "store_with_cid_config E io account config data s = (r, t)" "res = Some r"
      using ap by (cases "store_with_cid_config E io account config data s") auto
    then show ?thesis
      using IH store_quota [of E io account config data s r t a] ap BStore
      by (auto simp: split_beta split: if_splits outcome.splits)
  next
    case (BRenew account reference)
    then obtain r where "bulletin_renew E account reference s = (r, t)" "res = Some r"
      using ap by (cases "bulletin_renew E account reference s") auto
    then show ?thesis
      using IH renew_quota [of E account reference s r t a] ap BRenew
      by (auto simp: split_beta split: if_splits outcome.splits)
  qed (use IH ap Cons.prems in \<open>auto simp: bulletin_admin_defs quota_left_def split_beta\<close>)
qed simp

theorem quota_bounds_storage_witness:
  "bulletin_usage ex_bul_env [1] [BStore ex_bul_io [1] default_cid_config [7, 8], BRenew [1] (ByContentHash [7, 8])] ex_bul_state = (2, 2)
   \<and> (2::nat) \<le> fst (quota_left [1] ex_bul_state)"
proof -
  let ?ops = "[BStore ex_bul_io [1] default_cid_config [7, 8], BRenew [1] (ByContentHash [7, 8])]"
  have u: "bulletin_usage ex_bul_env [1] ?ops ex_bul_state = (2, 2)" by code_simp
  moreover have "\<forall>op\<in>set ?ops. \<not> authorizes [1] op" by simp
  note quota_bounds_storage [OF this, of ex_bul_env ex_bul_state]
  ultimately show ?thesis by simp
qed

text \<open>
  Two stores of the same content can interleave between the two critical sections.  When the first
  one's write fails after the second one has answered with a receipt, the index entry is removed
  and the second receipt no longer leads to the content.
\<close>

lemma interleaved_second:
  assumes "store_with_cid_config E io b config data s = (Ok r, t)" "entries s (b_blake2_256 E data) \<noteq> None"
  obtains w where "store_reserve E b config data s = Ok (r, w, t)"
  using assms(1)
proof (rule store_Ok)
  fix w s'
  assume res: "store_reserve E b config data s = Ok (r, w, s')" and wr: "store_write io data r w s' = (Ok r, t)"
  from res have "\<not> w" using assms(2) by (auto elim: store_reserve_Ok)
  with wr have "t = s'" by (simp add: store_write_def)
  with res show thesis using that by metis
qed

lemma interleaved_store_dangles:
  assumes "store_reserve E a config data s = Ok (r, True, s1)"
    and "store_with_cid_config E io b config data s1 = (Ok r', s2)"
    and "blobs s (b_blake2_256 E data) = None" "write_failure io' (b_blake2_256 E data) = Some e"
  shows "\<exists>u. store_write io' data r True s2 = (Err (Io e), u) \<and> entries u (b_blake2_256 E data) = None
     \<and> (faults u (b_blake2_256 E data) = None \<longrightarrow> bulletin_fetch E io'' (sr_content r') u = Err Missing)"
proof -
  let ?h = "b_blake2_256 E data"
  from assms(1) have s1: "entries s1 ?h \<noteq> None" "blobs s1 = blobs s" and r: "cr_content_hash (sr_content r) = ?h"
    by (auto elim!: store_reserve_Ok)
  obtain w where "store_reserve E b config data s1 = Ok (r', w, s2)"
    using interleaved_second [OF assms(2) s1(1)] .
  then have "blobs s2 = blobs s1" "cr_content_hash (sr_content r') = ?h"
    by (auto elim!: store_reserve_Ok)
  then show ?thesis
    using assms(3,4) s1(2) r
    by (auto simp: store_write_def write_blob_atomic_def store_undo_def bulletin_fetch_def fetch_check_def check_fault_def)
qed

end
