(* ===== verification/Service_Crypto.thy ===== *)
theory Service_Crypto
  imports Protocol
begin

text \<open>
  The BLAKE2b-256 of the service SDK, \<open>service-toolchain/sdk/src/crypto.c\<close>.  Arrays are lists that
  keep their length; the macro \<open>G\<close> is a function of the working vector and four positions.
\<close>

unbundle bit_operations_syntax

definition IV :: "u64 list" where
  "IV = [0x6a09e667f3bcc908, 0xbb67ae8584caa73b, 0x3c6ef372fe94f82b, 0xa54ff53a5f1d36f1,
         0x510e527fade682d1, 0x9b05688c2b3e6c1f, 0x1f83d9abfb41bd6b, 0x5be0cd19137e2179]"

definition SIGMA_table :: "nat list list" where
  "SIGMA_table =
    [ [0, 1, 2, 3, 4, 5, 6, 7, 8, 9, 10, 11, 12, 13, 14, 15],
     [14, 10, 4, 8, 9, 15, 13, 6, 1, 12, 0, 2, 11, 7, 5, 3],
     [11, 8, 12, 0, 5, 2, 15, 13, 10, 14, 3, 6, 7, 1, 9, 4],
     [7, 9, 3, 1, 13, 12, 11, 14, 2, 6, 5, 10, 4, 0, 15, 8],
     [9, 0, 5, 7, 2, 4, 10, 15, 14, 1, 11, 12, 6, 8, 3, 13],
     [2, 12, 6, 10, 0, 11, 8, 3, 4, 13, 7, 5, 15, 14, 1, 9],
     [12, 5, 1, 15, 14, 13, 4, 10, 0, 7, 6, 3, 9, 2, 8, 11],
     [13, 11, 7, 14, 12, 1, 3, 9, 5, 0, 15, 4, 8, 6, 2, 10],
     [6, 15, 14, 9, 11, 3, 0, 8, 12, 2, 13, 7, 1, 4, 10, 5],
     [10, 2, 8, 4, 7, 6, 1, 5, 15, 11, 9, 14, 3, 12, 13, 0],
     [0, 1, 2, 3, 4, 5, 6, 7, 8, 9, 10, 11, 12, 13, 14, 15],
     [14, 10, 4, 8, 9, 15, 13, 6, 1, 12, 0, 2, 11, 7, 5, 3] ]"

definition load64 :: "bytes \<Rightarrow> u64" where
  "load64 p = foldl (\<lambda>value i. value OR push_bit (8 * i) (ucast (p ! i))) 0 [0..<8]"

definition rotr64 :: "u64 \<Rightarrow> nat \<Rightarrow> u64" where
  "rotr64 value shift = drop_bit shift value OR push_bit (64 - shift) value"

definition G :: "nat \<Rightarrow> nat \<Rightarrow> nat \<Rightarrow> nat \<Rightarrow> u64 \<Rightarrow> u64 \<Rightarrow> u64 list \<Rightarrow> u64 list" where
  "G A B C D X Y v =
     (let v = v[A := v ! A + v ! B + X];
          v = v[D := rotr64 (v ! D XOR v ! A) 32];
          v = v[C := v ! C + v ! D];
          v = v[B := rotr64 (v ! B XOR v ! C) 24];
          v = v[A := v ! A + v ! B + Y];
          v = v[D := rotr64 (v ! D XOR v ! A) 16];
          v = v[C := v ! C + v ! D]
      in v[B := rotr64 (v ! B XOR v ! C) 63])"

definition compress_round :: "u64 list \<Rightarrow> u64 list \<Rightarrow> nat list \<Rightarrow> u64 list" where
  "compress_round m v s =
     (let v = G 0 4 8 12 (m ! (s ! 0)) (m ! (s ! 1)) v;
          v = G 1 5 9 13 (m ! (s ! 2)) (m ! (s ! 3)) v;
          v = G 2 6 10 14 (m ! (s ! 4)) (m ! (s ! 5)) v;
          v = G 3 7 11 15 (m ! (s ! 6)) (m ! (s ! 7)) v;
          v = G 0 5 10 15 (m ! (s ! 8)) (m ! (s ! 9)) v;
          v = G 1 6 11 12 (m ! (s ! 10)) (m ! (s ! 11)) v;
          v = G 2 7 8 13 (m ! (s ! 12)) (m ! (s ! 13)) v
      in G 3 4 9 14 (m ! (s ! 14)) (m ! (s ! 15)) v)"

definition compress :: "u64 list \<Rightarrow> bytes \<Rightarrow> u64 \<Rightarrow> bool \<Rightarrow> u64 list" where
  "compress h block counter final =
     (let m = map (\<lambda>i. load64 (drop (i * 8) block)) [0..<16];
          v = h @ IV;
          v = v[12 := v ! 12 XOR counter];
          v = (if final then v[14 := NOT (v ! 14)] else v);
          v = foldl (compress_round m) v SIGMA_table
      in map (\<lambda>i. h ! i XOR (v ! i XOR v ! (i + 8))) [0..<8])"

function blake_blocks :: "u64 list \<Rightarrow> bytes \<Rightarrow> u64 \<Rightarrow> u64 list \<times> bytes \<times> u64" where
  "blake_blocks h bytes counter =
     (if length bytes > 128 then blake_blocks (compress h bytes (counter + 128) False) (drop 128 bytes) (counter + 128)
      else (h, bytes, counter))"
  by pat_completeness auto
termination by (relation "measure (\<lambda>(h, bytes, counter). length bytes)") auto

declare blake_blocks.simps [simp del]

definition minijam_blake2b_256 :: "bytes \<Rightarrow> bytes" where
  "minijam_blake2b_256 input =
     (let h = IV[0 := IV ! 0 XOR 0x01010020];
          (h, bytes, counter) = blake_blocks h input 0;
          block = bytes @ replicate (128 - length bytes) 0;
          h = compress h block (counter + of_nat (length bytes)) True
      in map (\<lambda>i. ucast (drop_bit (8 * (i mod 8)) (h ! (i div 8)))) [0..<32])"

lemma length_blake2b [simp]: "length (minijam_blake2b_256 input) = 32"
  by (simp add: minijam_blake2b_256_def Let_def split: prod.split)

section \<open>The block structure\<close>

text \<open>
  RFC 7693, section 3.3: the input is padded with zeros to a whole number of blocks, at least one;
  every block but the last is compressed with the number of bytes up to its end, the last one with
  the length of the input and the final flag.
\<close>

definition padded_block :: "bytes \<Rightarrow> nat \<Rightarrow> bytes" where
  "padded_block input i = take 128 (drop (128 * i) input) @ replicate (128 - (length input - 128 * i)) 0"

definition blake2b_rfc :: "bytes \<Rightarrow> u64 list" where
  "blake2b_rfc input =
     (let n = (length input - 1) div 128;
          h = foldl (\<lambda>h i. compress h (padded_block input i) (of_nat (128 * (i + 1))) False)
                (IV[0 := IV ! 0 XOR 0x01010020]) [0..<n]
      in compress h (padded_block input n) (of_nat (length input)) True)"

text \<open>Only the first block of the array is read.\<close>

lemma load64_take:
  "128 \<le> length block \<Longrightarrow> i < 16 \<Longrightarrow> load64 (drop (i * 8) (take 128 block)) = load64 (drop (i * 8) block)"
  by (auto simp: load64_def intro!: foldl_cong)

lemma compress_take: "128 \<le> length block \<Longrightarrow> compress h (take 128 block) counter final = compress h block counter final"
proof -
  assume "128 \<le> length block"
  then have "map (\<lambda>i. load64 (drop (i * 8) (take 128 block))) [0..<16] = map (\<lambda>i. load64 (drop (i * 8) block)) [0..<16]"
    by (auto simp del: drop_take intro!: load64_take)
  then show ?thesis by (simp only: compress_def)
qed

lemma blake_blocks_eq:
  assumes "length input > 0" "i \<le> (length input - 1) div 128"
  shows "blake_blocks h (drop (128 * i) input) (of_nat (128 * i)) =
    (foldl (\<lambda>h i. compress h (padded_block input i) (of_nat (128 * (i + 1))) False) h [i..<(length input - 1) div 128],
     drop (128 * ((length input - 1) div 128)) input, of_nat (128 * ((length input - 1) div 128)))"
  using assms(2)
proof (induction "(length input - 1) div 128 - i" arbitrary: h i)
  case 0
  then have i: "i = (length input - 1) div 128" by simp
  then have "length input - 128 * i \<le> 128" by auto
  then show ?case using i by (subst blake_blocks.simps) simp
next
  case (Suc k)
  have i: "Suc i \<le> (length input - 1) div 128" and len: "128 * i + 128 < length input"
    using Suc.hyps(2) assms(1) by (auto simp: less_eq_div_iff_mult_less_eq)
  have blk: "padded_block input i = take 128 (drop (128 * i) input)"
    using len by (simp add: padded_block_def)
  have "blake_blocks h (drop (128 * i) input) (of_nat (128 * i)) =
      blake_blocks (compress h (drop (128 * i) input) (of_nat (128 * (i + 1))) False)
        (drop (128 * Suc i) input) (of_nat (128 * Suc i))"
  proof -
    have "128 < length (drop (128 * i) input)" using len by simp
    then show ?thesis
      by (subst blake_blocks.simps) (simp add: algebra_simps del: length_drop)
  qed
  also have "compress h (drop (128 * i) input) (of_nat (128 * (i + 1))) False
      = compress h (padded_block input i) (of_nat (128 * (i + 1))) False"
    using len by (simp add: blk compress_take)
  finally show ?case
    using Suc.hyps(1) [of "Suc i"] Suc.hyps(2) i
    by (simp add: upt_conv_Cons)
qed

lemma digest_bytes:
  fixes h :: "u64 list"
  assumes "length h = 8"
  shows "map (\<lambda>i. ucast (drop_bit (8 * (i mod 8)) (h ! (i div 8)))) [0..<32] = take 32 (concat (map (to_le_bytes 8) h))"
proof -
  obtain a b c d e f g k where "h = [a, b, c, d, e, f, g, k]"
    using assms by (auto simp: length_Suc_conv numeral_eq_Suc)
  then show ?thesis by (simp add: to_le_bytes_def upt_rec)
qed

text \<open>
  C40. The SDK's hash follows the block structure of RFC 7693 for inputs of every length: the loop
  over whole blocks and the padded rest compress the same blocks with the same counters and the
  same final flag as the reference, and the result is the first 32 bytes of the state.
\<close>

theorem blake2b_follows_rfc:
  "minijam_blake2b_256 input =
     take 32 (concat (map (to_le_bytes 8) (blake2b_rfc input))) \<and> length (minijam_blake2b_256 input) = 32"
proof -
  let ?n = "(length input - 1) div 128" and ?h = "IV[0 := IV ! 0 XOR 0x01010020]"
  let ?f = "foldl (\<lambda>h i. compress h (padded_block input i) (of_nat (128 * (i + 1))) False) ?h [0..<?n]"
  have blocks: "blake_blocks ?h input 0 = (?f, drop (128 * ?n) input, of_nat (128 * ?n))"
    using blake_blocks_eq [of input 0 ?h] by (cases input) (simp_all add: blake_blocks.simps)
  have le: "128 * ?n \<le> length input" "length input - 128 * ?n \<le> 128" by auto
  have "drop (128 * ?n) input @ replicate (128 - length (drop (128 * ?n) input)) 0 = padded_block input ?n"
    using le by (simp add: padded_block_def)
  moreover have "of_nat (128 * ?n) + of_nat (length (drop (128 * ?n) input)) = (of_nat (length input) :: u64)"
    using le(1) by (simp flip: of_nat_add)
  ultimately have m: "minijam_blake2b_256 input =
      map (\<lambda>i. ucast (drop_bit (8 * (i mod 8)) (blake2b_rfc input ! (i div 8)))) [0..<32]"
    unfolding minijam_blake2b_256_def Let_def blocks blake2b_rfc_def by simp
  have "length (blake2b_rfc input) = 8"
    by (simp add: blake2b_rfc_def compress_def Let_def)
  note d = digest_bytes [OF this]
  have "length (minijam_blake2b_256 input) = 32" unfolding m by simp
  then show ?thesis unfolding m d by blast
qed

end
