(* ===== verification/Service_Sdk.thy ===== *)
theory Service_Sdk
  imports Service_Crypto
begin

text \<open>
  The C SDK for services, \<open>service-toolchain/sdk/src/minijam.c\<close>, and the example counter service,
  \<open>examples/services/counter/service.c\<close>.  The PVM host is outside the repository: it is a record of
  functions over an abstract host state.  A host call that fills a buffer writes at most the
  capacity and returns the length of the whole item, or \<open>MINIJAM_HOST_NONE\<close>.  Buffers are lists of
  fixed length; \<open>size_t\<close> is 64 bits wide on the PVM.
\<close>

unbundle bit_operations_syntax

section \<open>The host\<close>

record 'h host =
  h_fetch :: "u64 \<Rightarrow> u64 \<Rightarrow> 'h \<Rightarrow> bytes option"
  h_read :: "bytes \<Rightarrow> 'h \<Rightarrow> bytes option"
  h_write :: "bytes \<Rightarrow> bytes \<Rightarrow> 'h \<Rightarrow> u64 \<times> 'h"
  h_new :: "bytes \<Rightarrow> u64 \<Rightarrow> u64 \<Rightarrow> u64 \<Rightarrow> u64 \<Rightarrow> u64 \<Rightarrow> 'h \<Rightarrow> u64 \<times> 'h"
  h_transfer :: "u64 \<Rightarrow> u64 \<Rightarrow> u64 \<Rightarrow> bytes \<Rightarrow> 'h \<Rightarrow> u64 \<times> 'h"
  h_yield :: "bytes \<Rightarrow> 'h \<Rightarrow> u64 \<times> 'h"
  h_log :: "bytes \<Rightarrow> 'h \<Rightarrow> u64 \<times> 'h"

definition MINIJAM_HOST_NONE :: u64 where
  "MINIJAM_HOST_NONE = - 1"

definition host_length :: "bytes option \<Rightarrow> u64" where
  "host_length item = (case item of None \<Rightarrow> MINIJAM_HOST_NONE | Some b \<Rightarrow> of_nat (length b))"

text \<open>The buffer after the host has copied \<open>data\<close> to its start, as far as it fits.\<close>

definition copy_into :: "bytes \<Rightarrow> bytes \<Rightarrow> bytes" where
  "copy_into data buffer = take (length buffer) data @ drop (length data) buffer"

definition copy_item :: "bytes option \<Rightarrow> nat \<Rightarrow> bytes \<Rightarrow> bytes" where
  "copy_item item offset buffer = (case item of None \<Rightarrow> buffer | Some b \<Rightarrow> copy_into (drop offset b) buffer)"

datatype minijam_status = MINIJAM_OK | MINIJAM_NOT_FOUND | MINIJAM_BUFFER_TOO_SMALL | MINIJAM_HOST_ERROR

section \<open>The SDK\<close>

text \<open>A read returns the status, the size it stored, if any, and the buffer.\<close>

definition copy_fetch ::
    "'h host \<Rightarrow> u64 \<Rightarrow> u64 \<Rightarrow> bytes \<Rightarrow> 'h \<Rightarrow> minijam_status \<times> u64 option \<times> bytes" where
  "copy_fetch H mode index output h =
     (let item = h_fetch H mode index h; len = host_length item; output' = copy_item item 0 output
      in if len = MINIJAM_HOST_NONE then (MINIJAM_NOT_FOUND, None, output')
         else (if len > of_nat (length output) then MINIJAM_BUFFER_TOO_SMALL else MINIJAM_OK, Some len, output'))"

definition minijam_payload_size :: "'h host \<Rightarrow> 'h \<Rightarrow> u64" where
  "minijam_payload_size H h =
     (let len = host_length (h_fetch H 13 0 h) in if len = MINIJAM_HOST_NONE then 0 else len)"

definition minijam_payload :: "'h host \<Rightarrow> bytes \<Rightarrow> 'h \<Rightarrow> minijam_status \<times> u64 option \<times> bytes" where
  "minijam_payload H output h = copy_fetch H 13 0 output h"

text \<open>The probing loop of the two counters; it ends only if the host reports a missing entry.\<close>

partial_function (option) fetch_count :: "'h host \<Rightarrow> u64 \<Rightarrow> 'h \<Rightarrow> u64 \<Rightarrow> u64 option" where
  "fetch_count H mode h n =
     (if host_length (h_fetch H mode n h) \<noteq> MINIJAM_HOST_NONE then fetch_count H mode h (n + 1) else Some n)"

definition minijam_extrinsic_count :: "'h host \<Rightarrow> 'h \<Rightarrow> u64 option" where
  "minijam_extrinsic_count H h = fetch_count H 4 h 0"

definition minijam_extrinsic :: "'h host \<Rightarrow> u64 \<Rightarrow> bytes \<Rightarrow> 'h \<Rightarrow> minijam_status \<times> u64 option \<times> bytes" where
  "minijam_extrinsic H index output h = copy_fetch H 4 index output h"

definition minijam_result_count :: "'h host \<Rightarrow> 'h \<Rightarrow> u64 option" where
  "minijam_result_count H h = fetch_count H 15 h 0"

text \<open>\<open>while (length < 8 && (first & (0x80u >> length)) != 0) ++length\<close>\<close>

primrec leading_ones :: "nat \<Rightarrow> nat \<Rightarrow> u8 \<Rightarrow> nat" where
  "leading_ones 0 n b = n"
| "leading_ones (Suc fuel) n b = (if b AND drop_bit n 0x80 \<noteq> 0 then leading_ones fuel (Suc n) b else n)"

definition decode_fnencode :: "bytes \<Rightarrow> nat \<Rightarrow> nat \<Rightarrow> (nat \<times> u64) option" where
  "decode_fnencode input len_in offset =
     (if offset \<ge> len_in then None
      else let first = input ! offset; offset = offset + 1 in
      if first < 0x80 then Some (offset, ucast first)
      else let len = leading_ones 8 0 first in
      if len = 0 \<or> len > 7 \<or> len_in - offset < len then None
      else let low = foldl (\<lambda>low i. low OR push_bit (8 * i) (ucast (input ! (offset + i)))) 0 [0..<len]
           in Some (offset + len, push_bit (8 * len) (ucast (first AND drop_bit len 0x7f)) OR low))"

definition minijam_result :: "'h host \<Rightarrow> u64 \<Rightarrow> bytes \<Rightarrow> 'h \<Rightarrow> minijam_status \<times> u64 option \<times> bytes" where
  "minijam_result H index output h =
     (let item = h_fetch H 15 index h; item_size = host_length item; prefix = copy_item item 0 (replicate 160 0)
      in if item_size = MINIJAM_HOST_NONE then (MINIJAM_NOT_FOUND, None, output)
         else let available = (if item_size < 160 then unat item_size else 160); offset = 1 + 4 * 32 in
           if available \<le> offset then (MINIJAM_HOST_ERROR, None, output)
           else case decode_fnencode prefix available offset of
             None \<Rightarrow> (MINIJAM_HOST_ERROR, None, output)
           | Some (offset, ignored_gas) \<Rightarrow>
               if offset \<ge> available \<or> prefix ! offset \<noteq> 0 then (MINIJAM_HOST_ERROR, None, output)
               else case decode_fnencode prefix available (offset + 1) of
                 None \<Rightarrow> (MINIJAM_HOST_ERROR, None, output)
               | Some (offset, payload_size) \<Rightarrow>
                   if payload_size > of_nat (length output) then (MINIJAM_BUFFER_TOO_SMALL, Some payload_size, output)
                   else let n = unat payload_size;
                            output = copy_item item offset (take n output) @ drop n output;
                            fetched = host_length item
                        in (if fetched = item_size then MINIJAM_OK else MINIJAM_HOST_ERROR, Some payload_size, output))"

definition minijam_storage_read ::
    "'h host \<Rightarrow> bytes \<Rightarrow> bytes \<Rightarrow> 'h \<Rightarrow> minijam_status \<times> u64 option \<times> bytes" where
  "minijam_storage_read H key output h =
     (let item = h_read H key h; len = host_length item; output' = copy_item item 0 output
      in if len = MINIJAM_HOST_NONE then (MINIJAM_NOT_FOUND, None, output')
         else (if len > of_nat (length output) then MINIJAM_BUFFER_TOO_SMALL else MINIJAM_OK, Some len, output'))"

definition minijam_storage_write :: "'h host \<Rightarrow> bytes \<Rightarrow> bytes \<Rightarrow> 'h \<Rightarrow> minijam_status \<times> 'h" where
  "minijam_storage_write H key v h =
     (let (res, h) = h_write H key v h in (if res = 1 then MINIJAM_HOST_ERROR else MINIJAM_OK, h))"

definition minijam_storage_delete :: "'h host \<Rightarrow> bytes \<Rightarrow> 'h \<Rightarrow> minijam_status \<times> 'h" where
  "minijam_storage_delete H key h = minijam_storage_write H key [] h"

definition minijam_log :: "'h host \<Rightarrow> bytes \<Rightarrow> 'h \<Rightarrow> 'h" where
  "minijam_log H message h = snd (h_log H message h)"

definition minijam_yield :: "'h host \<Rightarrow> bytes \<Rightarrow> 'h \<Rightarrow> 'h" where
  "minijam_yield H v h = snd (h_yield H (copy_into v (replicate 32 0)) h)"

definition minijam_refine_ok :: "bytes \<Rightarrow> bytes" where
  "minijam_refine_ok v = v"

definition minijam_refine_error :: "u32 \<Rightarrow> bytes" where
  "minijam_refine_error code = minijam_refine_ok (to_le_bytes 4 code)"

section \<open>The counter service\<close>

definition COUNTER_KEY :: bytes where
  "COUNTER_KEY = ascii ''counter''"

definition INT64_MAX :: int where "INT64_MAX = 2 ^ 63 - 1"
definition INT64_MIN :: int where "INT64_MIN = - (2 ^ 63)"

definition counter_refine :: "'h host \<Rightarrow> 'h \<Rightarrow> bytes" where
  "counter_refine H h =
     (let (status, n, increment) = minijam_payload H (replicate 8 0) h
      in if status \<noteq> MINIJAM_OK \<or> n \<noteq> Some 8 then minijam_refine_error 1 else minijam_refine_ok increment)"

text \<open>The branches of the addition, on the signed readings of the two buffers.\<close>

definition counter_add :: "u64 \<Rightarrow> u64 \<Rightarrow> u64" where
  "counter_add counter increment =
     (if sint increment > 0 \<and> sint counter > INT64_MAX - sint increment then word_of_int INT64_MAX
      else if sint increment < 0 \<and> sint counter < INT64_MIN - sint increment then word_of_int INT64_MIN
      else counter + increment)"

definition counter_accumulate :: "'h host \<Rightarrow> 'h \<Rightarrow> 'h" where
  "counter_accumulate H h =
     (let (status, n, increment) = minijam_result H 0 (replicate 8 0) h
      in if status \<noteq> MINIJAM_OK \<or> n \<noteq> Some 8 then h
         else let (status, n, counter) = minijam_storage_read H COUNTER_KEY (replicate 8 0) h;
                  counter = (if status \<noteq> MINIJAM_OK then replicate 8 0 else counter);
                  counter = to_le_bytes 8 (counter_add (load64 counter) (load64 increment))
              in minijam_yield H [] (snd (minijam_storage_write H COUNTER_KEY counter h)))"

section \<open>Little-endian loads and stores\<close>

lemma bit_load_fold:
  fixes v :: "u64"
  shows "bit (foldl (\<lambda>v i. v OR push_bit (8 * i) (ucast (f i :: u8))) 0 [0..<n] :: u64) j \<longleftrightarrow>
    j < 64 \<and> j div 8 < n \<and> bit (f (j div 8)) (j mod 8)"
proof (induction n)
  case (Suc n)
  have "bit (push_bit (8 * n) (ucast (f n)) :: u64) j \<longleftrightarrow> j < 64 \<and> j div 8 = n \<and> bit (f (j div 8)) (j mod 8)"
  proof -
    have "8 * n \<le> j \<and> j - 8 * n < 8 \<longleftrightarrow> j div 8 = n" by auto
    moreover have "j div 8 = n \<Longrightarrow> j - 8 * n = j mod 8" by (auto simp: minus_mult_div_eq_mod)
    ultimately show ?thesis
      by (auto simp: bit_simps dest: bit_imp_le_length)
  qed
  with Suc show ?case by (auto simp: bit_simps less_Suc_eq)
qed simp

lemma load64_to_le_bytes [simp]: "load64 (to_le_bytes 8 v) = v"
proof (rule bit_word_eqI)
  fix j assume "j < LENGTH(64)"
  then have "j div 8 < 8" "j < 64" by auto
  then show "bit (load64 (to_le_bytes 8 v)) j = bit v j"
    unfolding load64_def bit_load_fold by (simp add: to_le_bytes_def bit_simps)
qed

section \<open>Natural numbers on the wire\<close>

text \<open>
  The encoding of natural numbers the operands use: the leading ones of the first byte count the
  bytes that follow, its other bits are the most significant part, and the rest is little-endian.
\<close>

definition fnencode_length :: "nat \<Rightarrow> nat" where
  "fnencode_length x =
     (if x < 2 ^ 7 then 0 else if x < 2 ^ 14 then 1 else if x < 2 ^ 21 then 2 else if x < 2 ^ 28 then 3
      else if x < 2 ^ 35 then 4 else if x < 2 ^ 42 then 5 else if x < 2 ^ 49 then 6 else 7)"

definition fnencode :: "nat \<Rightarrow> bytes" where
  "fnencode x =
     (let len = fnencode_length x
      in of_nat (256 - 2 ^ (8 - len) + x div 2 ^ (8 * len)) # map (\<lambda>i. of_nat (x div 2 ^ (8 * i))) [0..<len])"

lemma length_fnencode: "length (fnencode x) = Suc (fnencode_length x)" "fnencode_length x \<le> 7"
  by (simp_all add: fnencode_def fnencode_length_def Let_def)

lemma fnencode_high: "x < 2 ^ 56 \<Longrightarrow> x div 2 ^ (8 * fnencode_length x) < 2 ^ (7 - fnencode_length x)"
  by (auto simp: fnencode_length_def div_less_iff_less_mult)

text \<open>The first byte, for every length and every value of its low bits.\<close>

definition fnencode_first :: "nat \<Rightarrow> nat \<Rightarrow> bool" where
  "fnencode_first len hi \<longleftrightarrow> (let b = (of_nat (256 - 2 ^ (8 - len) + hi) :: u8) in
     if len = 0 then b < 0x80 \<and> (ucast b :: u64) = of_nat hi
     else \<not> b < 0x80 \<and> leading_ones 8 0 b = len \<and> (ucast (b AND drop_bit len 0x7f) :: u64) = of_nat hi)"

lemma fnencode_first_all: "list_all (\<lambda>len. list_all (fnencode_first len) [0..<2 ^ (7 - len)]) [0..<8]"
  by code_simp

lemma fnencode_firstI: "len \<le> 7 \<Longrightarrow> hi < 2 ^ (7 - len) \<Longrightarrow> fnencode_first len hi"
  using fnencode_first_all by (auto simp: list_all_iff)

lemma fnencode_value:
  "push_bit (8 * len) (of_nat (x div 2 ^ (8 * len))) OR
     foldl (\<lambda>low i. low OR push_bit (8 * i) (ucast (of_nat (x div 2 ^ (8 * i)) :: u8))) 0 [0..<len] = (of_nat x :: u64)"
proof (rule bit_word_eqI)
  fix j assume j: "j < LENGTH(64)"
  have byte: "bit (of_nat (x div 2 ^ (8 * (j div 8))) :: u8) (j mod 8) = bit x j"
    by (simp add: bit_simps flip: drop_bit_eq_div)
  show "bit (push_bit (8 * len) (of_nat (x div 2 ^ (8 * len))) OR
     foldl (\<lambda>low i. low OR push_bit (8 * i) (ucast (of_nat (x div 2 ^ (8 * i)) :: u8))) 0 [0..<len] :: u64) j
     = bit (of_nat x :: u64) j"
  proof (cases "j < 8 * len")
    case True
    then have "j div 8 < len" by auto
    with True j show ?thesis
      unfolding bit_or_iff bit_load_fold byte by (simp add: bit_simps)
  next
    case False
    then have "\<not> j div 8 < len" "j - 8 * len < 64" using j by auto
    with False j show ?thesis
      unfolding bit_or_iff bit_load_fold by (simp add: bit_simps flip: drop_bit_eq_div)
  qed
qed

lemma decode_fnencode_encode:
  assumes "x < 2 ^ 56" "offset + length (fnencode x) \<le> len_in"
    and "take (length (fnencode x)) (drop offset input) = fnencode x" "len_in \<le> length input"
  shows "decode_fnencode input len_in offset = Some (offset + length (fnencode x), of_nat x)"
proof -
  let ?l = "fnencode_length x" and ?hi = "x div 2 ^ (8 * fnencode_length x)"
  have at: "input ! (offset + i) = fnencode x ! i" if "i < Suc ?l" for i
  proof -
    have "fnencode x ! i = take (length (fnencode x)) (drop offset input) ! i" by (simp only: assms(3))
    also have "\<dots> = input ! (offset + i)" using that assms(2,4) by (simp add: length_fnencode)
    finally show ?thesis by simp
  qed
  have first: "input ! offset = of_nat (256 - 2 ^ (8 - ?l) + ?hi)"
    using at [of 0] by (simp add: fnencode_def Let_def)
  have rest: "input ! (offset + 1 + i) = of_nat (x div 2 ^ (8 * i))" if "i < ?l" for i
    using at [of "Suc i"] that by (simp add: fnencode_def Let_def)
  have low: "foldl (\<lambda>low i. low OR push_bit (8 * i) (ucast (input ! (offset + 1 + i)))) 0 [0..<?l]
      = foldl (\<lambda>low i. low OR push_bit (8 * i) (ucast (of_nat (x div 2 ^ (8 * i)) :: u8))) (0 :: u64) [0..<?l]"
    using rest by (intro foldl_cong) auto
  have f: "fnencode_first ?l ?hi"
    using fnencode_firstI length_fnencode(2) fnencode_high [OF assms(1)] .
  show ?thesis
  proof (cases "?l = 0")
    case True
    then show ?thesis
      using f first assms(2) by (simp add: decode_fnencode_def fnencode_first_def length_fnencode Let_def)
  next
    case False
    with f first have b: "\<not> input ! offset < 0x80" "leading_ones 8 0 (input ! offset) = ?l"
      "(ucast (input ! offset AND drop_bit ?l 0x7f) :: u64) = of_nat ?hi"
      by (simp_all add: fnencode_first_def Let_def)
    have "\<not> offset \<ge> len_in" "\<not> (?l = 0 \<or> ?l > 7 \<or> len_in - (offset + 1) < ?l)"
      using False assms(2) length_fnencode [of x] by auto
    then show ?thesis
      unfolding decode_fnencode_def Let_def b(2) b(3) low fnencode_value
      using b(1) by (simp add: length_fnencode)
  qed
qed

section \<open>Properties\<close>

text \<open>
  The counter saturates.  The new value of the example counter, read as a signed 64-bit
  integer, is the exact sum of the old value and the increment clamped to the range of the type.
\<close>

theorem counter_add_saturates:
  "sint (counter_add c i) = max INT64_MIN (min INT64_MAX (sint c + sint i))"
proof -
  have range: "INT64_MIN \<le> sint w" "sint w \<le> INT64_MAX" for w :: u64
    using sint_range_size [of w] by (auto simp: INT64_MIN_def INT64_MAX_def word_size)
  have "sint (c + i) = sint c + sint i" if "INT64_MIN \<le> sint c + sint i" "sint c + sint i \<le> INT64_MAX"
    using that by (simp add: INT64_MIN_def INT64_MAX_def sint_word_ariths signed_take_bit_int_eq_self)
  then show ?thesis
    using range [of c] range [of i]
    by (auto simp: counter_add_def INT64_MIN_def INT64_MAX_def sint_sbintrunc' signed_take_bit_int_eq_self)
qed

end
