(* ===== verification/Pvm_Executor.thy ===== *)
theory Pvm_Executor
  imports Service_Sdk
begin

text \<open>
  The chain-free execution boundary \<open>crates/minijam-pvm-executor\<close>: the numbers of the host calls and
  the bridge that serves them to a program from a workload's host.  The virtual machine itself is
  outside the repository; its memory is a parameter with a read and a write that can fault.
\<close>

section \<open>Host call numbers\<close>

datatype minijam_host_call = Gas | Fetch | Read | Write | New | Transfer | Yield | NetworkDomain | Log

fun host_call_id :: "minijam_host_call \<Rightarrow> u32" where
  "host_call_id Gas = 0"
| "host_call_id Fetch = 1"
| "host_call_id Read = 3"
| "host_call_id Write = 4"
| "host_call_id New = 18"
| "host_call_id Transfer = 20"
| "host_call_id Yield = 25"
| "host_call_id NetworkDomain = 27"
| "host_call_id Log = 100"

definition host_call_try_from :: "u32 \<Rightarrow> (unit, minijam_host_call) outcome" where
  "host_call_try_from v =
     (if v = 0 then Ok Gas else if v = 1 then Ok Fetch else if v = 3 then Ok Read else if v = 4 then Ok Write
      else if v = 18 then Ok New else if v = 20 then Ok Transfer else if v = 25 then Ok Yield
      else if v = 27 then Ok NetworkDomain else if v = 100 then Ok Log else Err ())"

section \<open>The bridge\<close>

record 'h workload_host =
  wh_fetch :: "u64 \<Rightarrow> nat \<Rightarrow> 'h \<Rightarrow> bytes option"
  wh_storage_read :: "bytes \<Rightarrow> 'h \<Rightarrow> bytes option"
  wh_storage_write :: "bytes \<Rightarrow> bytes \<Rightarrow> 'h \<Rightarrow> 'h"
  wh_storage_delete :: "bytes \<Rightarrow> 'h \<Rightarrow> 'h"
  wh_yield_value :: "bytes \<Rightarrow> 'h \<Rightarrow> 'h"
  wh_network_domain :: "'h \<Rightarrow> bytes"
  wh_log :: "bytes \<Rightarrow> 'h \<Rightarrow> 'h"

record 'm vm_memory =
  write_bytes :: "u32 \<Rightarrow> bytes \<Rightarrow> 'm \<Rightarrow> 'm option"
  read_bytes :: "u32 \<Rightarrow> nat \<Rightarrow> 'm \<Rightarrow> bytes option"

type_synonym registers = "nat \<Rightarrow> u64"

text \<open>Register 7 is \<open>a0\<close>, the first argument and the result.  \<open>Err ()\<close> is \<open>VmError::Panic\<close>.\<close>

definition set_result :: "registers \<Rightarrow> u64 \<Rightarrow> registers" where
  "set_result regs v = regs(7 := v)"

definition ecalli ::
    "'m vm_memory \<Rightarrow> 'h workload_host \<Rightarrow> u32 \<Rightarrow> int \<Rightarrow> registers \<times> 'm \<times> 'h
     \<Rightarrow> (unit, registers \<times> 'm \<times> 'h) outcome" where
  "ecalli V W call_id gas = (\<lambda>(regs, mem, h).
     bind_res (host_call_try_from call_id) (\<lambda>call. case call of
       Gas \<Rightarrow> Ok (set_result regs (word_of_int (max gas 0)), mem, h)
     | Fetch \<Rightarrow>
         (let ptr = ucast (regs 7); offset = unat (regs 8); capacity = unat (regs 9) in
          case wh_fetch W (regs 10) (unat (regs 11)) h of
            None \<Rightarrow> Ok (set_result regs MINIJAM_HOST_NONE, mem, h)
          | Some item \<Rightarrow>
              ok_or (write_bytes V ptr (take capacity (drop offset item)) mem) () (\<lambda>mem.
              Ok (set_result regs (of_nat (length item)), mem, h)))
     | Read \<Rightarrow>
         (let key_ptr = ucast (regs 8); key_len = unat (regs 9); out_ptr = ucast (regs 10); capacity = unat (regs 12) in
          ok_or (read_bytes V key_ptr key_len mem) () (\<lambda>key.
          case wh_storage_read W key h of
            None \<Rightarrow> Ok (set_result regs MINIJAM_HOST_NONE, mem, h)
          | Some v \<Rightarrow>
              ok_or (write_bytes V out_ptr (take capacity v) mem) () (\<lambda>mem.
              Ok (set_result regs (of_nat (length v)), mem, h))))
     | Write \<Rightarrow>
         ok_or (read_bytes V (ucast (regs 7)) (unat (regs 8)) mem) () (\<lambda>key.
         ok_or (read_bytes V (ucast (regs 9)) (unat (regs 10)) mem) () (\<lambda>v.
         let h = (if v = [] then wh_storage_delete W key h else wh_storage_write W key v h)
         in Ok (set_result regs 0, mem, h)))
     | Yield \<Rightarrow>
         ok_or (read_bytes V (ucast (regs 7)) 32 mem) () (\<lambda>v.
         Ok (set_result regs 0, mem, wh_yield_value W v h))
     | NetworkDomain \<Rightarrow>
         if regs 8 < 32 then Ok (set_result regs 1, mem, h)
         else ok_or (write_bytes V (ucast (regs 7)) (wh_network_domain W h) mem) () (\<lambda>mem.
              ok_or (write_bytes V (ucast (regs 9)) (to_le_bytes 8 (32 :: u64)) mem) () (\<lambda>mem.
              Ok (set_result regs 0, mem, h)))
     | Log \<Rightarrow>
         ok_or (read_bytes V (ucast (regs 7)) (unat (regs 8)) mem) () (\<lambda>message.
         Ok (set_result regs 0, mem, wh_log W message h))
     | New \<Rightarrow> Err ()
     | Transfer \<Rightarrow> Err ()))"

datatype vm_result = VmOk "bytes option" | VmOog | VmPanic

datatype pvm_error = PvmDecode string | PvmExecution string | OutOfGas | PvmPanic

record execution =
  ex_output :: bytes
  ex_gas_used :: u64
  ex_gas_remaining :: u64

text \<open>\<open>execute\<close>: decoding and running the program are the virtual machine's.\<close>

definition pvm_execute ::
    "(bytes \<Rightarrow> (string, 'p) outcome) \<Rightarrow> ('p \<Rightarrow> bytes \<Rightarrow> u32 \<Rightarrow> u64 \<Rightarrow> 'h \<Rightarrow> (string, vm_result \<times> u64 \<times> u64 \<times> 'h) outcome)
     \<Rightarrow> bytes \<Rightarrow> bytes \<Rightarrow> u32 \<Rightarrow> u64 \<Rightarrow> 'h \<Rightarrow> (pvm_error, execution \<times> 'h) outcome" where
  "pvm_execute from_bytes run_standalone program_bytes payload entry_point gas_limit h =
     bind_res (map_err PvmDecode (from_bytes program_bytes)) (\<lambda>program.
     bind_res (map_err PvmExecution (run_standalone program payload entry_point gas_limit h)) (\<lambda>(res, used, remaining, h).
     case res of
       VmOk output \<Rightarrow>
         Ok (\<lparr>ex_output = (case output of Some b \<Rightarrow> b | None \<Rightarrow> []), ex_gas_used = used, ex_gas_remaining = remaining\<rparr>, h)
     | VmOog \<Rightarrow> Err OutOfGas
     | VmPanic \<Rightarrow> Err PvmPanic))"

section \<open>Properties\<close>

lemma host_call_roundtrip: "host_call_try_from v = Ok call \<longleftrightarrow> v = host_call_id call"
  by (cases call) (auto simp: host_call_try_from_def split: if_splits)

text \<open>
  The bridge confines the program.  A host call that returns has a number of the SDK other than
  the two the bridge does not serve; it changes no register but the result, writes memory only for
  the calls that return data, and changes the workload's state only for a write, a yield or a log.
\<close>

theorem ecalli_confined:
  assumes "ecalli V W call_id gas (regs, mem, h) = Ok (regs', mem', h')"
  shows "\<exists>call. call_id = host_call_id call \<and> call \<notin> {New, Transfer}
     \<and> (\<forall>r. r \<noteq> 7 \<longrightarrow> regs' r = regs r)
     \<and> (call \<in> {Gas, Write, Yield, Log} \<longrightarrow> mem' = mem)
     \<and> (call \<in> {Gas, Fetch, Read, NetworkDomain} \<longrightarrow> h' = h)"
proof -
  obtain call where c: "host_call_try_from call_id = Ok call"
    using assms by (cases "host_call_try_from call_id") (auto simp: ecalli_def)
  show ?thesis
    using assms c host_call_roundtrip [of call_id call]
    by (cases call)
      (auto simp: ecalli_def set_result_def ok_or_eq_Ok Let_def split: option.splits if_splits intro!: exI [of _ call])
qed

definition ex_memory :: "(u32 \<Rightarrow> u8) vm_memory" where
  "ex_memory = \<lparr>write_bytes = (\<lambda>p b m. Some (\<lambda>a. if unat (a - p) < length b then b ! unat (a - p) else m a)),
     read_bytes = (\<lambda>p n m. Some (map (\<lambda>i. m (p + of_nat i)) [0..<n]))\<rparr>"

definition ex_workload :: "(bytes \<rightharpoonup> bytes) workload_host" where
  "ex_workload = \<lparr>wh_fetch = (\<lambda>mode index h. if mode = 13 then Some [1, 2, 3] else None), wh_storage_read = (\<lambda>k h. h k),
     wh_storage_write = (\<lambda>k v h. h(k \<mapsto> v)), wh_storage_delete = (\<lambda>k h. h(k := None)), wh_yield_value = (\<lambda>v h. h),
     wh_network_domain = (\<lambda>h. replicate 32 7), wh_log = (\<lambda>v h. h)\<rparr>"

definition ex_fetch_call :: "(unit, registers \<times> (u32 \<Rightarrow> u8) \<times> (bytes \<rightharpoonup> bytes)) outcome" where
  "ex_fetch_call = ecalli ex_memory ex_workload 1 0 (\<lambda>r. if r = 10 then 13 else 2, \<lambda>_. 0, Map.empty)"

theorem ecalli_confined_witness:
  "\<exists>regs' mem' h'. ex_fetch_call = Ok (regs', mem', h') \<and> regs' 7 = 3 \<and> mem' 2 = 3 \<and> regs' 8 = 2 \<and> h' = Map.empty"
proof -
  obtain regs' mem' h' where e: "the_ok ex_fetch_call = (regs', mem', h')" by (cases "the_ok ex_fetch_call")
  have "is_ok ex_fetch_call" by code_simp
  then have ok: "ex_fetch_call = Ok (regs', mem', h')" using is_ok_eq e by metis
  have "fst (the_ok ex_fetch_call) 7 = 3 \<and> fst (snd (the_ok ex_fetch_call)) 2 = 3" by code_simp
  then have r: "regs' 7 = 3" "mem' 2 = 3" unfolding e by simp_all
  obtain call where "(1 :: u32) = host_call_id call" "regs' 8 = 2" "call \<in> {Gas, Fetch, Read, NetworkDomain} \<longrightarrow> h' = Map.empty"
    using ecalli_confined [OF ok [unfolded ex_fetch_call_def]] by auto
  then have "regs' 8 = 2" "h' = Map.empty" by (cases call; simp)+
  with ok r show ?thesis by blast
qed

end
