(* ===== verification/System_Service.thy ===== *)
theory System_Service
  imports Service_Sdk MiniJam_Run
begin

text \<open>
  The system service, \<open>services/system-service/src/service.c\<close>: it decodes the batch of system
  operations that the chain hands to service 0, creates services, acknowledges allocations and
  leaves receipts in its storage.  A pointer into the input is the list of the bytes from there to
  the end.  The receipts are what \<open>pallets/minijam\<close> reads back.
\<close>

unbundle bit_operations_syntax

section \<open>Constants\<close>

definition SYSTEM_INPUT_MAX :: nat where "SYSTEM_INPUT_MAX = 16384"
definition REJECT_REQUEST_ID :: u32 where "REJECT_REQUEST_ID = 3"
definition REJECT_NONCE :: u32 where "REJECT_NONCE = 4"
definition REJECT_COMMAND :: u32 where "REJECT_COMMAND = 5"
definition REJECT_NEW :: u32 where "REJECT_NEW = 6"
definition REJECT_TRANSFER :: u32 where "REJECT_TRANSFER = 7"
definition STAGE0_SERVICE_BALANCE :: u64 where "STAGE0_SERVICE_BALANCE = 1024"
definition transfer_memo :: bytes where "transfer_memo = replicate 128 0"

definition LAST_NONCE_PREFIX :: bytes where "LAST_NONCE_PREFIX = ascii ''system/last-nonce/''"
definition RECEIPT_PREFIX :: bytes where "RECEIPT_PREFIX = ascii ''system/receipt/''"
definition ALLOCATION_PREFIX :: bytes where "ALLOCATION_PREFIX = ascii ''system/allocation/''"
definition REQUEST_DOMAIN :: bytes where "REQUEST_DOMAIN = ascii ''minijam/system-op/v2''"

section \<open>Helpers\<close>

definition load_u32 :: "bytes \<Rightarrow> u32" where
  "load_u32 p = ucast (p ! 0) OR push_bit 8 (ucast (p ! 1)) OR push_bit 16 (ucast (p ! 2)) OR push_bit 24 (ucast (p ! 3))"

definition load_u64 :: "bytes \<Rightarrow> u64" where
  "load_u64 p = ucast (load_u32 p) OR push_bit 32 (ucast (load_u32 (drop 4 p)))"

definition prefixed_key :: "bytes \<Rightarrow> bytes \<Rightarrow> bytes" where
  "prefixed_key prefix suffix = prefix @ suffix"

fun compact_u32 :: "bytes \<Rightarrow> (u32 \<times> bytes) option" where
  "compact_u32 [] = None"
| "compact_u32 (first # cursor) =
     (if first AND 3 = 0 then Some (ucast (drop_bit 2 first), cursor)
      else if first AND 3 = 1 \<and> length cursor \<ge> 1
      then Some (push_bit 6 (ucast (cursor ! 0)) OR ucast (drop_bit 2 first), drop 1 cursor)
      else if first AND 3 = 2 \<and> length cursor \<ge> 3
      then Some (ucast (drop_bit 2 first) OR push_bit 6 (ucast (cursor ! 0)) OR push_bit 14 (ucast (cursor ! 1))
                 OR push_bit 22 (ucast (cursor ! 2)), drop 3 cursor)
      else None)"

definition write_rejected :: "'h host \<Rightarrow> bytes \<Rightarrow> u32 \<Rightarrow> 'h \<Rightarrow> 'h" where
  "write_rejected H request_id code h =
     snd (minijam_storage_write H (prefixed_key RECEIPT_PREFIX request_id) (1 # to_le_bytes 4 code) h)"

definition service_request_id_matches :: "bytes \<Rightarrow> bytes \<Rightarrow> bytes \<Rightarrow> bytes \<Rightarrow> bool" where
  "service_request_id_matches request_id submitter encoded_nonce encoded_command =
     (let actual = minijam_blake2b_256 (REQUEST_DOMAIN @ submitter @ encoded_nonce @ encoded_command);
          difference = foldl (\<lambda>d i. d OR (actual ! i XOR request_id ! i)) 0 [0..<32]
      in difference = 0)"

definition nonce_is_fresh :: "'h host \<Rightarrow> bytes \<Rightarrow> u64 \<Rightarrow> 'h \<Rightarrow> bool" where
  "nonce_is_fresh H sender nonce h =
     (let (status, old_size, old) =
            minijam_storage_read H (prefixed_key LAST_NONCE_PREFIX sender) (replicate 8 0) h
      in status = MINIJAM_NOT_FOUND
         \<or> (status = MINIJAM_OK \<and> old_size = Some 8 \<and> nonce > load_u64 old))"

definition write_nonce :: "'h host \<Rightarrow> bytes \<Rightarrow> u64 \<Rightarrow> 'h \<Rightarrow> 'h" where
  "write_nonce H sender nonce h =
     snd (minijam_storage_write H (prefixed_key LAST_NONCE_PREFIX sender) (to_le_bytes 8 nonce) h)"

definition write_allocation_receipt :: "'h host \<Rightarrow> u64 \<Rightarrow> u8 \<Rightarrow> u32 \<Rightarrow> 'h \<Rightarrow> 'h" where
  "write_allocation_receipt H allocation_id status code h =
     snd (minijam_storage_write H (prefixed_key ALLOCATION_PREFIX (to_le_bytes 8 allocation_id))
            (status # to_le_bytes 4 code) h)"

definition apply_allocation :: "'h host \<Rightarrow> bytes \<Rightarrow> 'h \<Rightarrow> 'h" where
  "apply_allocation H command h = write_allocation_receipt H (load_u64 command) 0 0 h"

definition create_service :: "'h host \<Rightarrow> bytes \<Rightarrow> bytes \<Rightarrow> u64 \<Rightarrow> bytes \<Rightarrow> 'h \<Rightarrow> 'h" where
  "create_service H request_id submitter nonce command h =
     (let code_hash = take 32 command;
          code_len = load_u32 (drop 32 command);
          min_item_gas = load_u64 (drop 36 command);
          min_memo_gas = load_u64 (drop 44 command)
      in if \<not> nonce_is_fresh H submitter nonce h then write_rejected H request_id REJECT_NONCE h
         else let (sid, h) = h_new H code_hash (ucast code_len) min_item_gas min_memo_gas 0 (- 1) h in
         if sid > 0xffffffff then write_rejected H request_id REJECT_NEW h
         else let (transfer, h) = h_transfer H sid STAGE0_SERVICE_BALANCE min_memo_gas transfer_memo h in
         if transfer \<noteq> 0 then write_rejected H request_id REJECT_TRANSFER h
         else let receipt = 0 # to_le_bytes 4 (ucast sid :: u32);
                  h = snd (minijam_storage_write H (prefixed_key RECEIPT_PREFIX request_id) receipt h)
              in write_nonce H submitter nonce h)"

section \<open>Accumulation\<close>

text \<open>The loop over the operations.  \<open>None\<close> is an early return of the entry point.\<close>

primrec service_loop :: "'h host \<Rightarrow> nat \<Rightarrow> bytes \<Rightarrow> 'h \<Rightarrow> bytes option \<times> 'h" where
  "service_loop H 0 cursor h = (Some cursor, h)"
| "service_loop H (Suc n) cursor h =
     (if length cursor < 73 then (None, h)
      else let request_id = take 32 cursor;
               submitter = take 32 (drop 32 cursor);
               encoded_nonce = take 8 (drop 64 cursor);
               encoded_command = drop 72 cursor;
               nonce = load_u64 (drop 64 cursor);
               command = cursor ! 72;
               cursor = drop 73 cursor in
      if command = 0 then
        if length cursor < 52 then (None, h)
        else service_loop H n (drop 52 cursor)
               (if service_request_id_matches request_id submitter encoded_nonce (take 53 encoded_command)
                then create_service H request_id submitter nonce cursor h
                else write_rejected H request_id REJECT_REQUEST_ID h)
      else if command = 1 then
        if length cursor < 20 then (None, h)
        else service_loop H n (drop 20 cursor)
               (if \<not> service_request_id_matches request_id submitter encoded_nonce (take 21 encoded_command)
                then write_rejected H request_id REJECT_REQUEST_ID h
                else write_nonce H submitter nonce (apply_allocation H cursor h))
      else (None, write_rejected H request_id REJECT_COMMAND h))"

definition service_refine :: bytes where
  "service_refine = minijam_refine_ok []"

definition service_accumulate :: "'h host \<Rightarrow> 'h \<Rightarrow> 'h" where
  "service_accumulate H h =
     (let (status, input_size, input) = minijam_result H 0 (replicate SYSTEM_INPUT_MAX 0) h
      in if status \<noteq> MINIJAM_OK then h
         else case compact_u32 (take (unat (the input_size)) input) of
           None \<Rightarrow> h
         | Some (n, cursor) \<Rightarrow>
             if n > 64 then h
             else case service_loop H (unat n) cursor h of
               (None, h) \<Rightarrow> h
             | (Some cursor, h) \<Rightarrow> if cursor \<noteq> [] then h else minijam_yield H [] h)"

section \<open>Loads and comparisons\<close>

lemma load_u32_bytes: "load_u32 (to_le_bytes 4 v @ rest) = v" for v :: u32
proof (rule bit_word_eqI)
  fix j assume j: "j < LENGTH(32)"
  then have "j div 8 = 0 \<or> j div 8 = 1 \<or> j div 8 = 2 \<or> j div 8 = 3" by auto
  then show "bit (load_u32 (to_le_bytes 4 v @ rest)) j = bit v j"
    using j by (auto simp: load_u32_def to_le_bytes_def nth_append bit_simps upt_rec dest: bit_imp_le_length)
qed

lemma load_u64_bytes: "load_u64 (to_le_bytes 8 v @ rest) = v" for v :: u64
proof -
  have "to_le_bytes 8 v @ rest = to_le_bytes 4 (ucast v :: u32) @ to_le_bytes 4 (ucast (drop_bit 32 v) :: u32) @ rest"
    by (simp add: to_le_bytes_def upt_rec) (simp add: bit_eq_iff bit_simps add.commute)
  then have "load_u64 (to_le_bytes 8 v @ rest) = ucast (ucast v :: u32) OR push_bit 32 (ucast (ucast (drop_bit 32 v) :: u32))"
    unfolding load_u64_def by (simp add: load_u32_bytes)
  also have "\<dots> = v"
    by (auto simp: bit_eq_iff bit_simps)
  finally show ?thesis .
qed

lemma or_eq_0_word: "a OR b = 0 \<longleftrightarrow> a = 0 \<and> b = 0" for a b :: "'a::len word"
  by (auto simp: bit_eq_iff bit_simps)

lemma xor_eq_0_word: "a XOR b = 0 \<longleftrightarrow> b = a" for a b :: "'a::len word"
  by (auto simp: bit_eq_iff bit_simps)

lemma or_fold_zero: "foldl (\<lambda>d i. d OR f i) (0 :: u8) [0..<n] = 0 \<longleftrightarrow> (\<forall>i<n. f i = 0)"
  by (induction n) (auto simp: less_Suc_eq or_eq_0_word)

lemma service_request_id_matches_iff:
  assumes "length request_id = 32"
  shows "service_request_id_matches request_id submitter encoded_nonce encoded_command \<longleftrightarrow>
    request_id = minijam_blake2b_256 (REQUEST_DOMAIN @ submitter @ encoded_nonce @ encoded_command)"
  using assms length_blake2b by (auto simp: service_request_id_matches_def Let_def or_fold_zero xor_eq_0_word list_eq_iff_nth_eq)

section \<open>Reading the operand\<close>

text \<open>The operand of an accumulation, as the comment of \<open>minijam_result\<close> describes it.\<close>

definition operand :: "bytes \<Rightarrow> nat \<Rightarrow> bytes \<Rightarrow> bytes" where
  "operand hashes gas payload = 0 # hashes @ fnencode gas @ 0 # fnencode (length payload) @ payload"

lemma unat_of_nat_u64: "n < 2 ^ 40 \<Longrightarrow> unat (of_nat n :: u64) = n"
  by (simp add: unat_of_nat)

lemma segment_take: "k + n \<le> a \<Longrightarrow> take n (drop k (take a xs)) = take n (drop k xs)"
  by (simp add: drop_take)

lemma operand_drops:
  assumes "length hashes = 128"
  shows "drop 129 (operand hashes gas payload) = fnencode gas @ 0 # fnencode (length payload) @ payload"
    and "drop (129 + length (fnencode gas)) (operand hashes gas payload) = 0 # fnencode (length payload) @ payload"
    and "drop (129 + length (fnencode gas) + 1) (operand hashes gas payload) = fnencode (length payload) @ payload"
    and "drop (130 + length (fnencode gas) + length (fnencode (length payload))) (operand hashes gas payload) = payload"
proof -
  let ?item = "operand hashes gas payload" and ?o = "129 + length (fnencode gas)"
  show i1: "drop 129 ?item = fnencode gas @ 0 # fnencode (length payload) @ payload"
    using assms by (simp add: operand_def drop_Cons')
  show i2: "drop ?o ?item = 0 # fnencode (length payload) @ payload"
    using drop_drop [of "length (fnencode gas)" 129 ?item] unfolding i1 by (simp add: add.commute)
  show i3: "drop (?o + 1) ?item = fnencode (length payload) @ payload"
    using drop_drop [of 1 ?o ?item] unfolding i2 by simp
  show "drop (130 + length (fnencode gas) + length (fnencode (length payload))) ?item = payload"
    using drop_drop [of "length (fnencode (length payload))" "?o + 1" ?item] unfolding i3
    by (simp add: add.commute add.left_commute)
qed

lemma minijam_result_operand:
  assumes "h_fetch H 15 index h = Some (operand hashes gas payload)" "length hashes = 128" "gas < 2 ^ 56"
    and "length payload \<le> length output" "length output < 2 ^ 32"
  shows "minijam_result H index output h = (MINIJAM_OK, Some (of_nat (length payload)), payload @ drop (length payload) output)"
proof -
  let ?item = "operand hashes gas payload" and ?g = "length (fnencode gas)" and ?p = "length (fnencode (length payload))"
  let ?prefix = "copy_item (Some ?item) 0 (replicate 160 0)"
  let ?o = "129 + ?g" and ?o2 = "130 + ?g + ?p"
  have gp: "1 \<le> ?g" "?g \<le> 8" "1 \<le> ?p" "?p \<le> 8"
    using length_fnencode [of gas] length_fnencode [of "length payload"] by auto
  have len: "length ?item = 130 + ?g + ?p + length payload"
    using assms(2) by (simp add: operand_def)
  then have small: "length ?item < 2 ^ 40" using gp assms(4,5) by simp
  then have size: "host_length (Some ?item) = of_nat (length ?item)" "unat (of_nat (length ?item) :: u64) = length ?item"
    by (simp_all add: host_length_def unat_of_nat_u64)
  have none: "of_nat (length ?item) \<noteq> MINIJAM_HOST_NONE"
  proof
    assume "of_nat (length ?item) = MINIJAM_HOST_NONE"
    then have "length ?item = unat (- 1 :: u64)" using size(2) by (simp add: MINIJAM_HOST_NONE_def)
    then show False using small by (simp add: unat_max_word)
  qed
  define available where "available = (if (of_nat (length ?item) :: u64) < 160 then unat (of_nat (length ?item) :: u64) else 160)"
  have avail: "available = min (length ?item) 160"
    unfolding available_def using size(2) by (simp add: word_less_nat_alt min_def)
  have prefix: "take available ?prefix = take available ?item" "length ?prefix = 160 \<or> length ?prefix \<ge> 160"
    unfolding avail by (auto simp: copy_item_def copy_into_def min_def)
  have o2: "?o2 \<le> available" using len gp unfolding avail by simp
  have seg: "take n (drop k ?prefix) = take n (drop k ?item)" if "k + n \<le> available" for k n
    using segment_take [OF that, of ?prefix] segment_take [OF that, of ?item] prefix(1) by simp
  have lp: "available \<le> length ?prefix" using prefix(2) unfolding avail by auto
  note i = operand_drops [OF assms(2), of gas payload]
  have d1: "decode_fnencode ?prefix available 129 = Some (?o, of_nat gas)"
    using decode_fnencode_encode [of gas 129 available ?prefix] assms(3) o2 lp seg [of 129 ?g] unfolding i(1) by simp
  have "take 1 (drop ?o ?prefix) = [0]"
    using o2 gp seg [of ?o 1] unfolding i(2) by simp
  then have "take 1 (drop ?o ?prefix) ! 0 = 0" by simp
  then have z: "?prefix ! ?o = 0" using o2 lp by (simp del: drop_drop)
  have d2: "decode_fnencode ?prefix available (?o + 1) = Some (?o2, of_nat (length payload))"
    using decode_fnencode_encode [of "length payload" "?o + 1" available ?prefix] assms(4,5) o2 lp seg [of "?o + 1" ?p]
    unfolding i(3) by simp
  have cp: "copy_item (Some ?item) ?o2 (take (length payload) output) = payload"
    using assms(4) by (simp add: copy_item_def copy_into_def i(4))
  have np: "unat (of_nat (length payload) :: u64) = length payload" "\<not> of_nat (length payload) > (of_nat (length output) :: u64)"
    using assms(4,5) by (simp_all add: unat_of_nat_u64 word_less_nat_alt)
  show ?thesis
    unfolding minijam_result_def Let_def assms(1) size(1) available_def [symmetric]
    using none o2 gp d1 z d2 cp np by simp
qed

section \<open>The batch\<close>

text \<open>
  The SCALE layout of a batch, as the comments of the service give it: a compact count, then per
  operation the request id, the submitter, the nonce, the tag of the command and its fields.
\<close>

definition scale_compact :: "nat \<Rightarrow> bytes" where
  "scale_compact n = (if n < 64 then [of_nat (4 * n)] else to_le_bytes 2 (of_nat (4 * n + 1) :: u16))"

definition scale_op :: "(system_command \<Rightarrow> bytes) \<Rightarrow> system_op \<Rightarrow> bytes" where
  "scale_op encode op = op_request_id op @ op_submitter op @ to_le_bytes 8 (op_nonce op) @ encode (op_command op)"

definition scale_layout :: "(system_command \<Rightarrow> bytes) \<Rightarrow> (system_op list \<Rightarrow> bytes) \<Rightarrow> bool" where
  "scale_layout encode encode_ops \<longleftrightarrow>
     (\<forall>c l g m. encode (CreateService c l g m) = 0 # c @ to_le_bytes 4 l @ to_le_bytes 8 g @ to_le_bytes 8 m)
     \<and> (\<forall>i t a. encode (ApplyAllocation i t a) = 1 # to_le_bytes 8 i @ to_le_bytes 4 t @ to_le_bytes 8 a)
     \<and> (\<forall>ops. length ops \<le> 64 \<longrightarrow> encode_ops ops = scale_compact (length ops) @ concat (map (scale_op encode) ops))"

text \<open>The fields that are byte arrays in Rust have their length.\<close>

definition op_shape :: "system_op \<Rightarrow> bool" where
  "op_shape op \<longleftrightarrow> length (op_request_id op) = 32 \<and> length (op_submitter op) = 32
     \<and> (case op_command op of CreateService c l g m \<Rightarrow> length c = 32 | ApplyAllocation i t a \<Rightarrow> True)"

text \<open>What the service means to do with one operation.\<close>

definition create_from :: "'h host \<Rightarrow> bytes \<Rightarrow> bytes \<Rightarrow> u64 \<Rightarrow> hash \<Rightarrow> u32 \<Rightarrow> u64 \<Rightarrow> u64 \<Rightarrow> 'h \<Rightarrow> 'h" where
  "create_from H request_id submitter nonce c l g m h =
     (if \<not> nonce_is_fresh H submitter nonce h then write_rejected H request_id REJECT_NONCE h
      else let (sid, h) = h_new H c (ucast l) g m 0 (- 1) h in
      if sid > 0xffffffff then write_rejected H request_id REJECT_NEW h
      else let (transfer, h) = h_transfer H sid STAGE0_SERVICE_BALANCE m transfer_memo h in
      if transfer \<noteq> 0 then write_rejected H request_id REJECT_TRANSFER h
      else write_nonce H submitter nonce
             (snd (minijam_storage_write H (RECEIPT_PREFIX @ request_id) (0 # to_le_bytes 4 (ucast sid :: u32)) h)))"

definition service_op :: "'h host \<Rightarrow> (system_command \<Rightarrow> bytes) \<Rightarrow> 'h \<Rightarrow> system_op \<Rightarrow> 'h" where
  "service_op H encode h op =
     (if \<not> request_id_matches minijam_blake2b_256 encode op
      then write_rejected H (op_request_id op) REJECT_REQUEST_ID h
      else case op_command op of
             CreateService c l g m \<Rightarrow> create_from H (op_request_id op) (op_submitter op) (op_nonce op) c l g m h
           | ApplyAllocation i t a \<Rightarrow>
               write_nonce H (op_submitter op) (op_nonce op) (write_allocation_receipt H i 0 0 h))"

lemma compact_byte_all:
  "list_all (\<lambda>n. (of_nat (4 * n) :: u8) AND 3 = 0 \<and> (ucast (drop_bit 2 (of_nat (4 * n) :: u8)) :: u32) = of_nat n) [0..<64]"
  by code_simp

lemma compact_u32_scale:
  assumes "n \<le> 64"
  shows "compact_u32 (scale_compact n @ rest) = Some (of_nat n, rest)"
proof (cases "n < 64")
  case True
  then show ?thesis
    using compact_byte_all by (auto simp: scale_compact_def list_all_iff)
next
  case False
  then have n: "n = 64" using assms by simp
  have "scale_compact 64 = [1, 1]" by code_simp
  moreover have "(1 :: u8) AND 3 = 1" "push_bit 6 (ucast (1 :: u8)) OR ucast (drop_bit 2 (1 :: u8)) = (64 :: u32)" by code_simp+
  ultimately show ?thesis by (simp add: n)
qed

lemma service_matches:
  assumes "length (op_request_id op) = 32"
  shows "service_request_id_matches (op_request_id op) (op_submitter op) (to_le_bytes 8 (op_nonce op)) (encode (op_command op))
    \<longleftrightarrow> request_id_matches minijam_blake2b_256 encode op"
  by (simp add: service_request_id_matches_iff [OF assms] request_id_matches_def compute_request_id_def request_payload_def
      REQUEST_DOMAIN_def SYSTEM_OP_REQUEST_DOMAIN_V2_def)

lemma create_service_fields:
  assumes "length c = 32"
  shows "create_service H rid submitter nonce (c @ to_le_bytes 4 l @ to_le_bytes 8 g @ to_le_bytes 8 m @ rest) h
    = create_from H rid submitter nonce c l g m h"
proof -
  let ?c = "c @ to_le_bytes 4 l @ to_le_bytes 8 g @ to_le_bytes 8 m @ rest"
  have f: "take 32 ?c = c" "load_u32 (drop 32 ?c) = l" "load_u64 (drop 36 ?c) = g" "load_u64 (drop 44 ?c) = m"
    using assms by (simp_all add: load_u32_bytes load_u64_bytes)
  show ?thesis
    unfolding create_service_def create_from_def prefixed_key_def Let_def f ..
qed

lemma service_loop_step:
  assumes "scale_layout encode encode_ops" "op_shape op"
  shows "service_loop H (Suc n) (scale_op encode op @ rest) h = service_loop H n rest (service_op H encode h op)"
proof -
  let ?c = "scale_op encode op @ rest"
  have len: "length (op_request_id op) = 32" "length (op_submitter op) = 32" using assms(2) by (simp_all add: op_shape_def)
  have seg: "take 32 ?c = op_request_id op" "take 32 (drop 32 ?c) = op_submitter op"
    "take 8 (drop 64 ?c) = to_le_bytes 8 (op_nonce op)" "drop 72 ?c = encode (op_command op) @ rest"
    "load_u64 (drop 64 ?c) = op_nonce op"
    using len load_u64_bytes [of "op_nonce op" "encode (op_command op) @ rest"] by (simp_all add: scale_op_def)
  have nth: "?c ! 72 = (encode (op_command op) @ rest) ! 0" "drop 73 ?c = drop 1 (encode (op_command op) @ rest)"
    "length ?c = 72 + length (encode (op_command op)) + length rest"
    using len by (simp_all add: scale_op_def nth_append)
  note m = service_matches [OF len(1), of encode]
  show ?thesis
  proof (cases "op_command op")
    case (CreateService c l g m')
    then have e: "encode (op_command op) = 0 # c @ to_le_bytes 4 l @ to_le_bytes 8 g @ to_le_bytes 8 m'" and lc: "length c = 32"
      using assms by (simp_all add: scale_layout_def op_shape_def)
    have cs: "create_service H (op_request_id op) (op_submitter op) (op_nonce op) (drop 73 ?c) h
        = create_from H (op_request_id op) (op_submitter op) (op_nonce op) c l g m' h"
      unfolding nth(2) e using create_service_fields [OF lc] by simp
    have "take 53 (drop 72 ?c) = encode (op_command op)" "length (drop 73 ?c) = 52 + length rest" "drop 52 (drop 73 ?c) = rest"
      unfolding seg(4) nth(2) e using lc by simp_all
    then show ?thesis
      unfolding service_loop.simps(2) Let_def seg cs nth(1) using nth(3) m CreateService e lc
      by (simp add: service_op_def del: drop_drop)
  next
    case (ApplyAllocation i t a)
    then have e: "encode (op_command op) = 1 # to_le_bytes 8 i @ to_le_bytes 4 t @ to_le_bytes 8 a"
      using assms by (simp add: scale_layout_def)
    have al: "apply_allocation H (drop 73 ?c) h = write_allocation_receipt H i 0 0 h"
      unfolding nth(2) e using load_u64_bytes [of i "to_le_bytes 4 t @ to_le_bytes 8 a @ rest"] by (simp add: apply_allocation_def)
    have "take 21 (drop 72 ?c) = encode (op_command op)" "length (drop 73 ?c) = 20 + length rest" "drop 20 (drop 73 ?c) = rest"
      unfolding seg(4) nth(2) e by simp_all
    then show ?thesis
      unfolding service_loop.simps(2) Let_def seg al nth(1) using nth(3) m ApplyAllocation e
      by (simp add: service_op_def del: drop_drop)
  qed
qed

lemma service_loop_batch:
  assumes "scale_layout encode encode_ops" "\<forall>op\<in>set ops. op_shape op"
  shows "service_loop H (length ops) (concat (map (scale_op encode) ops)) h = (Some [], foldl (service_op H encode) h ops)"
  using assms(2)
proof (induction ops arbitrary: h)
  case (Cons op ops)
  then have "op_shape op" by simp
  then have "service_loop H (Suc (length ops)) (scale_op encode op @ concat (map (scale_op encode) ops)) h
      = service_loop H (length ops) (concat (map (scale_op encode) ops)) (service_op H encode h op)"
    by (rule service_loop_step [OF assms(1)])
  then show ?case using Cons by (simp del: service_loop.simps(2))
qed simp

lemma length_scale_op: "scale_layout encode encode_ops \<Longrightarrow> op_shape op \<Longrightarrow> length (scale_op encode op) \<le> 125"
  by (cases "op_command op") (auto simp: scale_layout_def op_shape_def scale_op_def)

lemma length_batch:
  assumes "scale_layout encode encode_ops" "\<forall>op\<in>set ops. op_shape op"
  shows "length (concat (map (scale_op encode) ops)) \<le> 125 * length ops"
  using assms(2)
proof (induction ops)
  case (Cons op ops)
  then show ?case using length_scale_op [OF assms(1), of op] by simp
qed simp

section \<open>Properties\<close>

text \<open>
  C5. The service executes exactly the batch it is given.  When the host hands it the SCALE
  encoding of at most 64 well-shaped operations as the accumulation operand, the byte-level entry
  point applies each operation once, in order, with the request id checked against the protocol's
  commitment, and yields.
\<close>

theorem service_executes_batch:
  assumes "scale_layout encode encode_ops" "length ops \<le> 64" "\<forall>op\<in>set ops. op_shape op"
    and "h_fetch H 15 0 h = Some (operand hashes gas (encode_ops ops))" "length hashes = 128" "gas < 2 ^ 56"
  shows "service_accumulate H h = snd (h_yield H (replicate 32 0) (foldl (service_op H encode) h ops))"
proof -
  let ?p = "encode_ops ops"
  have enc: "?p = scale_compact (length ops) @ concat (map (scale_op encode) ops)"
    using assms(1,2) by (simp add: scale_layout_def)
  have "length ?p \<le> 2 + 125 * 64"
    using length_batch [OF assms(1,3)] assms(2) unfolding enc by (simp add: scale_compact_def)
  then have p: "length ?p \<le> SYSTEM_INPUT_MAX" "length ?p < 2 ^ 40" by (simp_all add: SYSTEM_INPUT_MAX_def)
  have r: "minijam_result H 0 (replicate SYSTEM_INPUT_MAX 0) h
      = (MINIJAM_OK, Some (of_nat (length ?p)), ?p @ drop (length ?p) (replicate SYSTEM_INPUT_MAX 0))"
    using assms(4-6) p(1) by (intro minijam_result_operand) (simp_all add: SYSTEM_INPUT_MAX_def)
  have n: "unat (of_nat (length ops) :: u32) = length ops" "\<not> (of_nat (length ops) :: u32) > 64"
    using assms(2) by (simp_all add: unat_of_nat word_less_nat_alt)
  have c: "compact_u32 ?p = Some (of_nat (length ops), concat (map (scale_op encode) ops))"
    unfolding enc by (rule compact_u32_scale [OF assms(2)])
  show ?thesis
    unfolding service_accumulate_def r Let_def
    using unat_of_nat_u64 [OF p(2)] c n service_loop_batch [OF assms(1,3), of H h]
    by (simp add: minijam_yield_def copy_into_def)
qed

text \<open>What the service relies on: a write is taken and seen by a read, and touches nothing else.\<close>

definition host_storage :: "'h host \<Rightarrow> bool" where
  "host_storage H \<longleftrightarrow>
     (\<forall>k v h. v \<noteq> [] \<longrightarrow> h_read H k (snd (h_write H k v h)) = Some v)
     \<and> (\<forall>k v h k'. k' \<noteq> k \<longrightarrow> h_read H k' (snd (h_write H k v h)) = h_read H k' h)
     \<and> (\<forall>c l g m a b h k. h_read H k (snd (h_new H c l g m a b h)) = h_read H k h)
     \<and> (\<forall>s a g m h k. h_read H k (snd (h_transfer H s a g m h)) = h_read H k h)"

lemma host_storageD:
  assumes "host_storage H"
  shows "v \<noteq> [] \<Longrightarrow> h_read H k (snd (minijam_storage_write H k v h)) = Some v"
    and "k' \<noteq> k \<Longrightarrow> h_read H k' (snd (minijam_storage_write H k v h)) = h_read H k' h"
    and "h_new H c l g m a b h = (r, h') \<Longrightarrow> h_read H k h' = h_read H k h"
    and "h_transfer H s a g m' h = (r, h') \<Longrightarrow> h_read H k h' = h_read H k h"
proof -
  have w: "snd (minijam_storage_write H k v h) = snd (h_write H k v h)" for k v h
    by (simp add: minijam_storage_write_def split_beta Let_def)
  show "v \<noteq> [] \<Longrightarrow> h_read H k (snd (minijam_storage_write H k v h)) = Some v"
    and "k' \<noteq> k \<Longrightarrow> h_read H k' (snd (minijam_storage_write H k v h)) = h_read H k' h"
    unfolding w using assms by (simp_all add: host_storage_def)
  show "h_new H c l g m a b h = (r, h') \<Longrightarrow> h_read H k h' = h_read H k h"
    and "h_transfer H s a g m' h = (r, h') \<Longrightarrow> h_read H k h' = h_read H k h"
    using assms unfolding host_storage_def by (metis snd_conv)+
qed

lemma service_keys_distinct [simp]:
  "LAST_NONCE_PREFIX @ a \<noteq> RECEIPT_PREFIX @ b" "LAST_NONCE_PREFIX @ a \<noteq> ALLOCATION_PREFIX @ b"
  "ALLOCATION_PREFIX @ a \<noteq> LAST_NONCE_PREFIX @ b"
  by (simp_all add: LAST_NONCE_PREFIX_def RECEIPT_PREFIX_def ALLOCATION_PREFIX_def ascii_def)

definition last_nonce :: "'h host \<Rightarrow> bytes \<Rightarrow> 'h \<Rightarrow> bytes option" where
  "last_nonce H submitter h = h_read H (LAST_NONCE_PREFIX @ submitter) h"

lemma nonce_is_fresh_Some:
  assumes "last_nonce H submitter h = Some (to_le_bytes 8 n)"
  shows "nonce_is_fresh H submitter nonce h \<longleftrightarrow> n < nonce"
proof -
  have "host_length (Some (to_le_bytes 8 n)) = 8" "(8::u64) \<noteq> MINIJAM_HOST_NONE"
    by (simp_all add: host_length_def MINIJAM_HOST_NONE_def)
  moreover have "copy_item (Some (to_le_bytes 8 n)) 0 (replicate 8 0) = to_le_bytes 8 n"
    by (simp add: copy_item_def copy_into_def)
  ultimately show ?thesis
    using assms load_u64_bytes [of n "[]"]
    by (simp add: nonce_is_fresh_def minijam_storage_read_def last_nonce_def prefixed_key_def Let_def)
qed

lemma last_nonce_writes:
  assumes "host_storage H"
  shows "last_nonce H s (write_nonce H s' n h) = (if s' = s then Some (to_le_bytes 8 n) else last_nonce H s h)"
    and "last_nonce H s (write_rejected H rid code h) = last_nonce H s h"
    and "last_nonce H s (write_allocation_receipt H i st code h) = last_nonce H s h"
    and "last_nonce H s (snd (minijam_storage_write H (RECEIPT_PREFIX @ rid) v h)) = last_nonce H s h"
    and "h_new H c l g m a b h = (r, h') \<Longrightarrow> last_nonce H s h' = last_nonce H s h"
    and "h_transfer H t am g m' h = (r, h') \<Longrightarrow> last_nonce H s h' = last_nonce H s h"
proof -
  have "to_le_bytes 8 n \<noteq> []" using length_to_le_bytes [of 8 n] by fastforce
  then show "last_nonce H s (write_nonce H s' n h) = (if s' = s then Some (to_le_bytes 8 n) else last_nonce H s h)"
    using host_storageD(1,2) [OF assms] by (simp add: last_nonce_def write_nonce_def prefixed_key_def)
qed (simp_all add: last_nonce_def write_rejected_def write_allocation_receipt_def prefixed_key_def
    host_storageD(2) [OF assms] host_storageD(3) [OF assms] host_storageD(4) [OF assms])

lemma create_from_nonce:
  assumes "host_storage H"
  shows "last_nonce H s (create_from H rid submitter nonce c l g m h) = last_nonce H s h
    \<or> s = submitter \<and> nonce_is_fresh H submitter nonce h
      \<and> last_nonce H s (create_from H rid submitter nonce c l g m h) = Some (to_le_bytes 8 nonce)"
proof -
  obtain sid h1 where n: "h_new H c (ucast l) g m 0 (- 1) h = (sid, h1)" by (cases "h_new H c (ucast l) g m 0 (- 1) h")
  obtain tr h2 where t: "h_transfer H sid STAGE0_SERVICE_BALANCE m transfer_memo h1 = (tr, h2)"
    by (cases "h_transfer H sid STAGE0_SERVICE_BALANCE m transfer_memo h1")
  have "last_nonce H s h1 = last_nonce H s h" "last_nonce H s h2 = last_nonce H s h1"
    using last_nonce_writes(5) [OF assms n] last_nonce_writes(6) [OF assms t] by blast+
  then show ?thesis
    unfolding create_from_def n t Let_def prod.case by (simp add: last_nonce_writes(1-4) [OF assms])
qed

text \<open>A creation goes through when the nonce is fresh, the host makes the service and funds it.\<close>

definition creates :: "'h host \<Rightarrow> system_op \<Rightarrow> 'h \<Rightarrow> bool" where
  "creates H op h \<longleftrightarrow> (case op_command op of
     CreateService c l g m \<Rightarrow>
       nonce_is_fresh H (op_submitter op) (op_nonce op) h
       \<and> (let (sid, h) = h_new H c (ucast l) g m 0 (- 1) h in
          sid \<le> 0xffffffff \<and> fst (h_transfer H sid STAGE0_SERVICE_BALANCE m transfer_memo h) = 0)
   | ApplyAllocation i t a \<Rightarrow> False)"

lemma creates_nonce:
  assumes "host_storage H" "creates H op h" "request_id_matches minijam_blake2b_256 encode op"
  shows "last_nonce H (op_submitter op) (service_op H encode h op) = Some (to_le_bytes 8 (op_nonce op))"
  using assms
  by (auto simp: creates_def service_op_def create_from_def Let_def not_less [symmetric] last_nonce_writes(1)
      split: system_command.splits prod.splits)

definition nonce_at_least :: "'h host \<Rightarrow> bytes \<Rightarrow> u64 \<Rightarrow> 'h \<Rightarrow> bool" where
  "nonce_at_least H s n h \<longleftrightarrow> (\<exists>n'. n \<le> n' \<and> last_nonce H s h = Some (to_le_bytes 8 n'))"

definition is_create :: "system_op \<Rightarrow> bool" where
  "is_create op \<longleftrightarrow> (case op_command op of CreateService c l g m \<Rightarrow> True | ApplyAllocation i t a \<Rightarrow> False)"

lemma service_op_nonce:
  assumes "host_storage H" "nonce_at_least H s n h" "op_submitter op = s \<longrightarrow> is_create op"
  shows "nonce_at_least H s n (service_op H encode h op)"
proof -
  obtain n' where n': "n \<le> n'" "last_nonce H s h = Some (to_le_bytes 8 n')"
    using assms(2) by (auto simp: nonce_at_least_def)
  show ?thesis
  proof (cases "op_command op")
    case (CreateService c l g m)
    let ?h = "create_from H (op_request_id op) (op_submitter op) (op_nonce op) c l g m h"
    have "nonce_at_least H s n ?h"
      using create_from_nonce [OF assms(1), of s "op_request_id op" "op_submitter op" "op_nonce op" c l g m h]
    proof (elim disjE conjE)
      assume "last_nonce H s ?h = last_nonce H s h"
      then show ?thesis using n' by (auto simp: nonce_at_least_def)
    next
      assume "s = op_submitter op" "nonce_is_fresh H (op_submitter op) (op_nonce op) h"
        and l: "last_nonce H s ?h = Some (to_le_bytes 8 (op_nonce op))"
      then have "n \<le> op_nonce op" using nonce_is_fresh_Some [OF n'(2)] n'(1) by auto
      then show ?thesis using l by (auto simp: nonce_at_least_def)
    qed
    then show ?thesis
      using CreateService n' by (auto simp: service_op_def nonce_at_least_def last_nonce_writes [OF assms(1)])
  next
    case (ApplyAllocation i t a)
    then show ?thesis
      using assms(3) n' by (auto simp: service_op_def nonce_at_least_def is_create_def last_nonce_writes [OF assms(1)])
  qed
qed

text \<open>
  C14. A service is created once per operation.  After an operation has created a service, the same
  operation is rejected for its nonce, whatever operations come between, provided its submitter
  sends only creations.
\<close>

theorem service_created_once:
  assumes "host_storage H" "request_id_matches minijam_blake2b_256 encode op" "creates H op h"
    and "\<forall>op'\<in>set ops. op_submitter op' = op_submitter op \<longrightarrow> is_create op'"
  defines "h' \<equiv> foldl (service_op H encode) (service_op H encode h op) ops"
  shows "service_op H encode h' op = write_rejected H (op_request_id op) REJECT_NONCE h'"
proof -
  have run: "nonce_at_least H (op_submitter op) n (foldl (service_op H encode) h ops)"
    if "nonce_at_least H (op_submitter op) n h" for n h
    using that assms(4) by (induction ops arbitrary: h) (simp_all add: service_op_nonce [OF assms(1)])
  have "nonce_at_least H (op_submitter op) (op_nonce op) (service_op H encode h op)"
    using creates_nonce [OF assms(1,3,2)] by (auto simp: nonce_at_least_def)
  then have "nonce_at_least H (op_submitter op) (op_nonce op) h'"
    unfolding h'_def by (rule run)
  then have "\<not> nonce_is_fresh H (op_submitter op) (op_nonce op) h'"
    by (auto simp: nonce_at_least_def nonce_is_fresh_Some not_less)
  then show ?thesis
    using assms(2,3) by (auto simp: service_op_def create_from_def creates_def split: system_command.splits)
qed

text \<open>
  C39. An allocation lowers the nonce.  An acknowledged allocation stores its own nonce for its
  submitter without comparing it, so afterwards every larger nonce counts as fresh, also one whose
  creation was carried out before.
\<close>

theorem allocation_reopens_nonce:
  assumes "host_storage H" "request_id_matches minijam_blake2b_256 encode op" "\<not> is_create op" "op_nonce op < n"
  shows "nonce_is_fresh H (op_submitter op) n (service_op H encode h op)"
proof -
  have "last_nonce H (op_submitter op) (service_op H encode h op) = Some (to_le_bytes 8 (op_nonce op))"
    using assms(2,3) by (auto simp: service_op_def is_create_def last_nonce_writes [OF assms(1)] split: system_command.splits)
  from nonce_is_fresh_Some [OF this] assms(4) show ?thesis by simp
qed

text \<open>
  C15. The chain finds the receipt the service leaves.  When the protocol state shows the storage
  of service 0 after it has applied an allocation, the pallet's check of that allocation succeeds:
  both sides use the same key and the receipt has the form the pallet expects.
\<close>

theorem allocation_receipt_found:
  assumes "host_storage H" "request_id_matches minijam_blake2b_256 encode op" "op_command op = ApplyAllocation i t a"
    and "\<And>k. ProtocolState m (service_storage_key M SYSTEM_SERVICE_ID k) = h_read H k (service_op H encode h op)"
    and "ProcessedAllocations m i = None" "allocation_of m i = Some pending"
  shows "consume_allocation M i m = Ok (mark_processed pending i m)"
proof -
  have "h_read H (ALLOCATION_PREFIX @ to_le_bytes 8 i) (service_op H encode h op) = Some (0 # to_le_bytes 4 (0::u32))"
    using assms(2,3) host_storageD(1,2) [OF assms(1)]
    by (simp add: service_op_def write_nonce_def write_allocation_receipt_def prefixed_key_def)
  then have "ProtocolState m (allocation_receipt_state_key M i) = Some (0 # to_le_bytes 4 (0::u32))"
    unfolding allocation_receipt_state_key_def assms(4) by (simp add: ALLOCATION_RECEIPT_PREFIX_def ALLOCATION_PREFIX_def)
  then show ?thesis
    using assms(5,6) by (simp add: consume_allocation_def ensure_def ok_or_def)
qed

section \<open>A concrete host\<close>

record plain_host =
  ph_operand :: bytes
  ph_storage :: "bytes \<rightharpoonup> bytes"
  ph_next :: u64
  ph_yielded :: "bytes list"

definition plain :: "plain_host host" where
  "plain = \<lparr>h_fetch = (\<lambda>mode index h. if mode = 15 \<and> index = 0 then Some (ph_operand h) else None),
     h_read = (\<lambda>k h. ph_storage h k),
     h_write = (\<lambda>k v h. (0, h\<lparr>ph_storage := (ph_storage h)(k := if v = [] then None else Some v)\<rparr>)),
     h_new = (\<lambda>c l g m a b h. (ph_next h, h\<lparr>ph_next := ph_next h + 1\<rparr>)),
     h_transfer = (\<lambda>s a g m h. (0, h)),
     h_yield = (\<lambda>v h. (0, h\<lparr>ph_yielded := v # ph_yielded h\<rparr>)),
     h_log = (\<lambda>v h. (0, h))\<rparr>"

definition ex_encode :: "system_command \<Rightarrow> bytes" where
  "ex_encode cmd = (case cmd of
     CreateService c l g m \<Rightarrow> 0 # c @ to_le_bytes 4 l @ to_le_bytes 8 g @ to_le_bytes 8 m
   | ApplyAllocation i t a \<Rightarrow> 1 # to_le_bytes 8 i @ to_le_bytes 4 t @ to_le_bytes 8 a)"

definition ex_encode_ops :: "system_op list \<Rightarrow> bytes" where
  "ex_encode_ops ops = scale_compact (length ops) @ concat (map (scale_op ex_encode) ops)"

definition ex_create :: system_op where
  "ex_create = new_op minijam_blake2b_256 ex_encode (replicate 32 1) 7 (CreateService (replicate 32 9) 32 1 2)"

definition ex_allocate :: system_op where
  "ex_allocate = new_op minijam_blake2b_256 ex_encode (replicate 32 1) 3 (ApplyAllocation 11 19 500)"

definition ex_plain :: "system_op list \<Rightarrow> plain_host" where
  "ex_plain ops = \<lparr>ph_operand = operand (replicate 128 5) 1000 (ex_encode_ops ops), ph_storage = Map.empty,
     ph_next = 1, ph_yielded = []\<rparr>"

lemma ex_layout: "scale_layout ex_encode ex_encode_ops"
  by (simp add: scale_layout_def ex_encode_def ex_encode_ops_def)

lemma ex_ops_shape: "op_shape ex_create" "op_shape ex_allocate"
  by (simp_all add: op_shape_def ex_create_def ex_allocate_def new_op_def compute_request_id_def)

lemma ex_ops_match: "request_id_matches minijam_blake2b_256 ex_encode ex_create"
  "request_id_matches minijam_blake2b_256 ex_encode ex_allocate"
  by (simp_all add: ex_create_def ex_allocate_def)

lemma plain_storage: "host_storage plain"
  by (simp add: host_storage_def plain_def)

lemma ex_creates: "creates plain ex_create (ex_plain [ex_create])"
  by (simp add: creates_def ex_create_def new_op_def plain_def ex_plain_def nonce_is_fresh_def minijam_storage_read_def
      host_length_def Let_def word_le_nat_alt)

theorem service_executes_batch_witness:
  "service_accumulate plain (ex_plain [ex_create, ex_allocate]) =
     snd (h_yield plain (replicate 32 0)
       (service_op plain ex_encode (service_op plain ex_encode (ex_plain [ex_create, ex_allocate]) ex_create) ex_allocate))"
  using service_executes_batch [OF ex_layout, of "[ex_create, ex_allocate]" plain "ex_plain [ex_create, ex_allocate]"
      "replicate 128 5" 1000] ex_ops_shape
  by (simp add: plain_def ex_plain_def)

theorem service_created_once_witness:
  "service_op plain ex_encode (service_op plain ex_encode (ex_plain [ex_create]) ex_create) ex_create =
     write_rejected plain (op_request_id ex_create) REJECT_NONCE (service_op plain ex_encode (ex_plain [ex_create]) ex_create)"
  using service_created_once [OF plain_storage ex_ops_match(1) ex_creates, of "[]"] by simp

theorem allocation_reopens_nonce_witness:
  "nonce_is_fresh plain (replicate 32 1) 7 (service_op plain ex_encode
     (service_op plain ex_encode (ex_plain [ex_create]) ex_create) ex_allocate)"
proof -
  have "\<not> is_create ex_allocate" "op_nonce ex_allocate < 7" "op_submitter ex_allocate = replicate 32 1"
    by (simp_all add: is_create_def ex_allocate_def new_op_def)
  with allocation_reopens_nonce [OF plain_storage ex_ops_match(2)] show ?thesis by metis
qed

definition ex_pending :: pending_allocation where
  "ex_pending = \<lparr>pa_submitter = [1], pa_allocation = \<lparr>al_allocation_id = 11, al_target_service = 19, al_amount = 500\<rparr>\<rparr>"

definition ex_service_state :: "ledger minijam_state" where
  "ex_service_state = jam_ex_genesis
     \<lparr>ProtocolState := ph_storage (service_op plain ex_encode (ex_plain []) ex_allocate),
      PendingAllocations := [(11, ex_pending)], ProcessedAllocations := Map.empty\<rparr>"

theorem allocation_receipt_found_witness:
  "consume_allocation jam_ex_env 11 ex_service_state = Ok (mark_processed ex_pending 11 ex_service_state)"
proof (rule allocation_receipt_found [OF plain_storage ex_ops_match(2)])
  show "op_command ex_allocate = ApplyAllocation 11 19 500"
    by (simp add: ex_allocate_def new_op_def)
  show "ProtocolState ex_service_state (service_storage_key jam_ex_env SYSTEM_SERVICE_ID k) =
      h_read plain k (service_op plain ex_encode (ex_plain []) ex_allocate)" for k
    by (simp add: ex_service_state_def jam_ex_env_def, simp add: plain_def)
  show "ProcessedAllocations ex_service_state 11 = None" "allocation_of ex_service_state 11 = Some ex_pending"
    by (simp_all add: ex_service_state_def)
qed

end
