(* ===== verification/WorkerEngine.thy ===== *)
theory WorkerEngine
  imports Protocol Ranking
begin

text \<open>
  \<open>crates/minijam-worker-engine\<close>: content verification, worker ranking, batch assignment, the
  vote state machine of one candidate round, and the slash amounts.  Hash function, bundle codec
  and content transport are arguments.  The lemmas show the quality of the ranking, that an
  assignment respects pool, distinctness and duty bounds and succeeds whenever the pool has
  capacity, and that a locked outcome of a round never changes.
\<close>

section \<open>Content and bundle verification\<close>

datatype content_verification_error = EmptyCid | SizeLimitExceeded | SizeMismatch | HashMismatch

datatype work_bundle_decode_error =
  InvalidEncoding | TrailingBytes | UnsupportedBundleVersion | BundleHashMismatch

datatype work_bundle_verification_error =
    ContentError content_verification_error
  | DecodeBundleError work_bundle_decode_error
  | PackageHashMismatch

text \<open>The bundle codec of \<open>jambda_refine\<close>: decoding returns the bundle and the unread rest.\<close>

record 'b bundle_codec =
  bc_decode :: "bytes \<Rightarrow> ('b \<times> bytes) option"
  bc_version :: "'b \<Rightarrow> u16"
  bc_version_v1 :: u16
  bc_package_hash_matches :: "'b \<Rightarrow> bool"
  bc_package_hash :: "'b \<Rightarrow> hash"

definition bundle_decode :: "'b bundle_codec \<Rightarrow> bytes \<Rightarrow> (work_bundle_decode_error, 'b) outcome" where
  "bundle_decode codec bytes =
     ok_or (bc_decode codec bytes) InvalidEncoding (\<lambda>(bundle, rest).
       ensure (rest = []) TrailingBytes (
       ensure (bc_version codec bundle = bc_version_v1 codec) UnsupportedBundleVersion (
       ensure (bc_package_hash_matches codec bundle) BundleHashMismatch (
       Ok bundle))))"

definition decoder_package_hash ::
    "'b bundle_codec \<Rightarrow> bytes \<Rightarrow> (work_bundle_decode_error, hash) outcome" where
  "decoder_package_hash codec bytes =
     bind_res (bundle_decode codec bytes) (\<lambda>bundle. Ok (bc_package_hash codec bundle))"

record verified_work_bundle =
  vb_bytes :: bytes
  vb_package_hash :: hash

definition verify_content_ref ::
    "(bytes \<Rightarrow> hash) \<Rightarrow> content_ref \<Rightarrow> bytes \<Rightarrow> u64 \<Rightarrow> (content_verification_error, unit) outcome" where
  "verify_content_ref blake2_256 reference bytes max_bytes =
     ensure (cr_cid_v1 reference \<noteq> []) EmptyCid (
     ensure (cr_size reference \<le> max_bytes) SizeLimitExceeded (
     ensure (of_nat (length bytes) = cr_size reference) SizeMismatch (
     ensure (blake2_256 bytes = cr_content_hash reference) HashMismatch (
     Ok ()))))"

definition verify_work_bundle ::
    "(bytes \<Rightarrow> hash) \<Rightarrow> (bytes \<Rightarrow> (work_bundle_decode_error, hash) outcome)
     \<Rightarrow> content_ref \<Rightarrow> bytes \<Rightarrow> u64 \<Rightarrow> hash
     \<Rightarrow> (work_bundle_verification_error, verified_work_bundle) outcome" where
  "verify_work_bundle blake2_256 package_hash_of reference bytes max_bytes expected_package_hash =
     bind_res (map_err ContentError (verify_content_ref blake2_256 reference bytes max_bytes)) (\<lambda>_.
     bind_res (map_err DecodeBundleError (package_hash_of bytes)) (\<lambda>package_hash.
     ensure (package_hash = expected_package_hash) PackageHashMismatch (
     Ok \<lparr>vb_bytes = bytes, vb_package_hash = package_hash\<rparr>)))"

subsection \<open>Fetching\<close>

datatype fetch_error =
  InvalidReference | NotFound | Transport string | Verification content_verification_error

type_synonym content_fetcher = "content_ref \<Rightarrow> (fetch_error, bytes) outcome"

definition fetch_verified_content ::
    "(bytes \<Rightarrow> hash) \<Rightarrow> content_fetcher \<Rightarrow> content_ref \<Rightarrow> u64 \<Rightarrow> (fetch_error, bytes) outcome" where
  "fetch_verified_content blake2_256 fetch reference max_bytes =
     bind_res (fetch reference) (\<lambda>bytes.
     bind_res (map_err Verification (verify_content_ref blake2_256 reference bytes max_bytes)) (\<lambda>_.
     Ok bytes))"

text \<open>\<open>trim_end_matches('/')\<close>, then \<open>strip_suffix("/ipfs")\<close> if it applies.\<close>

definition trim_end_slashes :: "string \<Rightarrow> string" where
  "trim_end_slashes s = rev (dropWhile (\<lambda>c. c = CHR ''/'') (rev s))"

definition gateway_new :: "string \<Rightarrow> string" where
  "gateway_new gateway =
     (let g = trim_end_slashes gateway; n = length g - 5
      in if 5 \<le> length g \<and> drop n g = ''/ipfs'' then take n g else g)"

definition ipfs_fetch ::
    "(string \<Rightarrow> (fetch_error, bytes) outcome) \<Rightarrow> (bytes \<Rightarrow> string option) \<Rightarrow> string \<Rightarrow> content_fetcher" where
  "ipfs_fetch get_bytes cid_of gateway reference =
     ok_or (cid_of (cr_cid_v1 reference)) InvalidReference (\<lambda>cid.
       get_bytes (gateway @ ''/ipfs/'' @ cid))"

record memory_fetcher =
  mf_entries :: "bytes \<rightharpoonup> bytes"

definition fetcher_insert :: "content_ref \<Rightarrow> bytes \<Rightarrow> memory_fetcher \<Rightarrow> memory_fetcher" where
  "fetcher_insert reference bytes f = f\<lparr>mf_entries := (mf_entries f)(cr_cid_v1 reference \<mapsto> bytes)\<rparr>"

definition memory_fetch :: "memory_fetcher \<Rightarrow> content_fetcher" where
  "memory_fetch f reference = ok_or (mf_entries f (cr_cid_v1 reference)) NotFound Ok"

section \<open>Workers and ranking\<close>

datatype worker_status =
    Active
  | SuspendedUntil u32
  | UnbondingUntil u32
  | Exited

record worker_record =
  wr_id :: worker_id
  wr_active_stake :: u128
  wr_session_key :: bytes
  wr_status :: worker_status

definition eligible_at :: "worker_record \<Rightarrow> u32 \<Rightarrow> bool" where
  "eligible_at w epoch \<longleftrightarrow>
     wr_active_stake w \<ge> MINIMUM_WORKER_STAKE
     \<and> (case wr_status w of
          Active \<Rightarrow> True
        | SuspendedUntil until \<Rightarrow> epoch \<ge> until
        | UnbondingUntil _ \<Rightarrow> False
        | Exited \<Rightarrow> False)"

text \<open>The comparison by descending stake, then ascending id, as a sort key.\<close>

definition stake_rank :: "worker_record \<Rightarrow> int \<times> worker_id" where
  "stake_rank w = (- uint (wr_active_stake w), wr_id w)"

definition top_workers :: "worker_record list \<Rightarrow> u32 \<Rightarrow> nat \<Rightarrow> worker_record list" where
  "top_workers workers epoch top_n =
     take top_n (sort_key stake_rank (filter (\<lambda>w. eligible_at w epoch) workers))"

section \<open>Batch assignment\<close>

datatype assignment_error = InsufficientWorkers | CapacityExceeded

definition assignment_bytes :: "hash \<Rightarrow> work_id \<Rightarrow> u8 \<Rightarrow> worker_id \<Rightarrow> bytes" where
  "assignment_bytes seed work rnd worker =
     ascii ''minijam/assignment-v1'' @ seed @ to_le_bytes 8 work @ [rnd] @ to_le_bytes 8 worker"

definition duty_of :: "(worker_id \<rightharpoonup> u32) \<Rightarrow> worker_id \<Rightarrow> u32" where
  "duty_of duties w = (case duties w of Some n \<Rightarrow> n | None \<Rightarrow> 0)"

definition add_duty :: "worker_id \<Rightarrow> (worker_id \<rightharpoonup> u32) \<Rightarrow> (worker_id \<rightharpoonup> u32)" where
  "add_duty w duties = duties(w \<mapsto> (case duties w of Some n \<Rightarrow> n + 1 | None \<Rightarrow> 1))"

definition assign_candidates ::
    "(bytes \<Rightarrow> hash) \<Rightarrow> hash \<Rightarrow> worker_record list \<Rightarrow> u32 \<Rightarrow> (worker_id \<rightharpoonup> u32) \<Rightarrow> work_id \<Rightarrow> u8
     \<Rightarrow> (hash \<times> worker_id) list" where
  "assign_candidates blake2_256 seed pool max_duties duties work rnd =
     sort (map (\<lambda>w. (blake2_256 (assignment_bytes seed work rnd (wr_id w)), wr_id w))
       (filter (\<lambda>w. duty_of duties (wr_id w) < max_duties) pool))"

text \<open>The loop over the works; \<open>duties\<close> and \<open>assignments\<close> are the loop's two maps.  The selected
  list has at most three entries, which is the bound of \<open>AssignedWorkers\<close>.\<close>

fun assign_works ::
    "(bytes \<Rightarrow> hash) \<Rightarrow> hash \<Rightarrow> worker_record list \<Rightarrow> u32 \<Rightarrow> (worker_id \<rightharpoonup> u32)
     \<Rightarrow> (work_id \<rightharpoonup> worker_id list) \<Rightarrow> (work_id \<times> u8) list
     \<Rightarrow> (assignment_error, work_id \<rightharpoonup> worker_id list) outcome" where
  "assign_works blake2_256 seed pool max_duties duties assignments [] = Ok assignments"
| "assign_works blake2_256 seed pool max_duties duties assignments ((work, rnd) # works) =
     (let candidates = assign_candidates blake2_256 seed pool max_duties duties work rnd;
          selected = map snd (take (unat WORKERS_PER_WORK) candidates)
      in ensure (length candidates \<ge> unat WORKERS_PER_WORK) CapacityExceeded (
         ok_or (try_bounded 3 selected) CapacityExceeded (\<lambda>bounded.
         assign_works blake2_256 seed pool max_duties (fold add_duty selected duties)
           (assignments(work \<mapsto> bounded)) works)))"

definition assign_batch ::
    "(bytes \<Rightarrow> hash) \<Rightarrow> hash \<Rightarrow> (work_id \<times> u8) list \<Rightarrow> worker_record list \<Rightarrow> u32
     \<Rightarrow> (assignment_error, work_id \<rightharpoonup> worker_id list) outcome" where
  "assign_batch blake2_256 seed works pool max_duties =
     ensure (length pool \<ge> unat WORKERS_PER_WORK) InsufficientWorkers (
     assign_works blake2_256 seed pool max_duties Map.empty Map.empty works)"

section \<open>One candidate round\<close>

record vote_record =
  vr_worker_id :: worker_id
  vr_verdict :: verdict
  vr_submitted_at :: block_number

datatype locked_outcome = Accepted | Rejected

datatype vote_error = NotAssigned | DuplicateVote | Closed | BeforeCandidate | BoundExceeded

record candidate_round =
  cr_work_id :: work_id
  cr_round :: u8
  cr_assigned :: "worker_id list"
  cr_report_hash :: "hash option"
  cr_report_deadline :: block_number
  cr_vote_deadline :: "block_number option"
  cr_votes :: "vote_record list"
  cr_locked_outcome :: "locked_outcome option"

definition new_round :: "work_id \<Rightarrow> u8 \<Rightarrow> worker_id list \<Rightarrow> block_number \<Rightarrow> candidate_round" where
  "new_round work rnd assigned report_deadline =
     \<lparr>cr_work_id = work, cr_round = rnd, cr_assigned = assigned, cr_report_hash = None,
      cr_report_deadline = report_deadline, cr_vote_deadline = None, cr_votes = [],
      cr_locked_outcome = None\<rparr>"

definition open_candidate ::
    "hash \<Rightarrow> block_number \<Rightarrow> block_number \<Rightarrow> candidate_round \<Rightarrow> (vote_error, candidate_round) outcome" where
  "open_candidate report_hash now vote_window r =
     (if cr_report_hash r \<noteq> None \<or> now > cr_report_deadline r then Err Closed
      else Ok (r\<lparr>cr_report_hash := Some report_hash,
                 cr_vote_deadline := Some (saturating_add now vote_window)\<rparr>))"

fun is_support :: "verdict \<Rightarrow> bool" where
  "is_support Support = True"
| "is_support (Oppose _) = False"

definition support_count :: "vote_record list \<Rightarrow> u32" where
  "support_count votes = of_nat (length (filter (\<lambda>v. is_support (vr_verdict v)) votes))"

definition oppose_count :: "vote_record list \<Rightarrow> u32" where
  "oppose_count votes = of_nat (length (filter (\<lambda>v. \<not> is_support (vr_verdict v)) votes))"

definition update_locked_outcome :: "candidate_round \<Rightarrow> candidate_round" where
  "update_locked_outcome r =
     (if support_count (cr_votes r) \<ge> SUPPORT_THRESHOLD then r\<lparr>cr_locked_outcome := Some Accepted\<rparr>
      else if oppose_count (cr_votes r) \<ge> OPPOSE_THRESHOLD then r\<lparr>cr_locked_outcome := Some Rejected\<rparr>
      else r)"

definition record_vote ::
    "worker_id \<Rightarrow> verdict \<Rightarrow> block_number \<Rightarrow> candidate_round
     \<Rightarrow> (vote_error, candidate_round \<times> locked_outcome option) outcome" where
  "record_vote worker_id verdict now r =
     ok_or (cr_vote_deadline r) BeforeCandidate (\<lambda>deadline.
     ensure (now \<le> deadline) Closed (
     ensure (worker_id \<in> set (cr_assigned r)) NotAssigned (
     ensure (\<forall>v\<in>set (cr_votes r). vr_worker_id v \<noteq> worker_id) DuplicateVote (
     ok_or (try_push 3 \<lparr>vr_worker_id = worker_id, vr_verdict = verdict, vr_submitted_at = now\<rparr>
              (cr_votes r)) BoundExceeded (\<lambda>votes.
     let r' = update_locked_outcome (r\<lparr>cr_votes := votes\<rparr>)
     in Ok (r', cr_locked_outcome r'))))))"

definition ready_to_finalize :: "candidate_round \<Rightarrow> block_number \<Rightarrow> bool" where
  "ready_to_finalize r now =
     (case cr_vote_deadline r of
        None \<Rightarrow> False
      | Some deadline \<Rightarrow> now \<ge> deadline \<or> length (cr_votes r) = length (cr_assigned r))"

definition final_outcome :: "candidate_round \<Rightarrow> block_number \<Rightarrow> locked_outcome option" where
  "final_outcome r now =
     (if ready_to_finalize r now
      then Some (case cr_locked_outcome r of Some x \<Rightarrow> x | None \<Rightarrow> Rejected) else None)"

definition absent_workers :: "candidate_round \<Rightarrow> block_number \<Rightarrow> worker_id list" where
  "absent_workers r now =
     (if \<not> ready_to_finalize r now then []
      else filter (\<lambda>w. \<not> (\<exists>v\<in>set (cr_votes r). vr_worker_id v = w)) (cr_assigned r))"

section \<open>Rewards and slashes\<close>

definition timely_vote_reward :: u128 where
  "timely_vote_reward = TIMELY_VOTE_REWARD"

definition absence_slash :: "u128 \<Rightarrow> u128" where
  "absence_slash stake = min (max (stake div 100) MINIMUM_ABSENCE_SLASH) stake"

definition equivocation_slash :: "u128 \<Rightarrow> u128" where
  "equivocation_slash stake = saturating_mul stake 20 div 100"

section \<open>Ranking\<close>

lemma top_workers_select:
  "top_workers workers epoch n = select stake_rank n (filter (\<lambda>w. eligible_at w epoch) workers)"
  by (simp add: top_workers_def select_def)

interpretation stake: ranked stake_rank wr_id
  by unfold_locales (simp add: stake_rank_def)

section \<open>Assignment\<close>

lemma unat_WORKERS_PER_WORK [simp]: "unat WORKERS_PER_WORK = 3"
  by (simp add: WORKERS_PER_WORK_def)

lemma duty_of_add_duty: "duty_of (add_duty w d) = (duty_of d)(w := duty_of d w + 1)"
  by (auto simp: duty_of_def add_duty_def fun_eq_iff split: option.split)

lemma duty_of_fold:
  "distinct ws \<Longrightarrow> duty_of (fold add_duty ws d) w = duty_of d w + (if w \<in> set ws then 1 else 0)"
  by (induction ws arbitrary: d) (auto simp: duty_of_add_duty)

interpretation score: ranked "\<lambda>c :: hash \<times> worker_id. c" snd
  by unfold_locales simp

definition selected_of ::
    "(bytes \<Rightarrow> hash) \<Rightarrow> hash \<Rightarrow> worker_record list \<Rightarrow> u32 \<Rightarrow> (worker_id \<rightharpoonup> u32) \<Rightarrow> work_id \<Rightarrow> u8
     \<Rightarrow> worker_id list" where
  "selected_of h seed pool mx d work rnd = map snd (take 3 (assign_candidates h seed pool mx d work rnd))"

lemma selected_select:
  "selected_of h seed pool mx d work rnd =
     map snd (select (\<lambda>c. c) 3 (map (\<lambda>w. (h (assignment_bytes seed work rnd (wr_id w)), wr_id w))
       (filter (\<lambda>w. duty_of d (wr_id w) < mx) pool)))"
  by (simp add: selected_of_def assign_candidates_def select_def)

lemma distinct_selected:
  "distinct (map wr_id pool) \<Longrightarrow> distinct (selected_of h seed pool mx d work rnd)"
  unfolding selected_select
  by (rule score.distinct_select) (simp add: comp_def distinct_map_filter)

lemma set_selected:
  assumes "w \<in> set (selected_of h seed pool mx d work rnd)"
  shows "w \<in> wr_id ` set pool \<and> duty_of d w < mx"
proof -
  let ?xs = "map (\<lambda>w. (h (assignment_bytes seed work rnd (wr_id w)), wr_id w))
    (filter (\<lambda>w. duty_of d (wr_id w) < mx) pool)"
  have "w \<in> snd ` set ?xs"
    using assms set_select [of "\<lambda>c. c" 3 ?xs] unfolding selected_select by auto
  then show ?thesis by auto
qed

lemma length_candidates:
  "length (assign_candidates h seed pool mx d work rnd) =
     length (filter (\<lambda>w. duty_of d (wr_id w) < mx) pool)"
  by (simp add: assign_candidates_def)

lemma assign_works_Cons:
  "assign_works h seed pool mx d a ((work, rnd) # works) =
     (if length (filter (\<lambda>w. duty_of d (wr_id w) < mx) pool) < 3 then Err CapacityExceeded
      else assign_works h seed pool mx (fold add_duty (selected_of h seed pool mx d work rnd) d)
             (a(work \<mapsto> selected_of h seed pool mx d work rnd)) works)"
  by (simp add: Let_def ensure_def ok_or_def try_bounded_def selected_of_def length_candidates not_less)

lemma length_selected:
  "\<not> length (filter (\<lambda>w. duty_of d (wr_id w) < mx) pool) < 3 \<Longrightarrow>
     length (selected_of h seed pool mx d work rnd) = 3"
  by (simp add: selected_of_def length_candidates)

lemmas assign_works_rec = assign_works.simps(1) assign_works_Cons

text \<open>The bookkeeping invariant of the loop: a worker's duty counter is the number of works it
  was given, and within the limit.\<close>

definition duties_inv ::
    "worker_record list \<Rightarrow> u32 \<Rightarrow> (worker_id \<rightharpoonup> u32) \<Rightarrow> (work_id \<rightharpoonup> worker_id list) \<Rightarrow> bool" where
  "duties_inv pool mx d a \<longleftrightarrow>
     finite (dom a)
     \<and> (\<forall>w. unat (duty_of d w) = card {k. \<exists>ws. a k = Some ws \<and> w \<in> set ws})
     \<and> (\<forall>w. duty_of d w \<le> mx)
     \<and> (\<forall>k ws. a k = Some ws \<longrightarrow> length ws = 3 \<and> distinct ws \<and> set ws \<subseteq> wr_id ` set pool)"

lemma card_assigned_upd:
  assumes "finite (dom a)" "work \<notin> dom a"
  shows "card {k. \<exists>ws. (a(work \<mapsto> sel)) k = Some ws \<and> w \<in> set ws} =
    card {k. \<exists>ws. a k = Some ws \<and> w \<in> set ws} + (if w \<in> set sel then 1 else 0)"
proof -
  let ?K = "{k. \<exists>ws. a k = Some ws \<and> w \<in> set ws}"
  have "finite ?K"
    by (rule finite_subset [OF _ assms(1)]) auto
  moreover have "work \<notin> ?K" using assms(2) by auto
  moreover have "{k. \<exists>ws. (a(work \<mapsto> sel)) k = Some ws \<and> w \<in> set ws} =
      (if w \<in> set sel then insert work ?K else ?K)"
    using assms(2) by auto
  ultimately show ?thesis by simp
qed

lemma duties_inv_step:
  assumes "duties_inv pool mx d a" "distinct (map wr_id pool)" "work \<notin> dom a"
    and "\<not> length (filter (\<lambda>w. duty_of d (wr_id w) < mx) pool) < 3"
  shows "duties_inv pool mx (fold add_duty (selected_of h seed pool mx d work rnd) d)
           (a(work \<mapsto> selected_of h seed pool mx d work rnd))"
proof -
  let ?sel = "selected_of h seed pool mx d work rnd"
  have sel: "distinct ?sel" "length ?sel = 3" "set ?sel \<subseteq> wr_id ` set pool"
      "\<And>w. w \<in> set ?sel \<Longrightarrow> duty_of d w < mx"
    using assms(2,4) by (auto simp: distinct_selected length_selected dest: set_selected)
  have fin: "finite (dom a)"
    using assms(1) by (simp add: duties_inv_def)
  have "unat (duty_of (fold add_duty ?sel d) w) = unat (duty_of d w) + (if w \<in> set ?sel then 1 else 0)"
      "duty_of (fold add_duty ?sel d) w \<le> mx" for w
    using sel(4) [of w] unat_Suc_less [of "duty_of d w" mx] assms(1)
    by (simp_all add: duty_of_fold [OF sel(1)] duties_inv_def)
  then show ?thesis
    using assms(1) sel(1-3) card_assigned_upd [OF fin assms(3)]
    by (simp add: duties_inv_def)
qed

lemma assign_works_inv:
  assumes "assign_works h seed pool mx d a works = Ok r" "duties_inv pool mx d a"
    and "distinct (map wr_id pool)" "distinct (map fst works)" "dom a \<inter> fst ` set works = {}"
  shows "(\<exists>d'. duties_inv pool mx d' r) \<and> dom r = dom a \<union> fst ` set works"
  using assms
proof (induction works arbitrary: d a)
  case Nil
  then show ?case by auto
next
  case (Cons wk works)
  obtain work rnd where wk: "wk = (work, rnd)" by force
  have *: "\<not> length (filter (\<lambda>w. duty_of d (wr_id w) < mx) pool) < 3"
    and rest: "assign_works h seed pool mx (fold add_duty (selected_of h seed pool mx d work rnd) d)
      (a(work \<mapsto> selected_of h seed pool mx d work rnd)) works = Ok r"
    using Cons.prems(1) by (auto simp: wk assign_works_Cons simp del: assign_works.simps split: if_splits)
  have "dom (a(work \<mapsto> selected_of h seed pool mx d work rnd)) \<inter> fst ` set works = {}"
      "work \<notin> dom a" "distinct (map fst works)"
    using Cons.prems(4,5) by (simp_all add: wk Int_insert_left)
  then have "(\<exists>d'. duties_inv pool mx d' r)
      \<and> dom r = dom (a(work \<mapsto> selected_of h seed pool mx d work rnd)) \<union> fst ` set works"
    by (intro Cons.IH [OF rest duties_inv_step [OF Cons.prems(2,3) _ *] Cons.prems(3)])
  then show ?case by (simp add: wk)
qed

text \<open>Capacity: as long as fewer duties are used up than \<open>length pool - 2\<close> workers can carry,
  three workers are left for the next work.\<close>

definition used_duties :: "worker_record list \<Rightarrow> (worker_id \<rightharpoonup> u32) \<Rightarrow> nat" where
  "used_duties pool d = (\<Sum>w\<leftarrow>pool. unat (duty_of d (wr_id w)))"

lemma saturated_le_used:
  "unat mx * length (filter (\<lambda>w. \<not> duty_of d (wr_id w) < mx) pool) \<le> used_duties pool d"
proof (induction pool)
  case (Cons w ws)
  have "unat mx \<le> unat (duty_of d (wr_id w))" if "\<not> duty_of d (wr_id w) < mx"
    using that by (simp add: word_le_nat_alt not_less)
  with Cons show ?case by (fastforce simp: used_duties_def)
qed (simp add: used_duties_def)

lemma capacity_left:
  assumes "used_duties pool d < (length pool - 2) * unat mx"
  shows "\<not> length (filter (\<lambda>w. duty_of d (wr_id w) < mx) pool) < 3"
proof
  let ?P = "\<lambda>w. duty_of d (wr_id w) < mx"
  assume "length (filter ?P pool) < 3"
  then have "length pool - 2 \<le> length (filter (\<lambda>w. \<not> ?P w) pool)"
    using sum_length_filter_compl [of ?P pool] by simp
  then have "(length pool - 2) * unat mx \<le> unat mx * length (filter (\<lambda>w. \<not> ?P w) pool)"
    by (metis mult.commute mult_le_mono1)
  with saturated_le_used [of mx d pool] assms show False by simp
qed

lemma sum_list_indicator:
  "distinct xs \<Longrightarrow> distinct ys \<Longrightarrow> set ys \<subseteq> set xs \<Longrightarrow>
     (\<Sum>x\<leftarrow>xs. if x \<in> set ys then 1 else (0::nat)) = length ys"
  by (simp add: sum_list_distinct_conv_sum_set distinct_card [symmetric] sum.If_cases Int_absorb1)

lemma used_duties_step:
  assumes "distinct (map wr_id pool)" "duties_inv pool mx d a"
    and "\<not> length (filter (\<lambda>w. duty_of d (wr_id w) < mx) pool) < 3"
  shows "used_duties pool (fold add_duty (selected_of h seed pool mx d work rnd) d) = used_duties pool d + 3"
proof -
  let ?sel = "selected_of h seed pool mx d work rnd"
  have sel: "distinct ?sel" "length ?sel = 3" "set ?sel \<subseteq> set (map wr_id pool)"
      "\<And>w. w \<in> set ?sel \<Longrightarrow> duty_of d w < mx"
    using assms(1,3) by (auto simp: distinct_selected length_selected dest: set_selected)
  have "unat (duty_of (fold add_duty ?sel d) w) = unat (duty_of d w) + (if w \<in> set ?sel then 1 else 0)" for w
    using sel(4) [of w] unat_Suc_less [of "duty_of d w" mx] by (simp add: duty_of_fold [OF sel(1)])
  then have "used_duties pool (fold add_duty ?sel d) =
      used_duties pool d + (\<Sum>x\<leftarrow>map wr_id pool. if x \<in> set ?sel then 1 else 0)"
    by (simp add: used_duties_def sum_list_addf comp_def)
  then show ?thesis
    using sum_list_indicator [OF assms(1) sel(1,3)] sel(2) by simp
qed

lemma assign_works_succeeds:
  assumes "distinct (map wr_id pool)" "distinct (map fst works)" "dom a \<inter> fst ` set works = {}"
    and "duties_inv pool mx d a"
    and "works \<noteq> [] \<longrightarrow> used_duties pool d + 3 * (length works - 1) < (length pool - 2) * unat mx"
  shows "\<exists>r. assign_works h seed pool mx d a works = Ok r"
  using assms
proof (induction works arbitrary: d a)
  case (Cons wk works)
  obtain work rnd where wk: "wk = (work, rnd)" by force
  let ?sel = "selected_of h seed pool mx d work rnd"
  have cap: "\<not> length (filter (\<lambda>w. duty_of d (wr_id w) < mx) pool) < 3"
    using Cons.prems(5) by (intro capacity_left) simp
  have "\<exists>r. assign_works h seed pool mx (fold add_duty ?sel d) (a(work \<mapsto> ?sel)) works = Ok r"
  proof (rule Cons.IH)
    show "duties_inv pool mx (fold add_duty ?sel d) (a(work \<mapsto> ?sel))"
      using Cons.prems wk cap by (intro duties_inv_step) auto
    show "works \<noteq> [] \<longrightarrow> used_duties pool (fold add_duty ?sel d) + 3 * (length works - 1)
        < (length pool - 2) * unat mx"
      using Cons.prems(5) used_duties_step [OF Cons.prems(1,4) cap]
      by (cases works) auto
    show "dom (a(work \<mapsto> ?sel)) \<inter> fst ` set works = {}"
      using Cons.prems(2,3) by (simp add: wk Int_insert_left)
  qed (use Cons.prems wk in auto)
  then show ?case
    using cap by (simp add: wk assign_works_Cons del: assign_works.simps)
qed simp

lemma duties_inv_empty [simp]: "duties_inv pool mx Map.empty Map.empty"
  by (simp add: duties_inv_def duty_of_def)

section \<open>The life of a round\<close>

inductive round_step :: "candidate_round \<Rightarrow> candidate_round \<Rightarrow> bool" where
  open_step: "open_candidate report_hash now vote_window r = Ok r' \<Longrightarrow> round_step r r'"
| vote_step: "record_vote worker_id verdict now r = Ok (r', locked) \<Longrightarrow> round_step r r'"

definition supports :: "vote_record list \<Rightarrow> nat" where
  "supports votes = length (filter (\<lambda>v. is_support (vr_verdict v)) votes)"

definition majority :: "vote_record list \<Rightarrow> locked_outcome option" where
  "majority votes =
     (if 2 \<le> supports votes then Some Accepted
      else if 2 \<le> length votes - supports votes then Some Rejected else None)"

definition round_inv :: "candidate_round \<Rightarrow> bool" where
  "round_inv r \<longleftrightarrow>
     length (cr_votes r) \<le> 3
     \<and> distinct (map vr_worker_id (cr_votes r))
     \<and> vr_worker_id ` set (cr_votes r) \<subseteq> set (cr_assigned r)
     \<and> cr_locked_outcome r = majority (cr_votes r)
     \<and> (cr_vote_deadline r = None \<longleftrightarrow> cr_report_hash r = None)
     \<and> (\<forall>v\<in>set (cr_votes r). \<exists>d. cr_vote_deadline r = Some d \<and> vr_submitted_at v \<le> d)"

lemma supports_le: "supports votes \<le> length votes"
  by (simp add: supports_def)

lemma vote_counts:
  assumes "length votes \<le> 3"
  shows "support_count votes \<ge> SUPPORT_THRESHOLD \<longleftrightarrow> 2 \<le> supports votes"
    and "oppose_count votes \<ge> OPPOSE_THRESHOLD \<longleftrightarrow> 2 \<le> length votes - supports votes"
proof -
  have opp: "length (filter (\<lambda>v. \<not> is_support (vr_verdict v)) votes) = length votes - supports votes"
    using sum_length_filter_compl [of "\<lambda>v. is_support (vr_verdict v)" votes] by (simp add: supports_def)
  have small: "2 \<le> (of_nat n :: u32) \<longleftrightarrow> 2 \<le> n" if "n \<le> 3" for n
    using that by (simp add: word_le_nat_alt unat_of_nat)
  show "support_count votes \<ge> SUPPORT_THRESHOLD \<longleftrightarrow> 2 \<le> supports votes"
    using small [OF order_trans [OF supports_le assms]]
    by (simp add: support_count_def SUPPORT_THRESHOLD_def supports_def)
  show "oppose_count votes \<ge> OPPOSE_THRESHOLD \<longleftrightarrow> 2 \<le> length votes - supports votes"
    using small [of "length votes - supports votes"] assms
    by (simp add: oppose_count_def OPPOSE_THRESHOLD_def opp)
qed

lemma majority_snoc:
  assumes "length (vs @ [v]) \<le> 3" "majority vs = Some x"
  shows "majority (vs @ [v]) = Some x"
  using assms supports_le [of vs] by (auto simp: majority_def supports_def split: if_splits)

lemma update_locked_outcome_eq:
  assumes "length (cr_votes r) \<le> 3"
  shows "update_locked_outcome r =
    r\<lparr>cr_locked_outcome := (case majority (cr_votes r) of Some x \<Rightarrow> Some x | None \<Rightarrow> cr_locked_outcome r)\<rparr>"
  using assms by (auto simp: update_locked_outcome_def majority_def vote_counts)

lemma record_vote_Ok:
  "record_vote w vd now r = Ok (r', l) \<longleftrightarrow>
     (\<exists>d. cr_vote_deadline r = Some d \<and> now \<le> d) \<and> w \<in> set (cr_assigned r)
     \<and> (\<forall>v\<in>set (cr_votes r). vr_worker_id v \<noteq> w) \<and> length (cr_votes r) < 3
     \<and> r' = update_locked_outcome (r\<lparr>cr_votes := cr_votes r @
          [\<lparr>vr_worker_id = w, vr_verdict = vd, vr_submitted_at = now\<rparr>]\<rparr>)
     \<and> l = cr_locked_outcome r'"
  by (auto simp: record_vote_def res_simps try_push_Some Let_def)

lemma open_candidate_Ok:
  "open_candidate h now w r = Ok r' \<longleftrightarrow>
     cr_report_hash r = None \<and> now \<le> cr_report_deadline r
     \<and> r' = r\<lparr>cr_report_hash := Some h, cr_vote_deadline := Some (saturating_add now w)\<rparr>"
  by (auto simp: open_candidate_def not_less)

lemma round_inv_step:
  assumes "round_step r r'" "round_inv r"
  shows "round_inv r' \<and> cr_assigned r' = cr_assigned r
    \<and> (\<exists>vs. cr_votes r' = cr_votes r @ vs)
    \<and> (\<forall>x. cr_locked_outcome r = Some x \<longrightarrow> cr_locked_outcome r' = Some x)"
  using assms
proof (induction rule: round_step.induct)
  case (open_step h now w r r')
  then have "cr_votes r = []"
    by (auto simp: round_inv_def open_candidate_Ok)
  with open_step show ?case
    by (simp add: round_inv_def open_candidate_Ok)
next
  case (vote_step w vd now r r' l)
  let ?v = "\<lparr>vr_worker_id = w, vr_verdict = vd, vr_submitted_at = now\<rparr>"
  have len: "length (cr_votes r @ [?v]) \<le> 3" and lk: "cr_locked_outcome r = majority (cr_votes r)"
    using vote_step by (auto simp: record_vote_Ok round_inv_def)
  have none: "majority (cr_votes r @ [?v]) = None \<Longrightarrow> majority (cr_votes r) = None"
    using majority_snoc [OF len] by (cases "majority (cr_votes r)") auto
  have r': "r' = r\<lparr>cr_votes := cr_votes r @ [?v], cr_locked_outcome := majority (cr_votes r @ [?v])\<rparr>"
    using vote_step(1) lk len none
    by (auto simp: record_vote_Ok update_locked_outcome_eq split: option.split)
  obtain d where "cr_vote_deadline r = Some d" "now \<le> d" "w \<in> set (cr_assigned r)"
      "\<forall>v\<in>set (cr_votes r). vr_worker_id v \<noteq> w"
    using vote_step(1) by (auto simp: record_vote_Ok)
  then have "round_inv r'"
    using vote_step(2) len unfolding r' by (auto simp: round_inv_def)
  then show ?case
    using lk majority_snoc [OF len] by (simp add: r')
qed

lemma round_inv_new [simp]: "round_inv (new_round work rnd assigned dl)"
  by (simp add: round_inv_def new_round_def majority_def supports_def)

lemma round_steps:
  assumes "round_step\<^sup>*\<^sup>* r r'" "round_inv r"
  shows "round_inv r' \<and> cr_assigned r' = cr_assigned r
    \<and> (\<forall>x. cr_locked_outcome r = Some x \<longrightarrow> cr_locked_outcome r' = Some x)"
  using assms by (induction rule: rtranclp_induct) (auto dest: round_inv_step)

lemma locked_iff:
  assumes inv: "round_inv r"
  shows "cr_locked_outcome r = Some Accepted \<longleftrightarrow>
      2 \<le> length (filter (\<lambda>v. vr_verdict v = Support) (cr_votes r))"
    and "cr_locked_outcome r = Some Rejected \<longleftrightarrow>
      2 \<le> length (filter (\<lambda>v. vr_verdict v \<noteq> Support) (cr_votes r))"
proof -
  have sup: "is_support v = (v = Support)" for v
    by (cases v) auto
  have len: "length (filter (\<lambda>v. vr_verdict v \<noteq> Support) (cr_votes r)) =
      length (cr_votes r) - supports (cr_votes r)"
    using sum_length_filter_compl [of "\<lambda>v. vr_verdict v = Support" "cr_votes r"]
    by (simp add: supports_def sup)
  have le: "supports (cr_votes r) \<le> length (cr_votes r)" "length (cr_votes r) \<le> 3"
    using inv supports_le by (auto simp: round_inv_def)
  show "cr_locked_outcome r = Some Accepted \<longleftrightarrow>
      2 \<le> length (filter (\<lambda>v. vr_verdict v = Support) (cr_votes r))"
    using inv by (simp add: round_inv_def majority_def supports_def sup)
  show "cr_locked_outcome r = Some Rejected \<longleftrightarrow>
      2 \<le> length (filter (\<lambda>v. vr_verdict v \<noteq> Support) (cr_votes r))"
    unfolding len using inv le by (auto simp: round_inv_def majority_def)
qed

lemma all_voted_majority:
  assumes "round_inv r" "distinct (cr_assigned r)" "length (cr_assigned r) = 3"
    and "length (cr_votes r) = length (cr_assigned r)"
  shows "cr_locked_outcome r \<noteq> None"
  using assms supports_le [of "cr_votes r"] by (auto simp: round_inv_def majority_def)

lemma absent_partition:
  assumes "round_inv r" "ready_to_finalize r now"
  shows "set (absent_workers r now) = set (cr_assigned r) - vr_worker_id ` set (cr_votes r)"
  using assms by (auto simp: absent_workers_def)

lemma stake_rank_le:
  "stake_rank v \<le> stake_rank w \<longleftrightarrow> wr_active_stake w < wr_active_stake v
     \<or> wr_active_stake v = wr_active_stake w \<and> wr_id v \<le> wr_id w"
  by (auto simp: stake_rank_def less_eq_prod_def word_less_def word_uint_eq_iff)

lemma top_workers_perm:
  assumes "mset others = mset workers" "distinct (map wr_id workers)"
  shows "top_workers others epoch n = top_workers workers epoch n"
proof -
  have "mset (filter (\<lambda>w. eligible_at w epoch) others) = mset (filter (\<lambda>w. eligible_at w epoch) workers)"
    using assms(1) by simp
  moreover have "distinct (map wr_id (filter (\<lambda>w. eligible_at w epoch) others))"
    using assms by (metis distinct_map_filter mset_eq_imp_distinct_iff mset_map)
  ultimately show ?thesis
    unfolding top_workers_select by (rule stake.select_perm)
qed

section \<open>Properties\<close>

text \<open>
  C33. \<^bold>\<open>A locked outcome is final.\<close>  From a fresh round, after any sequence of successful calls to
  \<open>open_candidate\<close> and \<open>record_vote\<close>, once an outcome is locked every later sequence of calls
  keeps exactly that outcome.
\<close>
theorem round_lock_stable:
  assumes "round_step\<^sup>*\<^sup>* (new_round work rnd assigned report_deadline) r" "round_step\<^sup>*\<^sup>* r r'"
    and "cr_locked_outcome r = Some x"
  shows "cr_locked_outcome r' = Some x"
  using round_steps [OF assms(2)] round_steps [OF assms(1)] assms(3) by simp

definition ex_round :: "vote_record list \<Rightarrow> locked_outcome option \<Rightarrow> candidate_round" where
  "ex_round votes locked =
     \<lparr>cr_work_id = 1, cr_round = 0, cr_assigned = [1, 2, 3], cr_report_hash = Some [7],
      cr_report_deadline = 20, cr_vote_deadline = Some 15, cr_votes = votes, cr_locked_outcome = locked\<rparr>"

definition ex_vote :: "worker_id \<Rightarrow> verdict \<Rightarrow> block_number \<Rightarrow> vote_record" where
  "ex_vote w v t = \<lparr>vr_worker_id = w, vr_verdict = v, vr_submitted_at = t\<rparr>"

lemmas ex_round_defs = ex_round_def ex_vote_def record_vote_def update_locked_outcome_def
  support_count_def oppose_count_def SUPPORT_THRESHOLD_def OPPOSE_THRESHOLD_def ensure_def ok_or_def
  try_push_def Let_def

lemma ex_round_open: "open_candidate [7] 5 10 (new_round 1 0 [1, 2, 3] 20) = Ok (ex_round [] None)"
  by (simp add: open_candidate_def new_round_def ex_round_def saturating_add_def)

lemma ex_round_vote1:
  "record_vote 1 Support 6 (ex_round [] None) = Ok (ex_round [ex_vote 1 Support 6] None, None)"
  by (simp add: ex_round_defs word_le_nat_alt)

lemma ex_round_vote2:
  "record_vote 2 Support 15 (ex_round [ex_vote 1 Support 6] None) =
     Ok (ex_round [ex_vote 1 Support 6, ex_vote 2 Support 15] (Some Accepted), Some Accepted)"
  by (simp add: ex_round_defs)

lemma ex_round_vote3:
  "record_vote 3 (Oppose MissingData) 15
     (ex_round [ex_vote 1 Support 6, ex_vote 2 Support 15] (Some Accepted)) =
     Ok (ex_round [ex_vote 1 Support 6, ex_vote 2 Support 15, ex_vote 3 (Oppose MissingData) 15]
          (Some Accepted), Some Accepted)"
  by (simp add: ex_round_defs)

lemma ex_round_reach1:
  "round_step\<^sup>*\<^sup>* (new_round 1 0 [1, 2, 3] 20) (ex_round [ex_vote 1 Support 6] None)"
  using open_step [OF ex_round_open] vote_step [OF ex_round_vote1]
  by (meson converse_rtranclp_into_rtranclp rtranclp.rtrancl_refl)

lemma ex_round_reach2:
  "round_step\<^sup>*\<^sup>* (new_round 1 0 [1, 2, 3] 20)
     (ex_round [ex_vote 1 Support 6, ex_vote 2 Support 15] (Some Accepted))"
  using ex_round_reach1 vote_step [OF ex_round_vote2] by (rule rtranclp.rtrancl_into_rtrancl)

theorem round_lock_stable_witness:
  "cr_locked_outcome (ex_round [ex_vote 1 Support 6, ex_vote 2 Support 15,
      ex_vote 3 (Oppose MissingData) 15] (Some Accepted)) = Some Accepted"
proof (rule round_lock_stable [OF ex_round_reach2])
  show "round_step\<^sup>*\<^sup>* (ex_round [ex_vote 1 Support 6, ex_vote 2 Support 15] (Some Accepted))
     (ex_round [ex_vote 1 Support 6, ex_vote 2 Support 15, ex_vote 3 (Oppose MissingData) 15] (Some Accepted))"
    using vote_step [OF ex_round_vote3] by blast
qed (simp add: ex_round_def)

text \<open>
  C34. \<^bold>\<open>Tally of a round.\<close>  In every round reached from a fresh one with three distinct workers
  assigned: votes come from assigned workers, at most one each, none after the deadline; the
  locked outcome is \<open>Accepted\<close> exactly with two supporting votes and \<open>Rejected\<close> exactly with two
  opposing ones; a round in which everybody voted is locked; and a round that can be finalised
  reports as absent exactly the assigned workers without a vote.
\<close>
theorem round_tally:
  assumes "round_step\<^sup>*\<^sup>* (new_round work rnd assigned report_deadline) r"
    and "distinct assigned" "length assigned = 3"
  shows "distinct (map vr_worker_id (cr_votes r)) \<and> vr_worker_id ` set (cr_votes r) \<subseteq> set assigned
    \<and> (\<forall>v\<in>set (cr_votes r). \<exists>d. cr_vote_deadline r = Some d \<and> vr_submitted_at v \<le> d)
    \<and> (cr_locked_outcome r = Some Accepted \<longleftrightarrow>
           2 \<le> length (filter (\<lambda>v. vr_verdict v = Support) (cr_votes r)))
    \<and> (cr_locked_outcome r = Some Rejected \<longleftrightarrow>
           2 \<le> length (filter (\<lambda>v. vr_verdict v \<noteq> Support) (cr_votes r)))
    \<and> (length (cr_votes r) = 3 \<longrightarrow> cr_locked_outcome r \<noteq> None)
    \<and> (ready_to_finalize r now \<longrightarrow>
           set (absent_workers r now) = set assigned - vr_worker_id ` set (cr_votes r))"
proof -
  have inv: "round_inv r" and asg: "cr_assigned r = assigned"
    using round_steps [OF assms(1) round_inv_new] by (auto simp: new_round_def)
  have "length (cr_votes r) = 3 \<longrightarrow> cr_locked_outcome r \<noteq> None"
    using all_voted_majority [OF inv] assms(2,3) asg by simp
  moreover have "ready_to_finalize r now \<longrightarrow>
      set (absent_workers r now) = set assigned - vr_worker_id ` set (cr_votes r)"
    using absent_partition [OF inv] asg by simp
  ultimately show ?thesis
    using inv asg locked_iff [OF inv] by (simp add: round_inv_def)
qed

theorem round_tally_witness:
  "ready_to_finalize (ex_round [ex_vote 1 Support 6, ex_vote 2 Support 15] (Some Accepted)) 15
   \<and> set (absent_workers (ex_round [ex_vote 1 Support 6, ex_vote 2 Support 15] (Some Accepted)) 15) = {3}"
proof -
  have "ready_to_finalize (ex_round [ex_vote 1 Support 6, ex_vote 2 Support 15] (Some Accepted)) 15"
    by (simp add: ready_to_finalize_def ex_round_def)
  then show ?thesis
    using round_tally [OF ex_round_reach2, of 15] by (auto simp: ex_round_def ex_vote_def)
qed

text \<open>The engine finalises from the deadline block on, while it still takes votes in that block: the
  final outcome at the deadline can change from \<open>Rejected\<close> to \<open>Accepted\<close>.\<close>

theorem final_outcome_changes_at_deadline:
  "\<exists>r r'. round_step\<^sup>*\<^sup>* (new_round 1 0 [1, 2, 3] 20) r
     \<and> record_vote 2 Support 15 r = Ok (r', Some Accepted)
     \<and> final_outcome r 15 = Some Rejected \<and> final_outcome r' 15 = Some Accepted"
proof (intro exI conjI)
  show "round_step\<^sup>*\<^sup>* (new_round 1 0 [1, 2, 3] 20) (ex_round [ex_vote 1 Support 6] None)"
    by (rule ex_round_reach1)
  show "record_vote 2 Support 15 (ex_round [ex_vote 1 Support 6] None) =
      Ok (ex_round [ex_vote 1 Support 6, ex_vote 2 Support 15] (Some Accepted), Some Accepted)"
    by (rule ex_round_vote2)
qed (simp_all add: final_outcome_def ready_to_finalize_def ex_round_def)

text \<open>
  \<^bold>\<open>Ranking of workers.\<close>  \<open>top_workers\<close> returns the best \<open>top_n\<close> of the eligible workers, by
  descending stake and then ascending id: nobody left out ranks before somebody chosen.  When the
  ids are distinct the result does not depend on the order in which the workers are supplied.
\<close>
theorem top_workers_best:
  "let eligible = filter (\<lambda>w. eligible_at w epoch) workers;
       best = top_workers workers epoch top_n;
       before = (\<lambda>v w. wr_active_stake w < wr_active_stake v
                   \<or> wr_active_stake v = wr_active_stake w \<and> wr_id v \<le> wr_id w)
   in length best = min top_n (length eligible)
      \<and> mset best \<subseteq># mset eligible
      \<and> sorted_wrt before best
      \<and> (\<forall>v\<in>set best. \<forall>w\<in>#mset eligible - mset best. before v w)
      \<and> (distinct (map wr_id workers) \<longrightarrow>
           (\<forall>others. mset others = mset workers \<longrightarrow> top_workers others epoch top_n = best))"
  unfolding Let_def
proof (intro conjI ballI impI allI)
  let ?eligible = "filter (\<lambda>w. eligible_at w epoch) workers"
  show "length (top_workers workers epoch top_n) = min top_n (length ?eligible)"
    by (simp add: top_workers_select)
  show "mset (top_workers workers epoch top_n) \<subseteq># mset ?eligible"
    unfolding top_workers_select by (metis mset_select_drop mset_subset_eq_add_left)
  show "sorted_wrt (\<lambda>v w. wr_active_stake w < wr_active_stake v
      \<or> wr_active_stake v = wr_active_stake w \<and> wr_id v \<le> wr_id w) (top_workers workers epoch top_n)"
    unfolding top_workers_select stake_rank_le [symmetric]
    using sorted_select [of stake_rank top_n ?eligible] by (simp add: sorted_wrt_map)
  show "wr_active_stake w < wr_active_stake v
      \<or> wr_active_stake v = wr_active_stake w \<and> wr_id v \<le> wr_id w"
    if "v \<in> set (top_workers workers epoch top_n)"
      "w \<in># mset ?eligible - mset (top_workers workers epoch top_n)" for v w
    using that unfolding top_workers_select stake_rank_le [symmetric] by (rule select_best)
qed (rule top_workers_perm)

definition ex_worker :: "u64 \<Rightarrow> u128 \<Rightarrow> worker_record" where
  "ex_worker n stake = \<lparr>wr_id = n, wr_active_stake = stake * UNIT, wr_session_key = [], wr_status = Active\<rparr>"

theorem top_workers_best_witness:
  "distinct (map wr_id [ex_worker 1 1000, ex_worker 2 3000])
   \<and> top_workers [ex_worker 2 3000, ex_worker 1 1000] 0 1 = top_workers [ex_worker 1 1000, ex_worker 2 3000] 0 1"
proof -
  have "distinct (map wr_id [ex_worker 1 1000, ex_worker 2 3000])"
    by (simp add: ex_worker_def)
  moreover have "mset [ex_worker 2 3000, ex_worker 1 1000] = mset [ex_worker 1 1000, ex_worker 2 3000]"
    by simp
  ultimately show ?thesis
    using top_workers_best [of 0 "[ex_worker 1 1000, ex_worker 2 3000]" 1, unfolded Let_def] by blast
qed

text \<open>
  C35. \<^bold>\<open>A batch assignment is fair and within bounds.\<close>  For a pool with distinct ids and distinct
  works, a successful \<open>assign_batch\<close> gives every work of the batch, and no other, exactly three
  distinct workers of the pool, and no worker gets more than \<open>max_duties\<close> works.
\<close>
theorem assign_batch_sound:
  assumes "assign_batch blake2_256 seed works pool max_duties = Ok assignments"
    and "distinct (map wr_id pool)" "distinct (map fst works)"
  shows "dom assignments = fst ` set works
    \<and> (\<forall>work ws. assignments work = Some ws \<longrightarrow>
          length ws = 3 \<and> distinct ws \<and> set ws \<subseteq> wr_id ` set pool)
    \<and> (\<forall>w. card {work. \<exists>ws. assignments work = Some ws \<and> w \<in> set ws} \<le> unat max_duties)"
proof -
  have run: "assign_works blake2_256 seed pool max_duties Map.empty Map.empty works = Ok assignments"
    using assms(1) by (simp add: assign_batch_def res_simps)
  have "(\<exists>d. duties_inv pool max_duties d assignments)
      \<and> dom assignments = dom (Map.empty :: work_id \<rightharpoonup> worker_id list) \<union> fst ` set works"
    by (rule assign_works_inv [OF run duties_inv_empty assms(2,3)]) simp
  then obtain d where d: "duties_inv pool max_duties d assignments"
    and dom: "dom assignments = fst ` set works"
    by auto
  from d have parts: "\<forall>w. unat (duty_of d w) = card {k. \<exists>ws. assignments k = Some ws \<and> w \<in> set ws}"
      "\<forall>w. duty_of d w \<le> max_duties"
      "\<forall>k ws. assignments k = Some ws \<longrightarrow> length ws = 3 \<and> distinct ws \<and> set ws \<subseteq> wr_id ` set pool"
    unfolding duties_inv_def by blast+
  have "card {work. \<exists>ws. assignments work = Some ws \<and> w \<in> set ws} \<le> unat max_duties" for w
    using spec [OF parts(2), of w] spec [OF parts(1), of w] by (simp add: word_le_nat_alt)
  with dom parts(3) show ?thesis
    by blast
qed

text \<open>
  C36. \<^bold>\<open>A batch assignment succeeds whenever the pool has the capacity.\<close>  If the duties of all works
  but the last are fewer than what all but two workers of the pool can carry, \<open>assign_batch\<close>
  returns an assignment, whatever the seed and the hash.  This covers the protocol's own limits:
  eight workers, two duties each and four works per round.
\<close>
theorem assign_batch_succeeds:
  assumes "distinct (map wr_id pool)" "distinct (map fst works)" "3 \<le> length pool"
    and "3 * (length works - 1) < (length pool - 2) * unat max_duties"
  shows "\<exists>assignments. assign_batch blake2_256 seed works pool max_duties = Ok assignments"
proof -
  have "used_duties pool Map.empty = 0"
    by (induction pool) (simp_all add: used_duties_def duty_of_def)
  then have "\<exists>r. assign_works blake2_256 seed pool max_duties Map.empty Map.empty works = Ok r"
    using assms by (intro assign_works_succeeds) simp_all
  then show ?thesis
    using assms(3) by (simp add: assign_batch_def ensure_def)
qed

definition ex_pool :: "worker_record list" where
  "ex_pool = map (\<lambda>n. ex_worker n 1000) [1, 2, 3, 4, 5, 6, 7, 8]"

definition ex_works :: "(work_id \<times> u8) list" where
  "ex_works = [(10, 0), (11, 0), (12, 1), (13, 0)]"

theorem assign_batch_succeeds_witness:
  "\<exists>assignments. assign_batch (\<lambda>bs. bs) [] ex_works ex_pool 2 = Ok assignments"
  by (rule assign_batch_succeeds) (simp_all add: ex_works_def ex_pool_def ex_worker_def)

theorem assign_batch_sound_witness:
  "\<exists>assignments. assign_batch (\<lambda>_. [7]) [] [(10, 0)] (take 3 ex_pool) 1 = Ok assignments
     \<and> dom assignments = {10} \<and> assignments 10 = Some [1, 2, 3]
     \<and> card {work. \<exists>ws. assignments work = Some ws \<and> 1 \<in> set ws} \<le> 1"
proof -
  have run: "assign_batch (\<lambda>_. [7]) [] [(10, 0)] (take 3 ex_pool) 1 = Ok [10 \<mapsto> [1, 2, 3]]"
    by (simp add: assign_batch_def ex_pool_def ex_worker_def assign_candidates_def
        ensure_def ok_or_def try_bounded_def duty_of_def Let_def)
  have "distinct (map wr_id (take 3 ex_pool))" "distinct (map fst [(10 :: u64, 0 :: u8)])"
    by (simp_all add: ex_pool_def ex_worker_def)
  from assign_batch_sound [OF run this] show ?thesis
    using run by simp
qed

text \<open>
  \<^bold>\<open>Slashes never exceed the stake.\<close>  The absence slash is at most the stake and at least one
  unit (or the whole stake if that is smaller); the equivocation slash is at most the stake, even
  where the multiplication saturates, and a fifth of it where it does not.
\<close>
theorem slash_bounds:
  "absence_slash stake \<le> stake
   \<and> min UNIT stake \<le> absence_slash stake
   \<and> equivocation_slash stake \<le> stake
   \<and> (unat stake * 20 < 2 ^ 128 \<longrightarrow> unat (equivocation_slash stake) = unat stake div 5)"
proof -
  have eq: "unat (equivocation_slash stake) = min (unat stake * 20) (2 ^ 128 - 1) div 100"
    by (simp add: equivocation_slash_def unat_saturating_mul unat_div min_def)
  have "min (unat stake * 20) (2 ^ 128 - 1) div 100 \<le> unat stake * 20 div 100"
    by (intro div_le_mono) simp
  also have "\<dots> \<le> unat stake" by simp
  finally have "equivocation_slash stake \<le> stake"
    by (simp add: word_le_nat_alt eq)
  moreover have "unat (equivocation_slash stake) = unat stake div 5" if "unat stake * 20 < 2 ^ 128"
  proof -
    have "unat stake * 20 div 100 = unat stake div 5"
      using div_mult2_eq [of "unat stake * 20" 20 5] by simp
    with that show ?thesis by (simp add: eq min_def)
  qed
  ultimately show ?thesis
    by (auto simp: absence_slash_def MINIMUM_ABSENCE_SLASH_def min_def max_def)
qed

theorem slash_bounds_witness:
  "unat (1000 * UNIT :: u128) * 20 < 2 ^ 128
   \<and> unat (equivocation_slash (1000 * UNIT)) = unat (1000 * UNIT :: u128) div 5"
  using slash_bounds [of "1000 * UNIT"] by (simp add: UNIT_def)

text \<open>
  \<^bold>\<open>Content is used only when it matches its reference.\<close>  Whatever the transport answers,
  \<open>fetch_verified_content\<close> returns bytes only if the reference has a CID, its size is within the
  limit and is the length of the bytes (modulo \<open>2^64\<close>), and the bytes hash to the reference; and it
  does return them in that case.  A bundle is accepted only if, moreover, it decodes with no rest,
  has the supported version, is consistent with its own package hash, and that is the expected one.
\<close>
theorem verified_content_sound:
  "(fetch_verified_content blake2_256 fetch reference max_bytes = Ok bytes \<longleftrightarrow>
      fetch reference = Ok bytes
      \<and> cr_cid_v1 reference \<noteq> [] \<and> cr_size reference \<le> max_bytes
      \<and> of_nat (length bytes) = cr_size reference \<and> blake2_256 bytes = cr_content_hash reference)
   \<and> (verify_work_bundle blake2_256 (decoder_package_hash codec) reference bytes max_bytes expected
        = Ok bundle \<longleftrightarrow>
      verify_content_ref blake2_256 reference bytes max_bytes = Ok ()
      \<and> bundle = \<lparr>vb_bytes = bytes, vb_package_hash = expected\<rparr>
      \<and> (\<exists>b. bc_decode codec bytes = Some (b, []) \<and> bc_version codec b = bc_version_v1 codec
           \<and> bc_package_hash_matches codec b \<and> bc_package_hash codec b = expected))"
  by (auto simp: fetch_verified_content_def verify_content_ref_def verify_work_bundle_def
      decoder_package_hash_def bundle_decode_def res_simps split_beta)

end
