(* ===== verification/Worker_Lanes.thy ===== *)
theory Worker_Lanes
  imports WorkerEngine
begin

text \<open>
  The worker process of \<open>crates/minijam-worker\<close>, first part: its configuration, its metrics and
  health endpoint, and the execution lanes that run independent tasks on threads.  The threads of
  the lanes send their results over one channel; a schedule decides the order in which the channel
  delivers them, and the clock readings of the threads are arbitrary.
\<close>

section \<open>Configuration\<close>

text \<open>
  Strings are UTF-8 byte strings.  \<open>whitespace_prefix\<close> is the number of bytes of a leading Unicode
  white space character, for \<open>trim\<close> and \<open>split_whitespace\<close>.
\<close>

definition codes :: "string \<Rightarrow> nat list" where
  "codes s = map of_char s"

fun whitespace_code :: "nat list \<Rightarrow> nat" where
  "whitespace_code (a # b # c # rest) =
     (if 9 \<le> a \<and> a \<le> 13 \<or> a = 32 then 1
      else if a = 0xC2 \<and> (b = 0x85 \<or> b = 0xA0) then 2
      else if a = 0xE1 \<and> b = 0x9A \<and> c = 0x80 then 3
      else if a = 0xE2 \<and> b = 0x80 \<and> (0x80 \<le> c \<and> c \<le> 0x8A \<or> c = 0xA8 \<or> c = 0xA9 \<or> c = 0xAF) then 3
      else if a = 0xE2 \<and> b = 0x81 \<and> c = 0x9F then 3
      else if a = 0xE3 \<and> b = 0x80 \<and> c = 0x80 then 3
      else 0)"
| "whitespace_code [a, b] = (if 9 \<le> a \<and> a \<le> 13 \<or> a = 32 then 1 else if a = 0xC2 \<and> (b = 0x85 \<or> b = 0xA0) then 2 else 0)"
| "whitespace_code [a] = (if 9 \<le> a \<and> a \<le> 13 \<or> a = 32 then 1 else 0)"
| "whitespace_code [] = 0"

definition whitespace_prefix :: "string \<Rightarrow> nat" where
  "whitespace_prefix s = whitespace_code (take 3 (codes s))"

function trim_start :: "string \<Rightarrow> string" where
  "trim_start s = (if s = [] \<or> whitespace_prefix s = 0 then s else trim_start (drop (whitespace_prefix s) s))"
  by pat_completeness auto
termination by (relation "measure length") auto

declare trim_start.simps [simp del]

text \<open>\<open>s.trim().is_empty()\<close>: nothing but white space.\<close>

definition blank :: "string \<Rightarrow> bool" where
  "blank s \<longleftrightarrow> trim_start s = []"

type_synonym execution_lane_id = u16

definition DEFAULT_EXECUTION_LANES :: execution_lane_id where
  "DEFAULT_EXECUTION_LANES = 1"

text \<open>Durations are milliseconds.\<close>

record worker_config =
  rpc_url :: string
  cfg_key :: "string option"
  cfg_worker_id :: "worker_id option"
  cfg_chain_id :: hash
  expected_genesis_hash :: "hash option"
  core_index :: u16
  submit_candidates :: bool
  submit_support_votes :: bool
  poll_interval :: nat
  execution_lanes :: execution_lane_id
  recovery_db_path :: "string option"
  metrics_bind :: "string option"
  health_bind :: "string option"
  ipfs_gateway :: string
  request_timeout :: nat
  max_bundle_bytes :: u64

definition default_worker_config :: worker_config where
  "default_worker_config =
     \<lparr>rpc_url = ''http://127.0.0.1:9944'', cfg_key = None, cfg_worker_id = None, cfg_chain_id = replicate 32 77,
      expected_genesis_hash = None, core_index = 0, submit_candidates = False, submit_support_votes = False,
      poll_interval = 1000, execution_lanes = DEFAULT_EXECUTION_LANES, recovery_db_path = None,
      metrics_bind = None, health_bind = Some ''127.0.0.1:8082'', ipfs_gateway = ''http://127.0.0.1:8080'',
      request_timeout = 30000, max_bundle_bytes = 16777216\<rparr>"

datatype config_error =
  MissingRpcUrl | MissingIpfsGateway | ZeroPollInterval | ZeroExecutionLanes | ZeroRequestTimeout | ZeroMaxBundleBytes

definition config_validate :: "worker_config \<Rightarrow> (config_error, unit) outcome" where
  "config_validate c =
     (if blank (rpc_url c) then Err MissingRpcUrl
      else if blank (ipfs_gateway c) then Err MissingIpfsGateway
      else if poll_interval c = 0 then Err ZeroPollInterval
      else if execution_lanes c = 0 then Err ZeroExecutionLanes
      else if request_timeout c = 0 then Err ZeroRequestTimeout
      else if max_bundle_bytes c = 0 then Err ZeroMaxBundleBytes
      else Ok ())"

section \<open>Tasks and lanes\<close>

record work_task =
  tk_work_id :: work_id
  tk_round :: u8
  tk_assignment_epoch :: u32
  tk_assigned_workers :: "worker_id list"
  tk_candidate_producer :: worker_id
  tk_package_hash :: hash
  tk_canonical_work_package :: bytes
  tk_bundle_ref :: content_ref

datatype worker_error =
    ChainError string
  | FetchFailure fetch_error
  | BundleFailure work_bundle_verification_error
  | RefineError string
  | SigningError string

definition deterministic_lane_for_work ::
    "work_id \<Rightarrow> execution_lane_id \<Rightarrow> (worker_error, execution_lane_id) outcome" where
  "deterministic_lane_for_work work lane_count =
     (if lane_count = 0 then Panic else Ok (ucast (work mod ucast lane_count)))"

record worker_task_v2 =
  t2_task :: work_task
  t2_execution_lane :: execution_lane_id

definition from_v1 :: "work_task \<Rightarrow> execution_lane_id \<Rightarrow> (worker_error, worker_task_v2) outcome" where
  "from_v1 task lane_count =
     bind_res (deterministic_lane_for_work (tk_work_id task) lane_count) (\<lambda>lane.
     Ok \<lparr>t2_task = task, t2_execution_lane = lane\<rparr>)"

primrec map_res :: "('a \<Rightarrow> ('e, 'b) outcome) \<Rightarrow> 'a list \<Rightarrow> ('e, 'b list) outcome" where
  "map_res f [] = Ok []"
| "map_res f (x # xs) = bind_res (f x) (\<lambda>y. bind_res (map_res f xs) (\<lambda>ys. Ok (y # ys)))"

definition lane_key :: "worker_task_v2 \<Rightarrow> execution_lane_id \<times> work_id" where
  "lane_key t = (t2_execution_lane t, tk_work_id (t2_task t))"

definition assign_tasks_to_lanes ::
    "work_task list \<Rightarrow> execution_lane_id \<Rightarrow> (worker_error, worker_task_v2 list) outcome" where
  "assign_tasks_to_lanes tasks lane_count =
     bind_res (map_res (\<lambda>task. from_v1 task lane_count) tasks) (\<lambda>assigned.
     Ok (sort_key lane_key assigned))"

record 'a lane_execution_result =
  lr_work_id :: work_id
  lr_lane_id :: execution_lane_id
  started_at :: nat
  finished_at :: nat
  lr_result :: "(worker_error, 'a) outcome"

definition intervals_overlap :: "'a lane_execution_result \<Rightarrow> 'b lane_execution_result \<Rightarrow> bool" where
  "intervals_overlap left right \<longleftrightarrow> started_at left < finished_at right \<and> started_at right < finished_at left"

text \<open>The tasks of each lane, in the order they came.\<close>

definition lane_index :: "execution_lane_id \<Rightarrow> worker_task_v2 \<Rightarrow> nat" where
  "lane_index lane_count t = unat (min (t2_execution_lane t) (lane_count - 1))"

definition lane_queues :: "execution_lane_id \<Rightarrow> worker_task_v2 list \<Rightarrow> worker_task_v2 list list" where
  "lane_queues lane_count tasks =
     map (\<lambda>i. filter (\<lambda>t. lane_index lane_count t = i) tasks) [0..<unat lane_count]"

text \<open>
  The thread of a lane.  \<open>clock\<close> gives the two readings around the lane's next task.  A task that
  panics ends the thread, so the lane's later tasks have no result.
\<close>

primrec run_lane ::
    "(work_task \<Rightarrow> (worker_error, 'a) outcome) \<Rightarrow> (nat \<Rightarrow> nat \<times> nat) \<Rightarrow> nat \<Rightarrow> worker_task_v2 list
     \<Rightarrow> 'a lane_execution_result list" where
  "run_lane execute clock n [] = []"
| "run_lane execute clock n (t # ts) =
     (case execute (t2_task t) of
        Panic \<Rightarrow> []
      | result \<Rightarrow>
          \<lparr>lr_work_id = tk_work_id (t2_task t), lr_lane_id = t2_execution_lane t,
           started_at = fst (clock n), finished_at = snd (clock n), lr_result = result\<rparr>
          # run_lane execute clock (Suc n) ts)"

definition run_lanes ::
    "(work_task \<Rightarrow> (worker_error, 'a) outcome) \<Rightarrow> (nat \<Rightarrow> nat \<Rightarrow> nat \<times> nat) \<Rightarrow> worker_task_v2 list list
     \<Rightarrow> 'a lane_execution_result list list" where
  "run_lanes execute clocks lanes = map (\<lambda>(i, ts). run_lane execute (clocks i) 0 ts) (List.enumerate 0 lanes)"

text \<open>The order in which the channel delivers what the lanes send.\<close>

fun deliver :: "nat list \<Rightarrow> 'a list list \<Rightarrow> 'a list" where
  "deliver [] lanes = concat lanes"
| "deliver (i # schedule) lanes =
     (if i < length lanes
      then case lanes ! i of [] \<Rightarrow> deliver schedule lanes | x # xs \<Rightarrow> x # deliver schedule (lanes[i := xs])
      else deliver schedule lanes)"

definition result_key :: "'a lane_execution_result \<Rightarrow> execution_lane_id \<times> work_id" where
  "result_key r = (lr_lane_id r, lr_work_id r)"

definition execute_tasks_on_lanes ::
    "nat list \<Rightarrow> (nat \<Rightarrow> nat \<Rightarrow> nat \<times> nat) \<Rightarrow> (work_task \<Rightarrow> (worker_error, 'a) outcome)
     \<Rightarrow> worker_task_v2 list \<Rightarrow> execution_lane_id \<Rightarrow> (worker_error, 'a lane_execution_result list) outcome" where
  "execute_tasks_on_lanes schedule clocks execute tasks lane_count =
     (if lane_count = 0 then Panic
      else Ok (sort_key result_key
             (deliver schedule (run_lanes execute clocks (lane_queues lane_count tasks)))))"

text \<open>The scoped variant: a thread that panics makes the scope panic.\<close>

definition execute_tasks_on_lanes_scoped ::
    "nat list \<Rightarrow> (nat \<Rightarrow> nat \<Rightarrow> nat \<times> nat) \<Rightarrow> (work_task \<Rightarrow> (worker_error, 'a) outcome)
     \<Rightarrow> worker_task_v2 list \<Rightarrow> execution_lane_id \<Rightarrow> (worker_error, 'a lane_execution_result list) outcome" where
  "execute_tasks_on_lanes_scoped schedule clocks execute tasks lane_count =
     (if lane_count = 0 then Panic
      else if \<exists>t\<in>set tasks. execute (t2_task t) = Panic then Panic
      else Ok (sort_key result_key
             (deliver schedule (run_lanes execute clocks (lane_queues lane_count tasks)))))"

section \<open>Metrics and health\<close>

record worker_metrics =
  polls_total :: u64
  tasks_processed_total :: u64
  vote_tasks_seen_total :: u64
  bundle_ready_total :: u64
  bundle_rejected_total :: u64
  refine_started_total :: u64
  refine_completed_total :: u64
  refine_failed_total :: u64
  candidate_queue_depth :: u64

definition metrics_new :: worker_metrics where
  "metrics_new = \<lparr>polls_total = 0, tasks_processed_total = 0, vote_tasks_seen_total = 0, bundle_ready_total = 0,
     bundle_rejected_total = 0, refine_started_total = 0, refine_completed_total = 0, refine_failed_total = 0,
     candidate_queue_depth = 0\<rparr>"

definition record_poll :: "nat \<Rightarrow> worker_metrics \<Rightarrow> worker_metrics" where
  "record_poll processed m = m\<lparr>polls_total := polls_total m + 1,
     tasks_processed_total := tasks_processed_total m + of_nat processed\<rparr>"

definition record_bundle_ready :: "worker_metrics \<Rightarrow> worker_metrics" where
  "record_bundle_ready m = m\<lparr>bundle_ready_total := bundle_ready_total m + 1\<rparr>"

definition record_vote_tasks_seen :: "nat \<Rightarrow> worker_metrics \<Rightarrow> worker_metrics" where
  "record_vote_tasks_seen n m = m\<lparr>vote_tasks_seen_total := vote_tasks_seen_total m + of_nat n\<rparr>"

definition record_bundle_rejected :: "worker_metrics \<Rightarrow> worker_metrics" where
  "record_bundle_rejected m = m\<lparr>bundle_rejected_total := bundle_rejected_total m + 1\<rparr>"

definition record_refine_started :: "nat \<Rightarrow> worker_metrics \<Rightarrow> worker_metrics" where
  "record_refine_started queue_depth m = m\<lparr>refine_started_total := refine_started_total m + 1,
     candidate_queue_depth := of_nat queue_depth\<rparr>"

definition record_refine_completed :: "worker_metrics \<Rightarrow> worker_metrics" where
  "record_refine_completed m = m\<lparr>refine_completed_total := refine_completed_total m + 1\<rparr>"

definition record_refine_failed :: "worker_metrics \<Rightarrow> worker_metrics" where
  "record_refine_failed m = m\<lparr>refine_failed_total := refine_failed_total m + 1\<rparr>"

definition starts_with :: "string \<Rightarrow> string \<Rightarrow> bool" where
  "starts_with prefix s \<longleftrightarrow> take (length prefix) s = prefix"

text \<open>The status line and the body the health endpoint answers with.\<close>

definition health_response :: "string \<Rightarrow> bool \<Rightarrow> string \<times> string" where
  "health_response request ready =
     (if starts_with ''GET /health/live '' request \<or> starts_with ''GET /healthz '' request
      then (''200 OK'', ''live'' @ [CHR 0x0A])
      else if (starts_with ''GET /health/ready '' request \<or> starts_with ''GET /readyz '' request) \<and> ready
      then (''200 OK'', ''ready'' @ [CHR 0x0A])
      else if starts_with ''GET /health/ready '' request \<or> starts_with ''GET /readyz '' request
      then (''503 Service Unavailable'', ''not ready'' @ [CHR 0x0A])
      else (''404 Not Found'', ''not found'' @ [CHR 0x0A]))"

section \<open>Lemmas\<close>

lemma deliver_mset: "mset (deliver schedule lanes) = mset (concat lanes)"
proof (induction schedule lanes rule: deliver.induct)
  case (2 i schedule lanes)
  show ?case
  proof (cases "i < length lanes")
    case True
    show ?thesis
    proof (cases "lanes ! i")
      case (Cons x xs)
      have "mset (concat lanes) = add_mset x (mset (concat (lanes[i := xs])))"
      proof -
        have "lanes = take i lanes @ (x # xs) # drop (Suc i) lanes" using True Cons by (metis id_take_nth_drop)
        moreover have "lanes[i := xs] = take i lanes @ xs # drop (Suc i) lanes" using True by (simp add: upd_conv_take_nth_drop)
        ultimately show ?thesis by (metis (no_types, lifting) append_Cons concat.simps(2) concat_append mset.simps(2) mset_append union_mset_add_mset_right)
      qed
      then show ?thesis using 2 True Cons by simp
    qed (use 2 True in simp)
  qed (use 2 in simp)
qed simp

text \<open>Elements of one lane keep their order, so what satisfies \<open>P\<close> in one lane only keeps it.\<close>

lemma filter_concat_one:
  assumes "i < length lanes" "\<And>j x. j < length lanes \<Longrightarrow> j \<noteq> i \<Longrightarrow> x \<in> set (lanes ! j) \<Longrightarrow> \<not> P x"
  shows "filter P (concat lanes) = filter P (lanes ! i)"
proof -
  have l: "lanes = take i lanes @ lanes ! i # drop (Suc i) lanes" using assms(1) by (simp add: id_take_nth_drop)
  have "\<not> P x" if ys: "ys \<in> set (take i lanes) \<union> set (drop (Suc i) lanes)" and x: "x \<in> set ys" for x ys
  proof -
    have "\<exists>j. j < length lanes \<and> j \<noteq> i \<and> ys = lanes ! j"
      using ys
    proof
      assume "ys \<in> set (take i lanes)"
      then obtain a where "a < i" "ys = lanes ! a" by (auto simp: in_set_conv_nth)
      then show ?thesis using assms(1) by (intro exI [of _ a]) auto
    next
      assume "ys \<in> set (drop (Suc i) lanes)"
      then obtain a where "a < length lanes - Suc i" "ys = lanes ! Suc (i + a)" by (auto simp: in_set_conv_nth)
      then show ?thesis by (intro exI [of _ "Suc (i + a)"]) auto
    qed
    then show ?thesis using assms(2) x by blast
  qed
  then have "filter P (concat (take i lanes)) = []" "filter P (concat (drop (Suc i) lanes)) = []"
    by (auto simp: filter_empty_conv)
  then show ?thesis
    by (subst l) (simp del: append_take_drop_id)
qed

lemma filter_deliver:
  assumes "i < length lanes" "\<And>j x. j < length lanes \<Longrightarrow> j \<noteq> i \<Longrightarrow> x \<in> set (lanes ! j) \<Longrightarrow> \<not> P x"
  shows "filter P (deliver schedule lanes) = filter P (lanes ! i)"
  using assms
proof (induction schedule lanes rule: deliver.induct)
  case (1 lanes)
  then show ?case using filter_concat_one by (metis deliver.simps(1))
next
  case (2 k schedule lanes)
  show ?case
  proof (cases "k < length lanes \<and> lanes ! k \<noteq> []")
    case True
    then obtain x xs where k: "k < length lanes" "lanes ! k = x # xs" by (cases "lanes ! k") auto
    have "\<not> P y" if "j < length (lanes[k := xs])" "j \<noteq> i" "y \<in> set (lanes[k := xs] ! j)" for j y
      using that k 2(5) [of j y] by (cases "j = k") auto
    then have "filter P (deliver schedule (lanes[k := xs])) = filter P (lanes[k := xs] ! i)"
      using 2(2) [OF k] 2(4) by simp
    moreover have "k \<noteq> i \<Longrightarrow> \<not> P x" using 2(5) [of k x] k by simp
    ultimately show ?thesis
      using k 2(4) by (cases "k = i") auto
  next
    case False
    then show ?thesis using 2 by (cases "k < length lanes") auto
  qed
qed

lemma insort_key_map: "map f (insort_key (\<lambda>x. g (f x)) x xs) = insort_key g (f x) (map f xs)"
  by (induction xs) auto

lemma sort_key_map: "map f (sort_key (\<lambda>x. g (f x)) xs) = sort_key g (map f xs)"
  by (induction xs) (simp_all add: insort_key_map)

lemma mset_partition:
  assumes "\<forall>t\<in>set ts. g t < n"
  shows "mset (concat (map (\<lambda>i. filter (\<lambda>t. g t = i) ts) [0..<n])) = mset ts"
proof -
  have "mset (concat (map (\<lambda>i. filter (\<lambda>t. g t = i) ts) [0..<n])) = (\<Sum>i<n. filter_mset (\<lambda>t. g t = i) (mset ts))"
    by (induction n) (simp_all add: add.commute)
  also have "\<dots> = mset ts"
    using assms
  proof (induction ts)
    case (Cons t ts)
    have "(\<Sum>i<n. filter_mset (\<lambda>t. g t = i) (mset (t # ts)))
        = (\<Sum>i<n. (if i = g t then {#t#} else {#}) + filter_mset (\<lambda>t. g t = i) (mset ts))"
      by (intro sum.cong) auto
    also have "\<dots> = {#t#} + mset ts"
      using Cons by (simp add: sum.distrib)
    finally show ?case by simp
  qed simp
  finally show ?thesis .
qed

text \<open>The part of a result that does not depend on the clock.\<close>

definition untimed :: "'a lane_execution_result \<Rightarrow> (execution_lane_id \<times> work_id) \<times> (worker_error, 'a) outcome" where
  "untimed r = (result_key r, lr_result r)"

definition sequential :: "(work_task \<Rightarrow> (worker_error, 'a) outcome) \<Rightarrow> worker_task_v2
    \<Rightarrow> (execution_lane_id \<times> work_id) \<times> (worker_error, 'a) outcome" where
  "sequential execute t = (lane_key t, execute (t2_task t))"

lemma run_lane_untimed:
  "\<forall>t\<in>set ts. execute (t2_task t) \<noteq> Panic \<Longrightarrow> map untimed (run_lane execute clock n ts) = map (sequential execute) ts"
  by (induction ts arbitrary: n)
    (auto simp: untimed_def sequential_def result_key_def lane_key_def split: outcome.split)

lemma deliver_untimed: "map f (deliver schedule lanes) = deliver schedule (map (map f) lanes)"
  by (induction schedule lanes rule: deliver.induct) (auto simp: map_concat map_update split: list.split)

lemma run_lanes_untimed:
  assumes "\<forall>t\<in>set tasks. execute (t2_task t) \<noteq> Panic"
  shows "map (map untimed) (run_lanes execute clocks (lane_queues lane_count tasks))
    = map (\<lambda>i. map (sequential execute) (filter (\<lambda>t. lane_index lane_count t = i) tasks)) [0..<unat lane_count]"
  using assms
  by (intro nth_equalityI)
    (auto simp: run_lanes_def lane_queues_def nth_enumerate_eq run_lane_untimed)

lemma lane_index_less: "lane_count \<noteq> 0 \<Longrightarrow> lane_index lane_count t < unat lane_count"
proof -
  assume "lane_count \<noteq> 0"
  then have "unat (lane_count - 1) < unat lane_count" by (simp add: unat_minus_one unat_gt_0)
  moreover have "unat (min (t2_execution_lane t) (lane_count - 1)) \<le> unat (lane_count - 1)"
    by (simp flip: word_le_nat_alt)
  ultimately show ?thesis by (simp add: lane_index_def)
qed

lemma lanes_sorted:
  assumes "lane_count \<noteq> 0" "\<forall>t\<in>set tasks. execute (t2_task t) \<noteq> Panic"
  shows "map untimed (sort_key result_key (deliver schedule (run_lanes execute clocks (lane_queues lane_count tasks))))
    = map (sequential execute) (sort_key lane_key tasks)"
proof -
  let ?zs = "deliver schedule (map (\<lambda>i. map (sequential execute) (filter (\<lambda>t. lane_index lane_count t = i) tasks)) [0..<unat lane_count])"
  let ?ys = "map (sequential execute) (sort_key lane_key tasks)"
  have fst_seq: "fst (sequential execute t) = lane_key t" for t by (simp add: sequential_def)
  have "sort_key fst ?zs = ?ys"
  proof (rule properties_for_sort_key)
    have "mset ?zs = image_mset (sequential execute) (mset (concat (map (\<lambda>i. filter (\<lambda>t. lane_index lane_count t = i) tasks) [0..<unat lane_count])))"
      unfolding deliver_mset by (simp flip: mset_map add: map_concat comp_def)
    also have "\<dots> = image_mset (sequential execute) (mset tasks)"
      using lane_index_less [OF assms(1)] by (subst mset_partition) auto
    finally show "mset ?ys = mset ?zs" by simp
  next
    fix k assume "k \<in> set ?ys"
    then obtain t where k: "k = sequential execute t" by auto
    let ?i = "lane_index lane_count t"
    let ?lane = "\<lambda>i. map (sequential execute) (filter (\<lambda>t. lane_index lane_count t = i) tasks)"
    have i: "?i < unat lane_count" by (rule lane_index_less [OF assms(1)])
    have same: "lane_key u = lane_key t \<Longrightarrow> lane_index lane_count u = ?i" for u
      by (simp add: lane_key_def lane_index_def)
    have "filter (\<lambda>x. fst k = fst x) ?zs = filter (\<lambda>x. fst k = fst x) (map ?lane [0..<unat lane_count] ! ?i)"
    proof (rule filter_deliver)
      show "?i < length (map ?lane [0..<unat lane_count])" using i by simp
    next
      fix j x assume j: "j < length (map ?lane [0..<unat lane_count])" "j \<noteq> ?i" "x \<in> set (map ?lane [0..<unat lane_count] ! j)"
      then obtain u where "x = sequential execute u" "lane_index lane_count u = j" by auto
      then show "fst k \<noteq> fst x" using j(2) same [of u] by (auto simp: k fst_seq)
    qed
    also have "\<dots> = map (sequential execute) (filter (\<lambda>u. lane_key u = lane_key t \<and> lane_index lane_count u = ?i) tasks)"
      using i by (simp add: filter_map comp_def k fst_seq eq_commute [of "lane_key t"] conj_commute)
    also have "\<dots> = map (sequential execute) (filter (\<lambda>u. lane_key u = lane_key t) tasks)"
    proof -
      have "(\<lambda>u. lane_key u = lane_key t \<and> lane_index lane_count u = ?i) = (\<lambda>u. lane_key u = lane_key t)"
        using same by blast
      then show ?thesis by simp
    qed
    also have "\<dots> = filter (\<lambda>x. fst k = fst x) ?ys"
      by (simp add: filter_map comp_def k fst_seq eq_commute [of "lane_key t"] sort_key_stable)
    finally show "filter (\<lambda>x. fst k = fst x) ?ys = filter (\<lambda>x. fst k = fst x) ?zs" by simp
  next
    show "sorted (map fst ?ys)" by (simp add: comp_def fst_seq)
  qed
  moreover have "map untimed (sort_key result_key zs) = sort_key fst (map untimed zs)" for zs :: "'a lane_execution_result list"
    using sort_key_map [of untimed fst zs] by (simp add: untimed_def)
  ultimately show ?thesis
    by (simp add: deliver_untimed run_lanes_untimed [OF assms(2)])
qed

section \<open>Properties\<close>

text \<open>
  C13. Lanes do not change results.  Whatever the number of lanes, the order in which the channel
  delivers and the readings of the clocks, the concurrent executor returns the results a sequential
  run over the tasks sorted by lane and work id would return, provided no task panics.
\<close>

theorem lanes_deterministic:
  assumes "lane_count \<noteq> 0" "\<forall>t\<in>set tasks. execute (t2_task t) \<noteq> Panic"
  shows "\<exists>rs. execute_tasks_on_lanes_scoped schedule clocks execute tasks lane_count = Ok rs
     \<and> execute_tasks_on_lanes schedule clocks execute tasks lane_count = Ok rs
     \<and> map (\<lambda>r. (lr_lane_id r, lr_work_id r, lr_result r)) rs
       = map (\<lambda>t. (t2_execution_lane t, tk_work_id (t2_task t), execute (t2_task t))) (sort_key lane_key tasks)"
proof -
  let ?rs = "sort_key result_key (deliver schedule (run_lanes execute clocks (lane_queues lane_count tasks)))"
  let ?flat = "\<lambda>((a, b), c). (a, b, c)"
  have "map ?flat (map untimed ?rs) = map ?flat (map (sequential execute) (sort_key lane_key tasks))"
    by (simp only: lanes_sorted [OF assms])
  then have "map (\<lambda>r. (lr_lane_id r, lr_work_id r, lr_result r)) ?rs
       = map (\<lambda>t. (t2_execution_lane t, tk_work_id (t2_task t), execute (t2_task t))) (sort_key lane_key tasks)"
    by (simp add: untimed_def sequential_def result_key_def lane_key_def comp_def)
  then show ?thesis
    using assms by (auto simp: execute_tasks_on_lanes_def execute_tasks_on_lanes_scoped_def)
qed

definition ex_lane_task :: "work_id \<Rightarrow> work_task" where
  "ex_lane_task w = \<lparr>tk_work_id = w, tk_round = 0, tk_assignment_epoch = 0, tk_assigned_workers = [1],
     tk_candidate_producer = 1, tk_package_hash = [], tk_canonical_work_package = [],
     tk_bundle_ref = \<lparr>cr_cid_v1 = [], cr_content_hash = [], cr_size = 0\<rparr>\<rparr>"

definition ex_lane_tasks :: "worker_task_v2 list" where
  "ex_lane_tasks = the_ok (assign_tasks_to_lanes (map ex_lane_task [7, 4, 9]) 2)"

theorem lanes_deterministic_witness:
  "\<exists>rs. execute_tasks_on_lanes_scoped [1, 0, 1] (\<lambda>i n. (n, n + i)) (\<lambda>t. Ok (tk_work_id t)) ex_lane_tasks 2 = Ok rs
     \<and> map (\<lambda>r. (lr_lane_id r, lr_work_id r, lr_result r)) rs = [(0, 4, Ok 4), (1, 7, Ok 7), (1, 9, Ok 9)]"
proof -
  have "map (\<lambda>t. (t2_execution_lane t, tk_work_id (t2_task t), Ok (tk_work_id (t2_task t)) :: (worker_error, work_id) outcome))
      (sort_key lane_key ex_lane_tasks) = [(0, 4, Ok 4), (1, 7, Ok 7), (1, 9, Ok 9)]"
    by code_simp
  moreover have "(2 :: u16) \<noteq> 0" "\<forall>t\<in>set ex_lane_tasks. (Ok (tk_work_id (t2_task t)) :: (worker_error, work_id) outcome) \<noteq> Panic"
    by simp_all
  note lanes_deterministic [OF this, of "[1, 0, 1]" "\<lambda>i n. (n, n + i)"]
  ultimately show ?thesis by auto
qed

end
