(* ===== verification/Spec2Isabelle.thy ===== *)
theory Spec2Isabelle
  imports StateAdapter MiniJam_Props Bridge Bulletin Pvm_Executor System_Service Worker_Lanes
begin

text \<open>
  \<^bold>\<open>The MiniJAM client.\<close>  The program is a Substrate chain that orders work packages for a JAM-style
  executor.  Accounts submit packages; registered workers are assigned to each package, one of them
  submits a candidate report and the others vote on it; an accepted report is executed at the end of
  a block, and the executor's output is validated and applied to the protocol state kept on chain.
  System operations (creating a service, allocating funds to it) go through the system service, a C
  program that runs inside the executor.  Beside the chain there are a worker process, a content
  store, a bridge and an SDK for services.

  \<^bold>\<open>How the model corresponds to the code.\<close>  A struct is a \<open>record\<close>, an enum a \<open>datatype\<close>, an integer of
  width \<open>w\<close> a word of that width with wrapping, checked and saturating operations as the source uses
  them.  A \<open>Result\<close> is an \<open>outcome\<close>: \<open>Ok\<close>, \<open>Err\<close>, or \<open>Panic\<close> for an \<open>expect\<close>, an assertion or a fatal
  failure of a hook.  A pallet's storage is one record; a call takes the record and returns the new
  one, and since the framework rolls a failed call back, \<open>Err\<close> carries no state.  Where the code has no
  rollback (the content store) an operation returns its result together with the state.  Code outside
  the repository is an argument of the definitions that use it: hashing and SCALE codecs, the currency
  of the balances pallet, the JAM executor, signature checks, the virtual machine's host and memory,
  the file system, the iteration order of storage maps.  What the code relies on is a named predicate
  (\<open>currency_laws\<close>, \<open>alloc_iter_law\<close>, \<open>host_storage\<close>, \<open>scale_layout\<close>), and every property that assumes one
  has a witness at a concrete instance.

  \<^bold>\<open>The theories.\<close>

  \<^item> \<open>MJ_Prelude\<close>: machine types, outcomes, checked arithmetic, bounded vectors, the \<open>swap_remove\<close>
    loop, association lists, little-endian bytes, and the collections \<open>res_simps\<close> and \<open>store_simps\<close>.
  \<^item> \<open>Transition\<close>: the locales \<open>invariant_system\<close>, \<open>write_once\<close> and \<open>exactly_once\<close>, interpreted on the
    workers pallet, the main pallet, the bridge and the content store.  \<open>Ranking\<close>: the locale of
    rankings that pick the best of a list, interpreted on stakes and on epoch snapshots.
  \<^item> \<open>Protocol\<close> (\<open>crates/minijam-protocol\<close>): constants, system operations and their request ids, reports,
    votes, tasks, the Stage 0 refine context.
  \<^item> \<open>JamCore\<close> (\<open>crates/minijam-jamcore-api\<close>): input and output of the executor, their byte layouts and
    hashes, the normal form of state changes.  Theorems: the receipt hash commits to the output, and
    normalisation is sorted, complete and last-wins.
  \<^item> \<open>StateAdapter\<close> (\<open>crates/minijam-state-adapter\<close>): validation of an output against its input and the
    state, and its application, behind the locale \<open>protocol_store\<close>.  Theorems: validation accepts exactly
    the outputs its specification describes, an accepted delta is the overlay of the state, an
    applied delta cannot be applied again, and an accepted output belongs to its input.
  \<^item> \<open>WorkerEngine\<close> (\<open>crates/minijam-worker-engine\<close>): content and bundle checks, fetchers, ranking, batch
    assignment, vote rounds, slashes.
  \<^item> \<open>Frame\<close>: origins, dispatch errors, the currency interface and a reference ledger.
  \<^item> \<open>Workers_Pallet\<close>, \<open>Workers_Inv\<close>, \<open>Workers_Props\<close> (\<open>pallets/minijam-workers\<close>): registration, stakes,
    assignment, votes, equivocation, settlement, epochs; the invariant and its preservation by every
    call and hook; votes, results and equivocation proofs counted once, due rounds closed.
  \<^item> \<open>MiniJam_State\<close>, \<open>MiniJam_Queues\<close>, \<open>MiniJam_Pallet\<close> (\<open>pallets/minijam\<close>): the storage, the queues of
    preimages, system operations and allocations, the calls, the hooks and the block transition
    \<open>execute_block_stf\<close>.  \<open>MiniJam_Inv\<close>, \<open>MiniJam_Queue_Inv\<close> and \<open>MiniJam_Chain\<close>: the invariants of the
    queues and of the whole chain, the step relation \<open>minijam_step\<close>, and the abstract machine
    \<open>work_moves\<close> that a work follows.  \<open>MiniJam_Run\<close>: a concrete chain that runs from genesis to an
    imported report.  \<open>MiniJam_Props\<close>: the theorems about the chain, among them that the
    invariant holds in every reachable state, that the main pallet's steps are steps of the workers
    pallet, that a block either commits a validated output or keeps the protocol state, that a work's
    status only advances, and that an allocation is processed once.
  \<^item> \<open>Bridge\<close> (\<open>pallets/minijam-bridge\<close>, \<open>crates/minijam-bridge-engine\<close>): deposits and releases; the escrow
    is backed and a nonce pays once, in the pallet and in the engine's ledger.
  \<^item> \<open>Bulletin\<close> (\<open>crates/minijam-bulletin-api\<close>, \<open>crates/minijam-bulletin-simulator\<close>): the content store;
    stored content is fetched unchanged, quotas bound what is stored, and an interleaving of two
    stores that loses an index entry.
  \<^item> \<open>Service_Crypto\<close>, \<open>Service_Sdk\<close> (\<open>service-toolchain/sdk\<close>, \<open>examples/services/counter\<close>): BLAKE2b and its
    block structure, the wrappers of the host calls, the decoder of natural numbers and its inverse,
    the saturating counter.  \<open>Pvm_Executor\<close> (\<open>crates/minijam-pvm-executor\<close>): the numbers of the host
    calls and the bridge that serves them.
  \<^item> \<open>System_Service\<close> (\<open>services/system-service\<close>): the byte-level entry point.  Theorems: it executes
    exactly the encoded batch, a service is created once per operation as long as its submitter sends
    only creations, an allocation resets that protection, and the pallet finds the receipts.
  \<^item> \<open>Worker_Lanes\<close> (\<open>crates/minijam-worker\<close>, first part): configuration, metrics, health routing and the
    execution lanes.  The delivery order of the threads' channel is a schedule argument; the results
    are those of a sequential run for every schedule.

  \<^bold>\<open>Bounds and termination.\<close>  The batch bounds are those of the source (4 reports, 64 preimages, 64
  system operations, 4096 state changes).  Loops are structural or have a measure; the probing loops
  of the SDK, which end only if the host reports a missing entry, are partial functions.
  \<open>leading_ones\<close> runs at most 8 times because the C loop stops at 8.  Natural numbers on the wire are
  treated up to 56 bits, all the decoder accepts.

  \<^bold>\<open>Not modelled.\<close>  Weights and benchmarks.  The remainder of \<open>crates/minijam-worker\<close>: the configuration
  file, the RPC sources, refine-backed votes and candidates, the recovery file and the runner, and the
  process around it.  The chain client, the formal RPC server, the command line tools, the compiler
  server, the launcher and the node consist of network and process input and output over external
  libraries.  The work package builder assembles types of the external \<open>jambda\<close> crates, which are
  not part of the sources.  The runtime's composition is macro wiring, its genesis presets are literal
  data, and the executor mock serves tests only.
\<close>

end
